(* ===== verification/Dbx_Prelude.thy ===== *)
theory Dbx_Prelude
  imports Main "HOL-Library.AList"
begin

text \<open>
  Shared vocabulary of the development.

  \<^item> A Rust \<^verbatim>\<open>char\<close> is an Isabelle \<^typ>\<open>char\<close>, read as the code point U+0000 to U+00FF; a
    \<^verbatim>\<open>String\<close> or \<^verbatim>\<open>&str\<close> is the list of its characters. The Unicode classifications the sources
    use (\<^verbatim>\<open>is_whitespace\<close>, \<^verbatim>\<open>is_alphanumeric\<close>, \<^verbatim>\<open>is_control\<close>) are written out exactly on that
    range; text beyond U+00FF is outside the model.
  \<^item> \<^verbatim>\<open>Instant\<close> and \<^verbatim>\<open>Duration\<close> are natural numbers of nanoseconds; the clock is an argument of
    every operation that reads it. \<^verbatim>\<open>duration_since\<close> saturates at zero, as subtraction on
    \<^typ>\<open>nat\<close> does.
  \<^item> \<^verbatim>\<open>Result<T, E>\<close> is the sum \<^verbatim>\<open>E + T\<close> with \<^const>\<open>Inl\<close> the error.
  \<^item> \<^verbatim>\<open>HashMap<K, V>\<close> is an association list with distinct keys. The order of the list stands for
    the unspecified iteration order; statements about maps never depend on it. The operations are
    an interpretation of the map interface \<open>finite_store\<close>.
\<close>

named_theorems store_laws \<open>lookup laws of the hash map operations\<close>
named_theorems wf_intros \<open>introduction rules that keep a hash map well formed\<close>

type_synonym instant = nat
type_synonym duration = nat
type_synonym 'a rust_result = "string + 'a"
type_synonym ('k, 'v) hmap = "('k \<times> 'v) list"

definition from_secs :: "nat \<Rightarrow> duration" where
  "from_secs s = s * 1000000000"

definition from_millis :: "nat \<Rightarrow> duration" where
  "from_millis ms = ms * 1000000"

definition as_millis :: "duration \<Rightarrow> nat" where
  "as_millis d = d div 1000000"


section \<open>Characters and strings\<close>

definition char_code :: "char \<Rightarrow> nat" where
  "char_code c = of_char c"

definition is_ascii :: "char \<Rightarrow> bool" where
  "is_ascii c \<longleftrightarrow> char_code c < 128"

definition is_ascii_digit :: "char \<Rightarrow> bool" where
  "is_ascii_digit c \<longleftrightarrow> 48 \<le> char_code c \<and> char_code c \<le> 57"

definition is_ascii_upper :: "char \<Rightarrow> bool" where
  "is_ascii_upper c \<longleftrightarrow> 65 \<le> char_code c \<and> char_code c \<le> 90"

definition is_ascii_lower :: "char \<Rightarrow> bool" where
  "is_ascii_lower c \<longleftrightarrow> 97 \<le> char_code c \<and> char_code c \<le> 122"

definition is_ascii_alphabetic :: "char \<Rightarrow> bool" where
  "is_ascii_alphabetic c \<longleftrightarrow> is_ascii_upper c \<or> is_ascii_lower c"

definition is_ascii_alphanumeric :: "char \<Rightarrow> bool" where
  "is_ascii_alphanumeric c \<longleftrightarrow> is_ascii_alphabetic c \<or> is_ascii_digit c"

definition is_ascii_control :: "char \<Rightarrow> bool" where
  "is_ascii_control c \<longleftrightarrow> char_code c < 32 \<or> char_code c = 127"

text \<open>\<^verbatim>\<open>char::is_whitespace\<close> (property White\_Space) below U+0100.\<close>

definition is_whitespace :: "char \<Rightarrow> bool" where
  "is_whitespace c \<longleftrightarrow> 9 \<le> char_code c \<and> char_code c \<le> 13 \<or> char_code c = 32 \<or> char_code c = 133 \<or> char_code c = 160"

text \<open>\<^verbatim>\<open>char::is_alphanumeric\<close> (Alphabetic, or Nd, Nl, No) below U+0100.\<close>

definition is_alphanumeric :: "char \<Rightarrow> bool" where
  "is_alphanumeric c \<longleftrightarrow> is_ascii_alphanumeric c \<or>
     char_code c \<in> {170, 178, 179, 181, 185, 186, 188, 189, 190} \<or>
     192 \<le> char_code c \<and> char_code c \<noteq> 215 \<and> char_code c \<noteq> 247"

definition to_ascii_lowercase :: "string \<Rightarrow> string" where
  "to_ascii_lowercase = map (\<lambda>c. if is_ascii_upper c then char_of (char_code c + 32) else c)"

definition to_ascii_uppercase :: "string \<Rightarrow> string" where
  "to_ascii_uppercase = map (\<lambda>c. if is_ascii_lower c then char_of (char_code c - 32) else c)"

definition eq_ignore_ascii_case :: "string \<Rightarrow> string \<Rightarrow> bool" where
  "eq_ignore_ascii_case s t \<longleftrightarrow> to_ascii_lowercase s = to_ascii_lowercase t"

text \<open>
  \<^verbatim>\<open>to_lowercase\<close> and \<^verbatim>\<open>to_uppercase\<close> on the modelled range. Only \<^verbatim>\<open>U+00DF\<close> expands; the
  upper case of \<^verbatim>\<open>U+00B5\<close> and \<^verbatim>\<open>U+00FF\<close> lies beyond the range and these two are left as they are,
  which no comparison with an ASCII keyword can tell apart.
\<close>

definition to_lowercase :: "string \<Rightarrow> string" where
  "to_lowercase s = map (\<lambda>c. if is_ascii_upper c \<or>
       (192 \<le> char_code c \<and> char_code c \<le> 222 \<and> char_code c \<noteq> 215)
     then char_of (char_code c + 32) else c) s"

definition to_uppercase :: "string \<Rightarrow> string" where
  "to_uppercase s = concat (map (\<lambda>c.
     if char_code c = 223 then ''SS''
     else if is_ascii_lower c \<or> (224 \<le> char_code c \<and> char_code c \<le> 254 \<and> char_code c \<noteq> 247)
     then [char_of (char_code c - 32)] else [c]) s)"

definition is_ascii_whitespace :: "char \<Rightarrow> bool" where
  "is_ascii_whitespace c \<longleftrightarrow> char_code c \<in> {9, 10, 12, 13, 32}"

definition trim_start :: "string \<Rightarrow> string" where
  "trim_start s = dropWhile is_whitespace s"

definition trim_end :: "string \<Rightarrow> string" where
  "trim_end s = rev (dropWhile is_whitespace (rev s))"

definition trim :: "string \<Rightarrow> string" where
  "trim s = trim_end (trim_start s)"

definition starts_with :: "string \<Rightarrow> string \<Rightarrow> bool" where
  "starts_with p s \<longleftrightarrow> take (length p) s = p"

definition ends_with :: "string \<Rightarrow> string \<Rightarrow> bool" where
  "ends_with p s \<longleftrightarrow> length p \<le> length s \<and> drop (length s - length p) s = p"

text \<open>\<^verbatim>\<open>str::find\<close>: the offset of the first occurrence.\<close>

fun find_sub :: "string \<Rightarrow> string \<Rightarrow> nat option" where
  "find_sub p s =
     (if starts_with p s then Some 0
      else (case s of [] \<Rightarrow> None | c # cs \<Rightarrow> map_option Suc (find_sub p cs)))"

declare find_sub.simps [simp del]

definition str_contains :: "string \<Rightarrow> string \<Rightarrow> bool" where
  "str_contains p s \<longleftrightarrow> find_sub p s \<noteq> None"

text \<open>\<^verbatim>\<open>[..].join(sep)\<close>.\<close>

fun join :: "string \<Rightarrow> string list \<Rightarrow> string" where
  "join sep [] = []"
| "join sep [x] = x"
| "join sep (x # y # ys) = x @ sep @ join sep (y # ys)"

text \<open>\<^verbatim>\<open>str::split(c)\<close> on one character: the pieces between the separators, never an empty list.\<close>

fun split_on :: "char \<Rightarrow> string \<Rightarrow> string list" where
  "split_on d [] = [[]]"
| "split_on d (c # cs) =
     (if c = d then [] # split_on d cs
      else (case split_on d cs of [] \<Rightarrow> [[c]] | p # ps \<Rightarrow> (c # p) # ps))"

text \<open>
  \<^verbatim>\<open>str::split\<close> on a predicate, \<^verbatim>\<open>split_whitespace\<close> (which drops the empty pieces) and \<^verbatim>\<open>lines\<close>
  (whose last piece is dropped when empty; a line that was terminated loses one carriage return).
\<close>

fun split_pred :: "(char \<Rightarrow> bool) \<Rightarrow> string \<Rightarrow> string list" where
  "split_pred P [] = [[]]"
| "split_pred P (c # cs) =
     (if P c then [] # split_pred P cs
      else (case split_pred P cs of [] \<Rightarrow> [[c]] | p # ps \<Rightarrow> (c # p) # ps))"

definition split_whitespace :: "string \<Rightarrow> string list" where
  "split_whitespace s = filter (\<lambda>p. p \<noteq> []) (split_pred is_whitespace s)"

definition strip_cr :: "string \<Rightarrow> string" where
  "strip_cr s = (if s \<noteq> [] \<and> last s = CHR 13 then butlast s else s)"

definition str_lines :: "string \<Rightarrow> string list" where
  "str_lines s = (let ps = split_on (CHR 10) s in
     map strip_cr (butlast ps) @ (if last ps = [] then [] else [last ps]))"

definition trim_end_matches :: "char \<Rightarrow> string \<Rightarrow> string" where
  "trim_end_matches d s = rev (dropWhile (\<lambda>c. c = d) (rev s))"

text \<open>Decimal rendering of an unsigned integer (\<^verbatim>\<open>Display\<close>).\<close>

definition digit_char :: "nat \<Rightarrow> char" where
  "digit_char d = char_of (48 + d)"

fun show_nat :: "nat \<Rightarrow> string" where
  "show_nat n = (if n < 10 then [digit_char n] else show_nat (n div 10) @ [digit_char (n mod 10)])"

declare show_nat.simps [simp del]

definition digit_value :: "char \<Rightarrow> nat" where
  "digit_value c = char_code c - 48"

definition digits_value :: "string \<Rightarrow> nat" where
  "digits_value = foldl (\<lambda>n c. 10 * n + digit_value c) 0"

text \<open>
  \<^verbatim>\<open>str::parse::<uN>\<close>: an optional leading \<^verbatim>\<open>+\<close>, at least one decimal digit, nothing else, and
  a value below the bound of the type.
\<close>

definition parse_unsigned :: "nat \<Rightarrow> string \<Rightarrow> nat option" where
  "parse_unsigned bound s =
     (let ds = (case s of [] \<Rightarrow> [] | c # cs \<Rightarrow> if c = CHR ''+'' then cs else s)
      in if ds \<noteq> [] \<and> list_all is_ascii_digit ds \<and> digits_value ds < bound
         then Some (digits_value ds) else None)"

text \<open>\<^verbatim>\<open>str::parse::<iN>\<close> for a type with values from \<open>- bound\<close> to \<open>bound - 1\<close>, and \<^verbatim>\<open>Display\<close>.\<close>

definition parse_signed :: "nat \<Rightarrow> string \<Rightarrow> int option" where
  "parse_signed bound s =
     (case s of
        CHR ''-'' # ds \<Rightarrow>
          if ds \<noteq> [] \<and> list_all is_ascii_digit ds \<and> digits_value ds \<le> bound
          then Some (- int (digits_value ds)) else None
      | _ \<Rightarrow> map_option int (parse_unsigned bound s))"

definition show_int :: "int \<Rightarrow> string" where
  "show_int i = (if i < 0 then CHR ''-'' # show_nat (nat (- i)) else show_nat (nat i))"

text \<open>\<^verbatim>\<open>str::split_once\<close> splits at the first occurrence, \<^verbatim>\<open>str::rsplit_once\<close> at the last.\<close>

fun split_once :: "string \<Rightarrow> string \<Rightarrow> (string \<times> string) option" where
  "split_once p s =
     (if starts_with p s then Some ([], drop (length p) s)
      else (case s of [] \<Rightarrow> None | c # cs \<Rightarrow> map_option (\<lambda>(a, b). (c # a, b)) (split_once p cs)))"

declare split_once.simps [simp del]

primrec rsplit_once :: "string \<Rightarrow> string \<Rightarrow> (string \<times> string) option" where
  "rsplit_once p [] = (if p = [] then Some ([], []) else None)"
| "rsplit_once p (c # cs) =
     (case rsplit_once p cs of
        Some (a, b) \<Rightarrow> Some (c # a, b)
      | None \<Rightarrow> if starts_with p (c # cs) then Some ([], drop (length p) (c # cs)) else None)"


subsection \<open>Lemmas on strings\<close>

lemma starts_with_Nil [simp]: "starts_with [] s"
  by (simp add: starts_with_def)

lemma starts_with_Cons [simp]: "starts_with (p # ps) (c # cs) \<longleftrightarrow> p = c \<and> starts_with ps cs"
  by (auto simp: starts_with_def)

lemma starts_with_Cons_Nil [simp]: "\<not> starts_with (p # ps) []"
  by (simp add: starts_with_def)

lemma starts_with_append [simp]: "starts_with p (p @ s)"
  by (simp add: starts_with_def)

lemma starts_with_iff: "starts_with p s \<longleftrightarrow> (\<exists>t. s = p @ t)"
  unfolding starts_with_def by (metis append_take_drop_id append_eq_conv_conj)

lemma trim_start_idem [simp]: "trim_start (trim_start s) = trim_start s"
  by (simp add: trim_start_def)

lemma trim_Nil [simp]: "trim [] = []"
  by (simp add: trim_def trim_start_def trim_end_def)

lemma char_code_less_256 [simp]: "char_code c < 256"
  unfolding char_code_def by (metis of_char_mod_256 mod_less_divisor zero_less_numeral)

lemma char_code_char_of [simp]: "char_code (char_of n) = n mod 256"
  by (simp add: char_code_def)

lemma char_of_char_code [simp]: "char_of (char_code c) = c"
  by (simp add: char_code_def)

lemma char_code_eq_iff [simp]: "char_code c = char_code d \<longleftrightarrow> c = d"
  by (simp add: char_code_def)

lemma is_ascii_digit_char [simp]: "d < 10 \<Longrightarrow> is_ascii_digit (digit_char d)"
  by (simp add: is_ascii_digit_def digit_char_def)

lemma digit_value_digit_char [simp]: "d < 10 \<Longrightarrow> digit_value (digit_char d) = d"
  by (simp add: digit_value_def digit_char_def)

lemma show_nat_digits [simp]: "list_all is_ascii_digit (show_nat n)"
proof (induction n rule: show_nat.induct)
  case (1 n)
  then show ?case by (subst show_nat.simps) (auto)
qed

lemma show_nat_not_Nil [simp]: "show_nat n \<noteq> []"
  by (subst show_nat.simps) simp

lemma digits_value_append: "digits_value (s @ [c]) = 10 * digits_value s + digit_value c"
  by (simp add: digits_value_def)

lemma digits_value_show_nat [simp]: "digits_value (show_nat n) = n"
proof (induction n rule: show_nat.induct)
  case (1 n)
  show ?case
  proof (cases "n < 10")
    case True
    then show ?thesis by (subst show_nat.simps) (simp add: digits_value_def)
  next
    case False
    with 1 show ?thesis by (subst show_nat.simps) (simp add: digits_value_append)
  qed
qed

lemma parse_unsigned_show_nat [simp]:
  "n < bound \<Longrightarrow> parse_unsigned bound (show_nat n) = Some n"
proof -
  assume n: "n < bound"
  obtain c cs where c: "show_nat n = c # cs"
    using show_nat_not_Nil by (cases "show_nat n") auto
  have "is_ascii_digit c" using show_nat_digits [of n] c by simp
  then have "c \<noteq> CHR ''+''" by (auto simp: is_ascii_digit_def char_code_def)
  then show ?thesis
    using n show_nat_digits [of n] digits_value_show_nat [of n] by (simp add: parse_unsigned_def c)
qed

lemma is_ascii_digit_minus [simp]: "\<not> is_ascii_digit CHR ''-''"
  by (simp add: is_ascii_digit_def char_code_def)

lemma parse_signed_show_int [simp]:
  assumes "- int bound \<le> i" and "i < int bound"
  shows "parse_signed bound (show_int i) = Some i"
proof (cases "i < 0")
  case True
  with assms(1) have "nat (- i) \<le> bound" by simp
  with True show ?thesis by (simp add: parse_signed_def show_int_def)
next
  case False
  obtain c cs where c: "show_nat (nat i) = c # cs"
    using show_nat_not_Nil by (cases "show_nat (nat i)") auto
  have "c \<noteq> CHR ''-''" using show_nat_digits [of "nat i"] c by auto
  then have "parse_signed bound (show_nat (nat i)) = map_option int (parse_unsigned bound (show_nat (nat i)))"
    unfolding c parse_signed_def by (simp split: char.split bool.split)
  with False assms(2) show ?thesis by (simp add: show_int_def)
qed

lemma show_int_chars: "c \<in> set (show_int i) \<Longrightarrow> is_ascii_digit c \<or> c = CHR ''-''"
  using show_nat_digits by (auto simp: show_int_def list_all_iff split: if_splits)

lemma split_once_here:
  assumes "hd p \<notin> set a" and "p \<noteq> []"
  shows "split_once p (a @ p @ b) = Some (a, b)"
  using assms
proof (induction a)
  case Nil
  then show ?case by (subst split_once.simps) simp
next
  case (Cons c a)
  then have "\<not> starts_with p (c # a @ p @ b)" by (cases p) auto
  with Cons show ?case by (subst split_once.simps) simp
qed

lemma starts_with_absent: "starts_with p s \<Longrightarrow> p \<noteq> [] \<Longrightarrow> hd p \<in> set s"
  by (cases p; cases s) auto

lemma rsplit_once_None: "p \<noteq> [] \<Longrightarrow> hd p \<notin> set s \<Longrightarrow> rsplit_once p s = None"
  by (induction s) (auto dest: starts_with_absent)

lemma rsplit_once_skip:
  "p \<noteq> [] \<Longrightarrow> hd p \<notin> set a \<Longrightarrow> rsplit_once p b = None \<Longrightarrow> rsplit_once p (a @ b) = None"
  by (induction a) (cases p; auto)+

lemma rsplit_once_at:
  assumes "hd p \<notin> set (tl p)" and "rsplit_once p b = None" and "p \<noteq> []"
  shows "rsplit_once p (a @ p @ b) = Some (a, b)"
proof (induction a)
  case Nil
  obtain q qs where p: "p = q # qs" using assms(3) by (cases p) auto
  have "rsplit_once p (qs @ b) = None" using assms p by (intro rsplit_once_skip) auto
  then show ?case using p by (simp add: starts_with_append [of qs])
qed simp

lemma rsplit_once_last:
  assumes "hd p \<notin> set (tl p)" and "hd p \<notin> set b" and "p \<noteq> []"
  shows "rsplit_once p (a @ p @ b) = Some (a, b)"
  using assms by (intro rsplit_once_at rsplit_once_None)

lemma rsplit_once_SomeD: "rsplit_once p s = Some (a, b) \<Longrightarrow> s = a @ p @ b"
  by (induction s arbitrary: a)
    (auto simp: starts_with_iff split: option.splits if_splits prod.splits)

lemma str_contains_Cons: "str_contains p (c # cs) \<longleftrightarrow> starts_with p (c # cs) \<or> str_contains p cs"
  unfolding str_contains_def by (subst find_sub.simps) auto

lemma str_contains_Nil: "str_contains p [] \<longleftrightarrow> p = []"
  unfolding str_contains_def by (subst find_sub.simps) (auto simp: starts_with_def)

lemma str_contains_iff: "str_contains p s \<longleftrightarrow> (\<exists>a b. s = a @ p @ b)"
proof (induction s)
  case (Cons c cs)
  then show ?case
    by (simp add: str_contains_Cons starts_with_iff) (metis Cons_eq_append_conv append_Cons append_Nil)
qed (simp add: str_contains_Nil)

lemma rsplit_once_eq_None: "rsplit_once p s = None \<longleftrightarrow> \<not> str_contains p s"
  by (induction s) (auto simp: str_contains_Nil str_contains_Cons split: option.splits if_splits)

lemma ex_append_Cons:
  "(\<exists>a b. c # cs = a @ k @ b \<and> P a b) \<longleftrightarrow>
     (\<exists>b. c # cs = k @ b \<and> P [] b) \<or> (\<exists>a b. cs = a @ k @ b \<and> P (c # a) b)" (is "?l \<longleftrightarrow> ?r")
proof
  assume ?l
  then obtain a b where "c # cs = a @ k @ b" and "P a b" by blast
  then show ?r by (cases a) auto
next
  assume ?r
  then show ?l by (metis append_Cons append_Nil)
qed


section \<open>Hash maps\<close>

definition hm_get :: "('k, 'v) hmap \<Rightarrow> 'k \<Rightarrow> 'v option" where
  "hm_get m k = map_of m k"

definition hm_insert :: "'k \<Rightarrow> 'v \<Rightarrow> ('k, 'v) hmap \<Rightarrow> ('k, 'v) hmap" where
  "hm_insert k v m = AList.update k v m"

definition hm_remove :: "'k \<Rightarrow> ('k, 'v) hmap \<Rightarrow> ('k, 'v) hmap" where
  "hm_remove k m = AList.delete k m"

definition hm_retain :: "('k \<Rightarrow> 'v \<Rightarrow> bool) \<Rightarrow> ('k, 'v) hmap \<Rightarrow> ('k, 'v) hmap" where
  "hm_retain P m = filter (\<lambda>(k, v). P k v) m"

definition hm_wf :: "('k, 'v) hmap \<Rightarrow> bool" where
  "hm_wf m \<longleftrightarrow> distinct (map fst m)"

definition hm_keys :: "('k, 'v) hmap \<Rightarrow> 'k set" where
  "hm_keys m = fst ` set m"

definition hm_len :: "('k, 'v) hmap \<Rightarrow> nat" where
  "hm_len m = length m"

text \<open>
  The interface the components rely on: a finite map with a size, whose well-formed values are
  closed under the operations.
\<close>

locale finite_store =
  fixes get :: "'m \<Rightarrow> 'k \<Rightarrow> 'v option"
    and ins :: "'k \<Rightarrow> 'v \<Rightarrow> 'm \<Rightarrow> 'm"
    and del :: "'k \<Rightarrow> 'm \<Rightarrow> 'm"
    and keys :: "'m \<Rightarrow> 'k set"
    and len :: "'m \<Rightarrow> nat"
    and wf :: "'m \<Rightarrow> bool"
  assumes get_ins: "get (ins k v m) k' = (if k' = k then Some v else get m k')"
    and get_del: "get (del k m) k' = (if k' = k then None else get m k')"
    and keys_get: "k \<in> keys m \<longleftrightarrow> get m k \<noteq> None"
    and finite_keys: "finite (keys m)"
    and len_keys: "wf m \<Longrightarrow> len m = card (keys m)"
    and wf_ins: "wf m \<Longrightarrow> wf (ins k v m)"
    and wf_del: "wf m \<Longrightarrow> wf (del k m)"
begin

lemma keys_ins: "keys (ins k v m) = insert k (keys m)"
  by (auto simp: keys_get get_ins split: if_splits)

lemma keys_del: "keys (del k m) = keys m - {k}"
  by (auto simp: keys_get get_del split: if_splits)

lemma len_ins_fresh: "wf m \<Longrightarrow> get m k = None \<Longrightarrow> len (ins k v m) = Suc (len m)"
  using keys_get [of k m] by (simp add: len_keys wf_ins keys_ins finite_keys card_insert_if)

lemma len_ins_present: "wf m \<Longrightarrow> get m k = Some w \<Longrightarrow> len (ins k v m) = len m"
  using keys_get [of k m] by (simp add: len_keys wf_ins keys_ins insert_absorb)

lemma len_del_present: "wf m \<Longrightarrow> get m k = Some w \<Longrightarrow> Suc (len (del k m)) = len m"
proof -
  assume wf: "wf m" and k: "get m k = Some w"
  then have "k \<in> keys m" by (simp add: keys_get)
  then show ?thesis
    using finite_keys [of m] card_Suc_Diff1 [of "keys m" k]
    by (simp add: len_keys wf wf_del keys_del del: card_Diff_insert)
qed

lemma len_del_le: "wf m \<Longrightarrow> len (del k m) \<le> len m"
  by (simp add: len_keys wf_del keys_del card_mono finite_keys)

text \<open>Moving an entry from one store to another that does not hold its key keeps the total size.\<close>

lemma len_move:
  assumes "wf m" and "wf n" and "get m k = Some v" and "get n k = None"
  shows "len (del k m) + len (ins k v' n) = len m + len n"
  using len_del_present [OF assms(1,3)] len_ins_fresh [OF assms(2,4), of v'] by simp

end

lemma hm_keys_get: "k \<in> hm_keys m \<longleftrightarrow> hm_get m k \<noteq> None"
  by (auto simp: hm_keys_def hm_get_def map_of_eq_None_iff)

interpretation hm: finite_store hm_get hm_insert hm_remove hm_keys hm_len hm_wf
proof (unfold_locales, goal_cases)
  case (1 k v m k') then show ?case by (simp add: hm_get_def hm_insert_def update_conv')
next
  case (2 k m k') then show ?case by (simp add: hm_get_def hm_remove_def delete_conv')
next
  case (3 k m) then show ?case by (rule hm_keys_get)
next
  case (4 m) then show ?case by (simp add: hm_keys_def)
next
  case (5 m) then show ?case
    by (metis distinct_card hm_keys_def hm_len_def hm_wf_def image_set length_map)
next
  case (6 m k v) then show ?case by (simp add: hm_wf_def hm_insert_def distinct_update)
next
  case (7 m k) then show ?case by (simp add: hm_wf_def hm_remove_def distinct_delete)
qed

lemmas hm_lookup [store_laws] = hm.get_ins hm.get_del
lemmas hm_wf_ops [wf_intros] = hm.wf_ins hm.wf_del

lemma hm_get_Nil [simp]: "hm_get [] k = None"
  by (simp add: hm_get_def)

lemma hm_wf_Nil [simp]: "hm_wf []"
  by (simp add: hm_wf_def)

lemma hm_len_Nil [simp]: "hm_len [] = 0"
  by (simp add: hm_len_def)

lemma hm_wf_retain [wf_intros]: "hm_wf m \<Longrightarrow> hm_wf (hm_retain P m)"
  by (induction m) (auto simp: hm_wf_def hm_retain_def)

lemma hm_get_retain [store_laws]:
  "hm_wf m \<Longrightarrow> hm_get (hm_retain P m) k =
     (case hm_get m k of None \<Rightarrow> None | Some v \<Rightarrow> if P k v then Some v else None)"
  by (induction m) (force simp: hm_wf_def hm_retain_def hm_get_def map_of_eq_None_iff
      split: option.splits dest: map_of_SomeD)+

lemma hm_get_mem: "hm_get m k = Some v \<Longrightarrow> (k, v) \<in> set m"
  by (simp add: hm_get_def map_of_SomeD)

lemma hm_mem_get: "hm_wf m \<Longrightarrow> (k, v) \<in> set m \<Longrightarrow> hm_get m k = Some v"
  by (simp add: hm_get_def hm_wf_def)


section \<open>Reachable states and invariants\<close>

inductive reach :: "('s \<Rightarrow> bool) \<Rightarrow> ('s \<Rightarrow> 's \<Rightarrow> bool) \<Rightarrow> 's \<Rightarrow> bool"
  for init :: "'s \<Rightarrow> bool" and step :: "'s \<Rightarrow> 's \<Rightarrow> bool" where
  reach_init: "init s \<Longrightarrow> reach init step s"
| reach_step: "reach init step s \<Longrightarrow> step s t \<Longrightarrow> reach init step t"

locale invariant_system =
  fixes init :: "'s \<Rightarrow> bool"
    and step :: "'s \<Rightarrow> 's \<Rightarrow> bool"
    and inv :: "'s \<Rightarrow> bool"
  assumes inv_init: "init s \<Longrightarrow> inv s"
    and inv_step: "inv s \<Longrightarrow> step s t \<Longrightarrow> inv t"
begin

lemma reach_inv: "reach init step s \<Longrightarrow> inv s"
  by (induction rule: reach.induct) (auto intro: inv_init inv_step)

end

section \<open>Evaluating character classes\<close>

text \<open>
  Code equations on the bits of a character, so that \<open>code_simp\<close> decides character classes and changes case
  without arithmetic.
\<close>

lemma is_ascii_code [code]: "is_ascii (Char b0 b1 b2 b3 b4 b5 b6 b7) \<longleftrightarrow> \<not> b7"
  by (cases b0; cases b1; cases b2; cases b3; cases b4; cases b5; cases b6; cases b7)
    (simp_all add: is_ascii_def char_code_def)

lemma is_ascii_digit_code [code]:
  "is_ascii_digit (Char b0 b1 b2 b3 b4 b5 b6 b7) \<longleftrightarrow> \<not> b7 \<and> \<not> b6 \<and> b5 \<and> b4 \<and> \<not> (b3 \<and> (b2 \<or> b1))"
  by (cases b0; cases b1; cases b2; cases b3; cases b4; cases b5; cases b6; cases b7)
    (simp_all add: is_ascii_digit_def char_code_def)

lemma is_ascii_upper_code [code]:
  "is_ascii_upper (Char b0 b1 b2 b3 b4 b5 b6 b7) \<longleftrightarrow>
     \<not> b7 \<and> b6 \<and> \<not> b5 \<and> (b0 \<or> b1 \<or> b2 \<or> b3 \<or> b4) \<and> \<not> (b4 \<and> b3 \<and> (b2 \<or> b1 \<and> b0))"
  by (cases b0; cases b1; cases b2; cases b3; cases b4; cases b5; cases b6; cases b7)
    (simp_all add: is_ascii_upper_def char_code_def)

lemma is_ascii_lower_code [code]:
  "is_ascii_lower (Char b0 b1 b2 b3 b4 b5 b6 b7) \<longleftrightarrow>
     \<not> b7 \<and> b6 \<and> b5 \<and> (b0 \<or> b1 \<or> b2 \<or> b3 \<or> b4) \<and> \<not> (b4 \<and> b3 \<and> (b2 \<or> b1 \<and> b0))"
  by (cases b0; cases b1; cases b2; cases b3; cases b4; cases b5; cases b6; cases b7)
    (simp_all add: is_ascii_lower_def char_code_def)

lemma is_whitespace_code [code]:
  "is_whitespace (Char b0 b1 b2 b3 b4 b5 b6 b7) \<longleftrightarrow>
     \<not> b6 \<and> \<not> b4 \<and>
     (if b3 then \<not> b7 \<and> \<not> b5 \<and> (b2 \<or> b1 \<or> b0) \<and> \<not> (b2 \<and> b1)
      else if b5 then \<not> b0 \<and> \<not> b1 \<and> \<not> b2 else b7 \<and> b2 \<and> \<not> b1 \<and> b0)"
  by (cases b0; cases b1; cases b2; cases b3; cases b4; cases b5; cases b6; cases b7)
    (simp_all add: is_whitespace_def char_code_def)

lemma is_ascii_whitespace_code [code]:
  "is_ascii_whitespace (Char b0 b1 b2 b3 b4 b5 b6 b7) \<longleftrightarrow>
     \<not> b7 \<and> \<not> b6 \<and> \<not> b4 \<and>
     (if b3 then \<not> b5 \<and> (b2 \<and> \<not> b1 \<or> \<not> b2 \<and> (b1 \<longleftrightarrow> \<not> b0)) else b5 \<and> \<not> b0 \<and> \<not> b1 \<and> \<not> b2)"
  by (cases b0; cases b1; cases b2; cases b3; cases b4; cases b5; cases b6; cases b7)
    (simp_all add: is_ascii_whitespace_def char_code_def)

lemma is_alphanumeric_code [code]:
  "is_alphanumeric (Char b0 b1 b2 b3 b4 b5 b6 b7) \<longleftrightarrow>
     is_ascii_alphanumeric (Char b0 b1 b2 b3 b4 b5 b6 b7) \<or>
     b7 \<and> (if b6 then \<not> (b4 \<and> \<not> b3 \<and> b2 \<and> b1 \<and> b0)
          else b5 \<and> (if \<not> b4 then b3 \<and> \<not> b2 \<and> b1 \<and> \<not> b0
                    else if b3 then (if b2 then \<not> (b1 \<and> b0) else b1 \<noteq> b0)
                    else (if b2 then \<not> b1 \<and> b0 else b1)))"
  unfolding is_alphanumeric_def
  by (cases b0; cases b1; cases b2; cases b3; cases b4; cases b5; cases b6; cases b7)
    (simp_all add: char_code_def)

fun set_case_bit :: "bool \<Rightarrow> char \<Rightarrow> char" where
  "set_case_bit b (Char b0 b1 b2 b3 b4 b5 b6 b7) = Char b0 b1 b2 b3 b4 b b6 b7"

lemma char_code_case_bit: "char_code (set_case_bit True c) = (if char_code c div 32 mod 2 = 0 then char_code c + 32 else char_code c)"
    "char_code (set_case_bit False c) = (if char_code c div 32 mod 2 = 1 then char_code c - 32 else char_code c)"
  by (cases c; rename_tac b0 b1 b2 b3 b4 b5 b6 b7;
      case_tac b0; case_tac b1; case_tac b2; case_tac b3; case_tac b4; case_tac b5; case_tac b6; case_tac b7;
      simp add: char_code_def)+

lemma plus_32: "char_code c div 32 mod 2 = 0 \<Longrightarrow> char_of (char_code c + 32) = set_case_bit True c"
  by (metis char_code_case_bit(1) char_of_char_code)

lemma minus_32: "char_code c div 32 mod 2 = 1 \<Longrightarrow> char_of (char_code c - 32) = set_case_bit False c"
  by (metis char_code_case_bit(2) char_of_char_code)

lemma div_32: "k * 32 \<le> n \<Longrightarrow> n < k * 32 + 32 \<Longrightarrow> n div 32 = (k::nat)"
  by (rule div_nat_eqI) simp_all

definition ascii_lower :: "char \<Rightarrow> char" where
  "ascii_lower c = (if is_ascii_upper c then set_case_bit True c else c)"

definition ascii_upper :: "char \<Rightarrow> char" where
  "ascii_upper c = (if is_ascii_lower c then set_case_bit False c else c)"

lemma to_ascii_lowercase_code: "to_ascii_lowercase s = map ascii_lower s"
proof -
  have "char_of (char_code c + 32) = set_case_bit True c" if "is_ascii_upper c" for c
    using that div_32 [of 2 "char_code c"] by (intro plus_32) (simp add: is_ascii_upper_def)
  then show ?thesis by (simp add: to_ascii_lowercase_def ascii_lower_def)
qed

lemma to_ascii_uppercase_code: "to_ascii_uppercase s = map ascii_upper s"
proof -
  have "char_of (char_code c - 32) = set_case_bit False c" if "is_ascii_lower c" for c
    using that div_32 [of 3 "char_code c"] by (intro minus_32) (simp add: is_ascii_lower_def)
  then show ?thesis by (simp add: to_ascii_uppercase_def ascii_upper_def)
qed

declare to_ascii_lowercase_def [code del] to_ascii_lowercase_code [code]
  to_ascii_uppercase_def [code del] to_ascii_uppercase_code [code]

text \<open>The letters above ASCII that have a lower and an upper case, on their bits.\<close>

fun is_latin_upper :: "char \<Rightarrow> bool" where
  "is_latin_upper (Char b0 b1 b2 b3 b4 b5 b6 b7) \<longleftrightarrow> b7 \<and> b6 \<and> \<not> b5 \<and> \<not> (b4 \<and> b2 \<and> b1 \<and> b0)"

fun is_latin_lower :: "char \<Rightarrow> bool" where
  "is_latin_lower (Char b0 b1 b2 b3 b4 b5 b6 b7) \<longleftrightarrow> b7 \<and> b6 \<and> b5 \<and> \<not> (b4 \<and> b2 \<and> b1 \<and> b0)"

lemma is_latin_upper_iff: "is_latin_upper c \<longleftrightarrow> 192 \<le> char_code c \<and> char_code c \<le> 222 \<and> char_code c \<noteq> 215"
proof (cases c)
  case (Char b0 b1 b2 b3 b4 b5 b6 b7)
  show ?thesis unfolding Char
    by (cases b0; cases b1; cases b2; cases b3; cases b4; cases b5; cases b6; cases b7) (simp_all add: char_code_def)
qed

lemma is_latin_lower_iff: "is_latin_lower c \<longleftrightarrow> 224 \<le> char_code c \<and> char_code c \<le> 254 \<and> char_code c \<noteq> 247"
proof (cases c)
  case (Char b0 b1 b2 b3 b4 b5 b6 b7)
  show ?thesis unfolding Char
    by (cases b0; cases b1; cases b2; cases b3; cases b4; cases b5; cases b6; cases b7) (simp_all add: char_code_def)
qed

lemma to_lowercase_code:
  "to_lowercase s = map (\<lambda>c. if is_ascii_upper c \<or> is_latin_upper c then set_case_bit True c else c) s"
proof -
  have "char_of (char_code c + 32) = set_case_bit True c" if "is_ascii_upper c \<or> is_latin_upper c" for c
    using that div_32 [of 2 "char_code c"] div_32 [of 6 "char_code c"]
    by (intro plus_32) (auto simp: is_ascii_upper_def is_latin_upper_iff)
  then show ?thesis by (simp add: to_lowercase_def is_latin_upper_iff)
qed

lemma to_uppercase_code:
  "to_uppercase s = concat (map (\<lambda>c. if c = CHR 0xDF then ''SS''
     else if is_ascii_lower c \<or> is_latin_lower c then [set_case_bit False c] else [c]) s)"
proof -
  have down: "char_of (char_code c - 32) = set_case_bit False c" if "is_ascii_lower c \<or> is_latin_lower c" for c
    using that div_32 [of 3 "char_code c"] div_32 [of 7 "char_code c"]
    by (intro minus_32) (auto simp: is_ascii_lower_def is_latin_lower_iff)
  have "char_code (CHR 0xDF) = 223" by (simp add: char_code_def)
  then have sharp_s: "char_code c = 223 \<longleftrightarrow> c = CHR 0xDF" for c using char_code_eq_iff [of c "CHR 0xDF"] by simp
  have "(if char_code c = 223 then ''SS''
      else if is_ascii_lower c \<or> (224 \<le> char_code c \<and> char_code c \<le> 254 \<and> char_code c \<noteq> 247)
      then [char_of (char_code c - 32)] else [c]) =
    (if c = CHR 0xDF then ''SS'' else if is_ascii_lower c \<or> is_latin_lower c then [set_case_bit False c] else [c])" for c
    unfolding sharp_s is_latin_lower_iff [symmetric] using down [of c] by presburger
  then show ?thesis unfolding to_uppercase_def by (simp only:)
qed

declare to_lowercase_def [code del] to_lowercase_code [code]
  to_uppercase_def [code del] to_uppercase_code [code]

text \<open>Prefix and substring tests by recursion.\<close>

lemma starts_with_code:
  "starts_with [] s = True" "starts_with (p # ps) [] = False"
  "starts_with (p # ps) (c # cs) = (p = c \<and> starts_with ps cs)"
  by simp_all

lemma str_contains_code:
  "str_contains p [] = (p = [])" "str_contains p (c # cs) = (starts_with p (c # cs) \<or> str_contains p cs)"
  by (simp_all add: str_contains_Nil str_contains_Cons)

declare starts_with_def [code del] starts_with_code [code]
  str_contains_def [code del] str_contains_code [code]

end
