(* ===== verification/Mcp_Session.thy ===== *)
theory Mcp_Session
  imports Dbx_Prelude
begin

text \<open>
  The MCP session store (\<^verbatim>\<open>crates/dbx-mcp/src/session.rs\<close>): sessions are opening, active or
  closing, are capped at \<open>MAX_SESSIONS\<close> over all three tables, and expire after an idle time.
  Every public operation of \<^verbatim>\<open>McpSessionStore\<close> holds the state mutex for its whole body, so each is
  one atomic function on \<open>mcp_session_state\<close>; the clock and the UUID drawn by \<^verbatim>\<open>new_session\<close> are
  arguments. A transaction owner is the number of its \<^verbatim>\<open>Arc\<close>.
\<close>

section \<open>State\<close>

definition session_idle_ttl :: duration where
  "session_idle_ttl = from_secs (30 * 60)"

definition max_sessions :: nat where
  "max_sessions = 32"

record mcp_session =
  sid :: string
  connection_id :: string
  database :: string
  client_session_id :: string
  transaction_owner :: "nat option"
  last_used :: instant

record mcp_session_state =
  st_opening :: "(string, mcp_session) hmap"
  st_active :: "(string, mcp_session) hmap"
  st_closing :: "(string, mcp_session) hmap"

text \<open>The value of an operation together with the sessions the caller has to close.\<close>

type_synonym 'a store_result = "'a \<times> mcp_session list"

definition empty_sessions :: mcp_session_state where
  "empty_sessions = \<lparr>st_opening = [], st_active = [], st_closing = []\<rparr>"

section \<open>Operations\<close>

text \<open>
  \<^verbatim>\<open>Instant::now().checked_add(ttl)\<close> fails on a platform dependent bound; \<open>instant_fits\<close> is that
  test.
\<close>

definition session_idle_ttl_from_value :: "(duration \<Rightarrow> bool) \<Rightarrow> string option \<Rightarrow> duration" where
  "session_idle_ttl_from_value instant_fits value =
     (case value of None \<Rightarrow> session_idle_ttl
      | Some v \<Rightarrow>
          (case parse_unsigned (2 ^ 64) (trim v) of None \<Rightarrow> session_idle_ttl
           | Some seconds \<Rightarrow>
               if seconds > 0 \<and> instant_fits (from_secs seconds) then from_secs seconds
               else session_idle_ttl))"

definition new_session :: "string \<Rightarrow> instant \<Rightarrow> string \<Rightarrow> string \<Rightarrow> mcp_session" where
  "new_session uuid now conn db =
     (let i = ''mcp-session-'' @ uuid in
      \<lparr>sid = i, connection_id = conn, database = db, client_session_id = ''mcp:'' @ i,
       transaction_owner = None, last_used = now\<rparr>)"

definition session_count :: "mcp_session_state \<Rightarrow> nat" where
  "session_count st = hm_len (st_opening st) + hm_len (st_active st) + hm_len (st_closing st)"

definition is_expired :: "duration \<Rightarrow> instant \<Rightarrow> mcp_session \<Rightarrow> bool" where
  "is_expired ttl now s \<longleftrightarrow> now - last_used s \<ge> ttl"

text \<open>The loop of \<^verbatim>\<open>sweep_expired\<close> over the identifiers collected first.\<close>

fun sweep_ids ::
  "string list \<Rightarrow> mcp_session_state \<Rightarrow> mcp_session list \<Rightarrow> mcp_session_state \<times> mcp_session list" where
  "sweep_ids [] st expired = (st, expired)"
| "sweep_ids (i # is) st expired =
     (case hm_get (st_active st) i of
        None \<Rightarrow> sweep_ids is st expired
      | Some s \<Rightarrow>
          sweep_ids is
            (st\<lparr>st_active := hm_remove i (st_active st), st_closing := hm_insert i s (st_closing st)\<rparr>)
            (expired @ [s]))"

definition sweep_expired ::
  "duration \<Rightarrow> instant \<Rightarrow> mcp_session_state \<Rightarrow> mcp_session_state \<times> mcp_session list" where
  "sweep_expired ttl now st =
     sweep_ids (map fst (filter (\<lambda>(i, s). is_expired ttl now s) (st_active st))) st []"

definition take_all_active :: "mcp_session_state \<Rightarrow> mcp_session_state \<times> mcp_session list" where
  "take_all_active st = (st\<lparr>st_active := []\<rparr>, map snd (st_closing st) @ map snd (st_active st))"

definition cap_error :: string where
  "cap_error = ''Too many open MCP sessions (max '' @ show_nat max_sessions @
     ''). Close unused sessions with dbx_close_session.''"

definition open_session ::
  "duration \<Rightarrow> instant \<Rightarrow> string \<Rightarrow> string \<Rightarrow> string \<Rightarrow> mcp_session_state
     \<Rightarrow> mcp_session_state \<times> mcp_session rust_result store_result" where
  "open_session ttl now uuid conn db st =
     (let (st1, expired) = sweep_expired ttl now st in
      if session_count st1 \<ge> max_sessions then (st1, Inl cap_error, expired)
      else
        (let s = new_session uuid now conn db in
         (st1\<lparr>st_active := hm_insert (sid s) s (st_active st1)\<rparr>, Inr s, expired)))"

definition reserve_opening ::
  "duration \<Rightarrow> instant \<Rightarrow> string \<Rightarrow> string \<Rightarrow> string \<Rightarrow> mcp_session_state
     \<Rightarrow> mcp_session_state \<times> mcp_session rust_result store_result" where
  "reserve_opening ttl now uuid conn db st =
     (let (st1, expired) = sweep_expired ttl now st in
      if session_count st1 \<ge> max_sessions then (st1, Inl cap_error, expired)
      else
        (let s = new_session uuid now conn db in
         (st1\<lparr>st_opening := hm_insert (sid s) s (st_opening st1)\<rparr>, Inr s, expired)))"

definition promote_opening ::
  "string \<Rightarrow> nat \<Rightarrow> mcp_session_state \<Rightarrow> mcp_session_state \<times> mcp_session rust_result" where
  "promote_opening i owner st =
     (case hm_get (st_opening st) i of
        None \<Rightarrow> (st, Inl ''MCP session opening was cancelled'')
      | Some s \<Rightarrow>
          (let s' = s\<lparr>transaction_owner := Some owner\<rparr> in
           (st\<lparr>st_opening := hm_remove i (st_opening st), st_active := hm_insert (sid s') s' (st_active st)\<rparr>,
            Inr s')))"

definition cancel_opening :: "string \<Rightarrow> mcp_session_state \<Rightarrow> mcp_session_state \<times> mcp_session option" where
  "cancel_opening i st = (st\<lparr>st_opening := hm_remove i (st_opening st)\<rparr>, hm_get (st_opening st) i)"

definition attach_transaction_owner ::
  "string \<Rightarrow> nat \<Rightarrow> mcp_session_state \<Rightarrow> mcp_session_state \<times> unit rust_result" where
  "attach_transaction_owner i owner st =
     (case hm_get (st_active st) i of
        None \<Rightarrow> (st, Inl ''MCP session is no longer active'')
      | Some s \<Rightarrow>
          (st\<lparr>st_active := hm_insert i (s\<lparr>transaction_owner := Some owner\<rparr>) (st_active st)\<rparr>, Inr ()))"

definition resolve ::
  "duration \<Rightarrow> instant \<Rightarrow> string \<Rightarrow> mcp_session_state
     \<Rightarrow> mcp_session_state \<times> mcp_session option store_result" where
  "resolve ttl now i st =
     (let (st1, expired) = sweep_expired ttl now st in
      case hm_get (st_active st1) i of
        None \<Rightarrow> (st1, None, expired)
      | Some s \<Rightarrow>
          (let s' = s\<lparr>last_used := now\<rparr> in
           (st1\<lparr>st_active := hm_insert i s' (st_active st1)\<rparr>, Some s', expired)))"

definition begin_close ::
  "duration \<Rightarrow> instant \<Rightarrow> string \<Rightarrow> mcp_session_state
     \<Rightarrow> mcp_session_state \<times> mcp_session option store_result" where
  "begin_close ttl now i st =
     (let (st1, expired) = sweep_expired ttl now st in
      case hm_get (st_active st1) i of
        None \<Rightarrow> (st1, None, expired)
      | Some s \<Rightarrow>
          (st1\<lparr>st_active := hm_remove i (st_active st1),
               st_closing := (case hm_get (st_closing st1) (sid s) of
                             None \<Rightarrow> hm_insert (sid s) s (st_closing st1)
                           | Some _ \<Rightarrow> st_closing st1)\<rparr>,
           Some s, expired))"

definition finish_close :: "string \<Rightarrow> mcp_session_state \<Rightarrow> mcp_session_state" where
  "finish_close i st = st\<lparr>st_closing := hm_remove i (st_closing st)\<rparr>"

definition restore_after_failed_close ::
  "instant \<Rightarrow> mcp_session \<Rightarrow> mcp_session_state \<Rightarrow> mcp_session_state" where
  "restore_after_failed_close now s st =
     (case hm_get (st_closing st) (sid s) of
        None \<Rightarrow> st
      | Some _ \<Rightarrow>
          (let s' = s\<lparr>last_used := now\<rparr> in
           st\<lparr>st_closing := hm_remove (sid s) (st_closing st),
              st_active := hm_insert (sid s') s' (st_active st)\<rparr>))"

section \<open>The store as a transition system\<close>

definition session_ids :: "mcp_session_state \<Rightarrow> string set" where
  "session_ids st = hm_keys (st_opening st) \<union> hm_keys (st_active st) \<union> hm_keys (st_closing st)"

text \<open>
  One step is one operation, with any clock reading and any arguments. \<open>Uuid::new_v4\<close> never
  repeats an identifier that is in use: the side condition of the two operations that draw one.
\<close>

inductive session_step :: "duration \<Rightarrow> mcp_session_state \<Rightarrow> mcp_session_state \<Rightarrow> bool"
  for ttl :: duration where
  step_open: "''mcp-session-'' @ uuid \<notin> session_ids st \<Longrightarrow>
     session_step ttl st (fst (open_session ttl now uuid conn db st))"
| step_reserve: "''mcp-session-'' @ uuid \<notin> session_ids st \<Longrightarrow>
     session_step ttl st (fst (reserve_opening ttl now uuid conn db st))"
| step_promote: "session_step ttl st (fst (promote_opening i owner st))"
| step_cancel: "session_step ttl st (fst (cancel_opening i st))"
| step_attach: "session_step ttl st (fst (attach_transaction_owner i owner st))"
| step_resolve: "session_step ttl st (fst (resolve ttl now i st))"
| step_begin_close: "session_step ttl st (fst (begin_close ttl now i st))"
| step_finish_close: "session_step ttl st (finish_close i st)"
| step_restore: "session_step ttl st (restore_after_failed_close now s st)"
| step_take_all: "session_step ttl st (fst (take_all_active st))"

definition table_ok :: "(string, mcp_session) hmap \<Rightarrow> bool" where
  "table_ok m \<longleftrightarrow> hm_wf m \<and> (\<forall>i s. hm_get m i = Some s \<longrightarrow> sid s = i)"

definition session_inv :: "mcp_session_state \<Rightarrow> bool" where
  "session_inv st \<longleftrightarrow>
     table_ok (st_opening st) \<and> table_ok (st_active st) \<and> table_ok (st_closing st) \<and>
     hm_keys (st_opening st) \<inter> hm_keys (st_active st) = {} \<and>
     hm_keys (st_opening st) \<inter> hm_keys (st_closing st) = {} \<and>
     hm_keys (st_active st) \<inter> hm_keys (st_closing st) = {} \<and>
     session_count st \<le> max_sessions"

section \<open>Invariant\<close>

lemma table_ok_insert [intro]: "table_ok m \<Longrightarrow> sid s = i \<Longrightarrow> table_ok (hm_insert i s m)"
  by (auto simp: table_ok_def store_laws intro: wf_intros)

lemma table_ok_remove [intro]: "table_ok m \<Longrightarrow> table_ok (hm_remove i m)"
  by (auto simp: table_ok_def store_laws intro: wf_intros split: if_splits)

lemma table_ok_Nil [simp]: "table_ok []"
  by (simp add: table_ok_def)

lemma table_ok_wf: "table_ok m \<Longrightarrow> hm_wf m"
  by (simp add: table_ok_def)

lemma table_ok_sid: "table_ok m \<Longrightarrow> hm_get m i = Some s \<Longrightarrow> sid s = i"
  by (simp add: table_ok_def)

lemma disjoint_get:
  "hm_keys m \<inter> hm_keys n = {} \<Longrightarrow> hm_get m i = Some s \<Longrightarrow> hm_get n i = None"
  by (metis disjoint_iff hm_keys_get option.distinct(1))

text \<open>Closing one active session moves it: the tables stay disjoint and the count is unchanged.\<close>

lemma move_to_closing:
  assumes inv: "session_inv st" and i: "hm_get (st_active st) i = Some s"
  defines "st' \<equiv> st\<lparr>st_active := hm_remove i (st_active st), st_closing := hm_insert i s (st_closing st)\<rparr>"
  shows "session_inv st'" and "session_count st' = session_count st"
    and "session_ids st' = session_ids st"
proof -
  have n: "hm_get (st_closing st) i = None" and o: "hm_get (st_opening st) i = None"
    using inv i unfolding session_inv_def by (auto dest: disjoint_get simp: Int_commute)
  have len: "hm_len (hm_remove i (st_active st)) + hm_len (hm_insert i s (st_closing st))
      = hm_len (st_active st) + hm_len (st_closing st)"
    using inv i n by (intro hm.len_move) (auto simp: session_inv_def table_ok_def)
  then show c: "session_count st' = session_count st"
    by (simp add: st'_def session_count_def)
  have "i \<in> hm_keys (st_active st)" using i by (simp add: hm_keys_get)
  then show "session_ids st' = session_ids st"
    by (auto simp: st'_def session_ids_def hm.keys_ins hm.keys_del)
  have "sid s = i" using inv i by (auto simp: session_inv_def dest: table_ok_sid)
  moreover have "i \<notin> hm_keys (st_opening st)" using o by (simp add: hm_keys_get)
  ultimately show "session_inv st'"
    using inv c unfolding session_inv_def
    by (auto simp: st'_def hm.keys_ins hm.keys_del)
qed

lemma sweep_ids_inv:
  "session_inv st \<Longrightarrow> session_inv (fst (sweep_ids is st ex)) \<and>
     session_count (fst (sweep_ids is st ex)) = session_count st \<and>
     session_ids (fst (sweep_ids is st ex)) = session_ids st \<and>
     st_opening (fst (sweep_ids is st ex)) = st_opening st"
proof (induction "is" st ex rule: sweep_ids.induct)
  case (2 i "is" st ex)
  then show ?case
    by (cases "hm_get (st_active st) i") (simp_all add: move_to_closing)
qed simp

lemma sweep_expired_inv:
  assumes "session_inv st"
  shows "session_inv (fst (sweep_expired ttl now st))"
    and "session_count (fst (sweep_expired ttl now st)) = session_count st"
    and "session_ids (fst (sweep_expired ttl now st)) = session_ids st"
    and "st_opening (fst (sweep_expired ttl now st)) = st_opening st"
  using sweep_ids_inv [OF assms] by (simp_all add: sweep_expired_def)

lemma insert_fresh_inv:
  assumes inv: "session_inv st" and room: "session_count st < max_sessions"
    and fresh: "sid s \<notin> session_ids st"
  shows "session_inv (st\<lparr>st_active := hm_insert (sid s) s (st_active st)\<rparr>)"
    and "session_inv (st\<lparr>st_opening := hm_insert (sid s) s (st_opening st)\<rparr>)"
proof -
  have "hm_get (st_active st) (sid s) = None" "hm_get (st_opening st) (sid s) = None"
    using fresh by (auto simp: session_ids_def hm_keys_get)
  moreover have "hm_wf (st_active st)" "hm_wf (st_opening st)"
    using inv by (auto simp: session_inv_def table_ok_def)
  ultimately have "hm_len (hm_insert (sid s) s (st_active st)) = Suc (hm_len (st_active st))"
    "hm_len (hm_insert (sid s) s (st_opening st)) = Suc (hm_len (st_opening st))"
    by (simp_all add: hm.len_ins_fresh)
  then show "session_inv (st\<lparr>st_active := hm_insert (sid s) s (st_active st)\<rparr>)"
    "session_inv (st\<lparr>st_opening := hm_insert (sid s) s (st_opening st)\<rparr>)"
    using inv room fresh unfolding session_inv_def
    by (auto simp: session_count_def session_ids_def hm.keys_ins)
qed

lemma sid_new_session [simp]: "sid (new_session uuid now conn db) = ''mcp-session-'' @ uuid"
  by (simp add: new_session_def Let_def)

lemma open_session_inv:
  assumes "session_inv st" and "''mcp-session-'' @ uuid \<notin> session_ids st"
  shows "session_inv (fst (open_session ttl now uuid conn db st))"
proof (cases "sweep_expired ttl now st")
  case (Pair st1 ex)
  then have "session_inv st1" "session_ids st1 = session_ids st"
    using sweep_expired_inv [OF assms(1), of ttl now] by simp_all
  then show ?thesis
    using insert_fresh_inv(1) [of st1 "new_session uuid now conn db"] assms(2)
    by (simp add: open_session_def Pair Let_def)
qed

lemma reserve_opening_inv:
  assumes "session_inv st" and "''mcp-session-'' @ uuid \<notin> session_ids st"
  shows "session_inv (fst (reserve_opening ttl now uuid conn db st))"
proof (cases "sweep_expired ttl now st")
  case (Pair st1 ex)
  then have "session_inv st1" "session_ids st1 = session_ids st"
    using sweep_expired_inv [OF assms(1), of ttl now] by simp_all
  then show ?thesis
    using insert_fresh_inv(2) [of st1 "new_session uuid now conn db"] assms(2)
    by (simp add: reserve_opening_def Pair Let_def)
qed

lemma begin_close_closing:
  "session_inv st \<Longrightarrow> hm_get (st_active st) i = Some s \<Longrightarrow>
     (case hm_get (st_closing st) (sid s) of
        None \<Rightarrow> hm_insert (sid s) s (st_closing st) | Some _ \<Rightarrow> st_closing st)
     = hm_insert i s (st_closing st)"
proof -
  assume inv: "session_inv st" and i: "hm_get (st_active st) i = Some s"
  then have "sid s = i" by (auto simp: session_inv_def dest: table_ok_sid)
  moreover have "hm_get (st_closing st) i = None"
    using inv i unfolding session_inv_def by (auto dest: disjoint_get)
  ultimately show ?thesis by simp
qed

lemma begin_close_inv:
  assumes "session_inv st"
  shows "session_inv (fst (begin_close ttl now i st))"
    and "session_count (fst (begin_close ttl now i st)) = session_count st"
proof -
  obtain st1 ex where sw: "sweep_expired ttl now st = (st1, ex)" by fastforce
  then have st1: "session_inv st1" "session_count st1 = session_count st"
    using sweep_expired_inv [OF assms, of ttl now] by simp_all
  show "session_inv (fst (begin_close ttl now i st))"
    "session_count (fst (begin_close ttl now i st)) = session_count st"
    using st1 move_to_closing [OF st1(1), of i]
    by (auto simp: begin_close_def sw begin_close_closing split: option.split)
qed

lemma update_active_inv:
  assumes inv: "session_inv st" and i: "hm_get (st_active st) i = Some s" and "sid s' = sid s"
  shows "session_inv (st\<lparr>st_active := hm_insert i s' (st_active st)\<rparr>)"
proof -
  have "i \<in> hm_keys (st_active st)" using i by (simp add: hm_keys_get)
  then have k: "hm_keys (hm_insert i s' (st_active st)) = hm_keys (st_active st)"
    by (auto simp: hm.keys_ins)
  have "hm_len (hm_insert i s' (st_active st)) = hm_len (st_active st)"
    using inv i by (intro hm.len_ins_present) (auto simp: session_inv_def table_ok_def)
  moreover have "sid s' = i" using inv i assms(3) by (auto simp: session_inv_def dest: table_ok_sid)
  ultimately show ?thesis
    using inv by (auto simp: session_inv_def session_count_def k)
qed

lemma resolve_inv: "session_inv st \<Longrightarrow> session_inv (fst (resolve ttl now i st))"
proof -
  assume inv: "session_inv st"
  obtain st1 ex where sw: "sweep_expired ttl now st = (st1, ex)" by fastforce
  then have "session_inv st1" using sweep_expired_inv(1) [OF inv, of ttl now] by simp
  then show ?thesis
    by (auto simp: resolve_def sw Let_def split: option.split intro!: update_active_inv)
qed

lemma attach_inv: "session_inv st \<Longrightarrow> session_inv (fst (attach_transaction_owner i owner st))"
  by (auto simp: attach_transaction_owner_def split: option.split intro!: update_active_inv)

text \<open>The two operations that make a session active move it there from another table.\<close>

lemma promote_inv: "session_inv st \<Longrightarrow> session_inv (fst (promote_opening i owner st))"
proof (cases "hm_get (st_opening st) i")
  case (Some s)
  assume inv: "session_inv st"
  define s' where "s' = s\<lparr>transaction_owner := Some owner\<rparr>"
  have "sid s' = i" using inv Some by (auto simp: s'_def session_inv_def dest: table_ok_sid)
  moreover have n: "hm_get (st_active st) i = None" "hm_get (st_closing st) i = None"
    using inv Some unfolding session_inv_def by (auto dest: disjoint_get)
  moreover have "hm_len (hm_remove i (st_opening st)) + hm_len (hm_insert i s' (st_active st))
      = hm_len (st_opening st) + hm_len (st_active st)"
    using inv Some n by (intro hm.len_move) (auto simp: session_inv_def table_ok_def)
  ultimately show ?thesis
    using inv n
    by (auto simp: promote_opening_def Some Let_def s'_def [symmetric] session_inv_def
        session_count_def hm.keys_ins hm.keys_del hm_keys_get)
qed (simp add: promote_opening_def)

lemma restore_inv: "session_inv st \<Longrightarrow> session_inv (restore_after_failed_close now s st)"
proof (cases "hm_get (st_closing st) (sid s)")
  case (Some old)
  assume inv: "session_inv st"
  define s' where "s' = s\<lparr>last_used := now\<rparr>"
  have n: "hm_get (st_active st) (sid s) = None" "hm_get (st_opening st) (sid s) = None"
    using inv Some unfolding session_inv_def by (metis disjoint_get Int_commute)+
  moreover have "hm_len (hm_remove (sid s) (st_closing st)) + hm_len (hm_insert (sid s) s' (st_active st))
      = hm_len (st_closing st) + hm_len (st_active st)"
    using inv Some n by (intro hm.len_move) (auto simp: session_inv_def table_ok_def)
  moreover have "sid s' = sid s" by (simp add: s'_def)
  ultimately show ?thesis
    using inv n
    by (auto simp: restore_after_failed_close_def Some Let_def s'_def [symmetric] session_inv_def
        session_count_def hm.keys_ins hm.keys_del hm_keys_get)
qed (simp add: restore_after_failed_close_def)

lemma removals_inv:
  assumes "session_inv st"
  shows "session_inv (fst (cancel_opening i st))" and "session_inv (finish_close i st)"
    and "session_inv (fst (take_all_active st))"
proof -
  have "hm_len (hm_remove i (st_opening st)) \<le> hm_len (st_opening st)"
    "hm_len (hm_remove i (st_closing st)) \<le> hm_len (st_closing st)"
    using assms by (auto simp: session_inv_def table_ok_def intro: hm.len_del_le)
  then show "session_inv (fst (cancel_opening i st))" "session_inv (finish_close i st)"
    "session_inv (fst (take_all_active st))"
    using assms by (auto simp: cancel_opening_def finish_close_def take_all_active_def
        session_inv_def session_count_def hm.keys_del hm_keys_def [of "[]"])
qed

lemmas session_op_inv = open_session_inv reserve_opening_inv promote_inv attach_inv resolve_inv
  begin_close_inv(1) restore_inv removals_inv

lemma session_step_inv: "session_inv st \<Longrightarrow> session_step ttl st st' \<Longrightarrow> session_inv st'"
  by (erule session_step.cases) (auto intro: session_op_inv)

lemma session_inv_empty: "session_inv empty_sessions"
  by (simp add: session_inv_def empty_sessions_def session_count_def hm_keys_def)

interpretation sessions: invariant_system
  "\<lambda>st. st = empty_sessions" "session_step ttl" session_inv for ttl
  by unfold_locales (auto intro: session_inv_empty session_step_inv)

section \<open>Expiry\<close>

text \<open>What a sweep over any list of identifiers does to each key of the active and closing tables.\<close>

lemma sweep_ids_get:
  assumes "session_inv st"
  shows "hm_get (st_active (fst (sweep_ids is st ex))) i =
           (if i \<in> set is then None else hm_get (st_active st) i) \<and>
         hm_get (st_closing (fst (sweep_ids is st ex))) i =
           (if i \<in> set is \<and> hm_get (st_active st) i \<noteq> None
            then hm_get (st_active st) i else hm_get (st_closing st) i)"
  using assms
proof (induction "is" st ex rule: sweep_ids.induct)
  case (2 j "is" st ex)
  show ?case
  proof (cases "hm_get (st_active st) j")
    case None
    with 2 show ?thesis by auto
  next
    case (Some s)
    have IH: "session_inv (st\<lparr>st_active := hm_remove j (st_active st),
        st_closing := hm_insert j s (st_closing st)\<rparr>)"
      using 2(3) Some by (rule move_to_closing)
    show ?thesis
      using 2(2) [OF Some IH] Some by (auto simp: store_laws)
  qed
qed simp

lemma sweep_ids_list:
  assumes "session_inv st" and "distinct is"
  shows "set (snd (sweep_ids is st ex)) =
           set ex \<union> {s. \<exists>i \<in> set is. hm_get (st_active st) i = Some s}"
  using assms
proof (induction "is" st ex rule: sweep_ids.induct)
  case (2 j "is" st ex)
  show ?case
  proof (cases "hm_get (st_active st) j")
    case None
    with 2 show ?thesis by auto
  next
    case (Some s)
    have IH: "session_inv (st\<lparr>st_active := hm_remove j (st_active st),
        st_closing := hm_insert j s (st_closing st)\<rparr>)"
      using 2(3) Some by (rule move_to_closing)
    show ?thesis
      using 2(2) [OF Some IH] 2(4) Some by (auto simp: store_laws split: if_splits)
  qed
qed simp

lemma expired_ids:
  assumes "hm_wf m"
  shows "i \<in> set (map fst (filter (\<lambda>(i, s). P s) m)) \<longleftrightarrow> (\<exists>s. hm_get m i = Some s \<and> P s)"
    and "distinct (map fst (filter (\<lambda>(i, s). P s) m))"
  using assms
  by (force dest: hm_get_mem intro: hm_mem_get, simp add: hm_wf_def distinct_map_filter)

lemma sweep_expired_active:
  assumes "session_inv st"
  shows "hm_get (st_active (fst (sweep_expired ttl now st))) i = Some s \<longleftrightarrow>
           hm_get (st_active st) i = Some s \<and> \<not> is_expired ttl now s"
  using sweep_ids_get [OF assms] assms expired_ids(1) [of "st_active st" i "is_expired ttl now"]
  by (auto simp: sweep_expired_def session_inv_def table_ok_def)

lemma resolve_fields:
  assumes "resolve ttl now i st = (st', Some s', ex)"
  shows "hm_get (st_active st') i = Some s'" and "last_used s' = now"
  using assms by (auto simp: resolve_def Let_def store_laws split: prod.splits option.splits)

section \<open>Properties\<close>

text \<open>
  C1. In every state the store can reach, from the empty store and by any interleaving of its
  operations, the sessions counted over the three tables never exceed \<open>MAX_SESSIONS\<close>, and no
  session identifier is in two tables at once.
\<close>

theorem session_cap_never_exceeded:
  assumes "reach (\<lambda>st. st = empty_sessions) (session_step ttl) st"
  shows "session_count st \<le> max_sessions \<and>
         hm_keys (st_opening st) \<inter> hm_keys (st_active st) = {} \<and>
         hm_keys (st_opening st) \<inter> hm_keys (st_closing st) = {} \<and>
         hm_keys (st_active st) \<inter> hm_keys (st_closing st) = {}"
  using sessions.reach_inv [OF assms] by (simp_all add: session_inv_def)

theorem session_cap_never_exceeded_witness:
  "session_count (fst (open_session 5 0 ''u'' ''c'' ''d'' empty_sessions)) \<le> max_sessions"
proof -
  have "reach (\<lambda>st. st = empty_sessions) (session_step 5)
      (fst (open_session 5 0 ''u'' ''c'' ''d'' empty_sessions))"
    by (rule reach_step [OF reach_init], rule refl, rule step_open)
      (simp add: session_ids_def empty_sessions_def hm_keys_def)
  then show ?thesis using session_cap_never_exceeded by blast
qed

text \<open>
  C31. A sweep takes out of the active table exactly the sessions that have been idle for the whole
  TTL, moves exactly those to the closing table, hands exactly those to the caller, and changes
  neither the opening table nor the number of sessions counted against the cap.
\<close>

theorem sweep_moves_exactly_the_expired:
  assumes "session_inv st" and "sweep_expired ttl now st = (st', expired)"
  shows "(\<forall>i s. hm_get (st_active st') i = Some s \<longleftrightarrow>
             hm_get (st_active st) i = Some s \<and> now - last_used s < ttl) \<and>
         (\<forall>i s. hm_get (st_closing st') i = Some s \<longleftrightarrow>
             hm_get (st_closing st) i = Some s \<or>
             hm_get (st_active st) i = Some s \<and> ttl \<le> now - last_used s) \<and>
         set expired = {s. \<exists>i. hm_get (st_active st) i = Some s \<and> ttl \<le> now - last_used s} \<and>
         st_opening st' = st_opening st \<and> session_count st' = session_count st"
proof -
  define ids where "ids = map fst (filter (\<lambda>(i, s). is_expired ttl now s) (st_active st))"
  have wf: "hm_wf (st_active st)" using assms(1) by (simp add: session_inv_def table_ok_def)
  have sw: "sweep_ids ids st [] = (st', expired)" using assms(2) by (simp add: sweep_expired_def ids_def)
  have ids: "i \<in> set ids \<longleftrightarrow> (\<exists>s. hm_get (st_active st) i = Some s \<and> ttl \<le> now - last_used s)" for i
    using expired_ids(1) [OF wf, of i "is_expired ttl now"] by (simp only: ids_def is_expired_def)
  have dist: "distinct ids" unfolding ids_def using wf by (rule expired_ids(2))
  have clo: "hm_get (st_active st) i = Some s \<Longrightarrow> hm_get (st_closing st) i = None" for i s
    using assms(1) unfolding session_inv_def by (auto dest: disjoint_get)
  have "hm_get (st_closing st') i = Some s \<longleftrightarrow> hm_get (st_closing st) i = Some s \<or>
      hm_get (st_active st) i = Some s \<and> ttl \<le> now - last_used s" for i s
    using sweep_ids_get [OF assms(1), of ids "[]" i] ids [of i] clo [of i] sw
    by auto
  moreover have "set expired = {s. \<exists>i \<in> set ids. hm_get (st_active st) i = Some s}"
    using sweep_ids_list [OF assms(1) dist, of "[]"] sw by simp
  then have "set expired = {s. \<exists>i. hm_get (st_active st) i = Some s \<and> ttl \<le> now - last_used s}"
    by (auto simp: ids)
  moreover have "hm_get (st_active st') i = Some s \<longleftrightarrow>
      hm_get (st_active st) i = Some s \<and> now - last_used s < ttl" for i s
    using sweep_expired_active [OF assms(1), of ttl now i s] assms(2)
    by (simp add: is_expired_def not_le)
  ultimately show ?thesis
    using sweep_expired_inv [OF assms(1), of ttl now] assms(2) by simp
qed

definition sample_sessions :: mcp_session_state where
  "sample_sessions =
     fst (open_session 10 6 ''b'' ''c'' ''d'' (fst (open_session 10 0 ''a'' ''c'' ''d'' empty_sessions)))"

lemma sample_sessions_inv: "session_inv sample_sessions"
  unfolding sample_sessions_def
  by (intro open_session_inv session_inv_empty)
    (simp_all add: open_session_def sweep_expired_def empty_sessions_def session_ids_def
      session_count_def max_sessions_def hm_keys_def hm_insert_def Let_def)

theorem sweep_moves_exactly_the_expired_witness:
  "\<exists>st' ex. sweep_expired 10 12 sample_sessions = (st', ex) \<and> session_count st' = 2 \<and>
     map sid ex = [''mcp-session-a'']"
proof -
  obtain st' ex where sw: "sweep_expired 10 12 sample_sessions = (st', ex)" by fastforce
  have "session_count st' = session_count sample_sessions"
    using sweep_moves_exactly_the_expired [OF sample_sessions_inv sw] by simp
  moreover have "session_count sample_sessions = 2" by code_simp
  moreover have "map sid (snd (sweep_expired 10 12 sample_sessions)) = [''mcp-session-a'']" by code_simp
  ultimately show ?thesis using sw by simp
qed

text \<open>
  Resolving a session restarts its idle timer: the same identifier resolves again, to the same
  session, at any moment less than one TTL later, whatever else has expired meanwhile.
\<close>

theorem resolve_restarts_idle_timer:
  assumes "session_inv st" and "resolve ttl now i st = (st', Some s, expired)"
    and "now \<le> now'" and "now' < now + ttl"
  shows "fst (snd (resolve ttl now' i st')) = Some (s\<lparr>last_used := now'\<rparr>)"
proof -
  have inv: "session_inv st'" using resolve_inv [OF assms(1), of ttl now i] assms(2) by simp
  have "hm_get (st_active st') i = Some s" "last_used s = now"
    using resolve_fields [OF assms(2)] by simp_all
  then have "hm_get (st_active (fst (sweep_expired ttl now' st'))) i = Some s"
    using assms(3,4) by (auto simp: sweep_expired_active [OF inv] is_expired_def)
  then show ?thesis
    by (auto simp: resolve_def Let_def split: prod.split)
qed

theorem resolve_restarts_idle_timer_witness:
  "\<exists>st' s ex. resolve 10 9 ''mcp-session-a'' sample_sessions = (st', Some s, ex) \<and>
     fst (snd (resolve 10 18 ''mcp-session-a'' st')) = Some (s\<lparr>last_used := 18\<rparr>)"
proof -
  have "fst (snd (resolve 10 9 ''mcp-session-a'' sample_sessions)) \<noteq> None" by code_simp
  then obtain st' s ex where r: "resolve 10 9 ''mcp-session-a'' sample_sessions = (st', Some s, ex)"
    by (metis not_None_eq prod.collapse)
  show ?thesis using r resolve_restarts_idle_timer [OF sample_sessions_inv r, of 18] by simp
qed

text \<open>
  C32. Closing is two-phase: a session handed out by \<open>begin_close\<close> can no longer be resolved, yet it
  still counts against the cap until \<open>finish_close\<close>, which frees exactly one slot; a failed close
  puts it back, resolvable again.
\<close>

theorem close_reserves_the_slot:
  assumes "session_inv st" and "begin_close ttl now i st = (st', Some s, expired)"
  shows "fst (snd (resolve ttl now' i st')) = None \<and>
         session_count st' = session_count st \<and>
         Suc (session_count (finish_close i st')) = session_count st \<and>
         (0 < ttl \<longrightarrow>
           fst (snd (resolve ttl now' i (restore_after_failed_close now' s st'))) =
             Some (s\<lparr>last_used := now'\<rparr>))"
proof -
  obtain st1 where sw: "sweep_expired ttl now st = (st1, expired)"
    and a: "hm_get (st_active st1) i = Some s"
    and st': "st' = st1\<lparr>st_active := hm_remove i (st_active st1),
                 st_closing := hm_insert i s (st_closing st1)\<rparr>"
    using assms sweep_expired_inv(1) [OF assms(1), of ttl now]
    by (auto simp: begin_close_def begin_close_closing split: prod.splits option.splits)
  have inv1: "session_inv st1" using sweep_expired_inv(1) [OF assms(1), of ttl now] sw by simp
  have inv: "session_inv st'" and cnt: "session_count st' = session_count st"
    using begin_close_inv [OF assms(1), of ttl now i] assms(2) by simp_all
  have sid: "sid s = i" using inv1 a by (auto simp: session_inv_def dest: table_ok_sid)
  have "hm_get (st_active st') i = None" by (simp add: st' store_laws)
  then have gone: "hm_get (st_active (fst (sweep_expired ttl now' st'))) i = None"
    using sweep_expired_active [OF inv, of ttl now' i] by (metis option.exhaust option.distinct(1))
  have clo: "hm_get (st_closing st') i = Some s" by (simp add: st' store_laws)
  moreover have "hm_wf (st_closing st')" using inv by (simp add: session_inv_def table_ok_def)
  ultimately have "Suc (session_count (finish_close i st')) = session_count st'"
    using hm.len_del_present [of "st_closing st'" i s]
    by (simp add: finish_close_def session_count_def)
  moreover have "fst (snd (resolve ttl now' i (restore_after_failed_close now' s st'))) =
      Some (s\<lparr>last_used := now'\<rparr>)" if "0 < ttl"
  proof -
    let ?r = "restore_after_failed_close now' s st'"
    have "hm_get (st_active ?r) i = Some (s\<lparr>last_used := now'\<rparr>)"
      using clo by (simp add: restore_after_failed_close_def sid Let_def store_laws)
    then have "hm_get (st_active (fst (sweep_expired ttl now' ?r))) i = Some (s\<lparr>last_used := now'\<rparr>)"
      using that by (simp add: sweep_expired_active [OF restore_inv [OF inv]] is_expired_def)
    then show ?thesis by (auto simp: resolve_def Let_def split: prod.split)
  qed
  ultimately show ?thesis
    using gone cnt by (auto simp: resolve_def split: prod.split)
qed

theorem close_reserves_the_slot_witness:
  "\<exists>st' s ex. begin_close 10 7 ''mcp-session-a'' sample_sessions = (st', Some s, ex) \<and>
     fst (snd (resolve 10 8 ''mcp-session-a'' st')) = None \<and>
     Suc (session_count (finish_close ''mcp-session-a'' st')) = session_count sample_sessions"
proof -
  have "fst (snd (begin_close 10 7 ''mcp-session-a'' sample_sessions)) \<noteq> None" by code_simp
  then obtain st' s ex where r: "begin_close 10 7 ''mcp-session-a'' sample_sessions = (st', Some s, ex)"
    by (metis not_None_eq prod.collapse)
  show ?thesis using r close_reserves_the_slot [OF sample_sessions_inv r, of 8] by simp
qed

end
