(* ===== verification/Transaction_Owner.thy ===== *)
theory Transaction_Owner
  imports Dbx_Prelude
begin

text \<open>
  The owner task of a pinned MySQL transaction (\<^verbatim>\<open>crates/dbx-mcp/src/transaction.rs\<close>). One task
  owns the connection, receives commands over a channel and keeps the transaction status; clients
  reach it through a lease. The database connection is behind the trait \<^verbatim>\<open>TransactionIo\<close>: what a
  call to it returns, and whether a cancellation or the timeout wins the surrounding \<^verbatim>\<open>select!\<close>, is
  an argument of every step (\<open>'a waited\<close>), so the theorems hold for every behaviour of the server,
  the network, the clock and the scheduler. Each step also returns the calls it made on the
  connection, in order.
\<close>

section \<open>Data\<close>

datatype transaction_state = Idle | Active | Unknown

definition state_as_str :: "transaction_state \<Rightarrow> string" where
  "state_as_str s = (case s of Idle \<Rightarrow> ''idle'' | Active \<Rightarrow> ''active'' | Unknown \<Rightarrow> ''unknown'')"

datatype transaction_outcome = Committed | RolledBack | UnknownOutcome

definition outcome_as_str :: "transaction_outcome \<Rightarrow> string" where
  "outcome_as_str s =
     (case s of Committed \<Rightarrow> ''committed'' | RolledBack \<Rightarrow> ''rolled_back'' | UnknownOutcome \<Rightarrow> ''unknown'')"

record 'r transaction_io_success =
  io_result :: 'r
  in_transaction :: bool

datatype transaction_io_error = Server nat string | Transport string

text \<open>The calls on the connection, and how waiting for one of them ends.\<close>

datatype io_call = Execute string "nat option" | PingInTransaction | Disconnect

datatype 'a waited = OwnerCancelled | RequestDropped | TimedOut | Done 'a

record transaction_status =
  ts_state :: transaction_state
  ts_outcome :: "transaction_outcome option"

definition default_status :: transaction_status where
  "default_status = \<lparr>ts_state = Idle, ts_outcome = None\<rparr>"

record 'r transaction_result =
  tr_result :: 'r
  tr_state :: transaction_state
  tr_outcome :: "transaction_outcome option"

record transaction_failure =
  tf_code :: string
  tf_message :: string
  tf_mysql_code :: "nat option"
  tf_state :: transaction_state
  tf_outcome :: "transaction_outcome option"

datatype operation = Begin | Query string "nat option" | Commit | Rollback

type_synonym 'r response = "transaction_failure + 'r transaction_result"
type_synonym 'r exec_wait = "(transaction_io_error + 'r transaction_io_success) waited"
type_synonym probe_wait = "(transaction_io_error + bool) waited"

record transaction_owner_config =
  cfg_idle_ttl :: duration
  cfg_operation_timeout :: duration
  cfg_cleanup_timeout :: duration

definition default_owner_config :: transaction_owner_config where
  "default_owner_config = \<lparr>cfg_idle_ttl = from_secs (30 * 60),
     cfg_operation_timeout = from_secs 300, cfg_cleanup_timeout = from_secs 5\<rparr>"

record transaction_owner_inner =
  own_status :: transaction_status
  own_cancelled :: bool
  own_closed :: bool

definition spawn_owner :: transaction_owner_inner where
  "spawn_owner = \<lparr>own_status = default_status, own_cancelled = False, own_closed = False\<rparr>"

section \<open>Commands\<close>

definition unknown_status :: transaction_status where
  "unknown_status = \<lparr>ts_state = Unknown, ts_outcome = Some UnknownOutcome\<rparr>"

definition failure :: "string \<Rightarrow> string \<Rightarrow> nat option \<Rightarrow> transaction_status \<Rightarrow> transaction_failure" where
  "failure code message mysql_code status =
     \<lparr>tf_code = code, tf_message = message, tf_mysql_code = mysql_code,
      tf_state = ts_state status, tf_outcome = ts_outcome status\<rparr>"

definition invalid_operation :: "operation \<Rightarrow> transaction_status \<Rightarrow> (string \<times> string) option" where
  "invalid_operation op current =
     (case op of
        Begin \<Rightarrow> if ts_state current = Active
          then Some (''TRANSACTION_ALREADY_ACTIVE'', ''A transaction is already active for this session.'')
          else None
      | Query _ _ \<Rightarrow> None
      | _ \<Rightarrow> if ts_state current \<noteq> Active
          then Some (''TRANSACTION_NOT_ACTIVE'', ''No active transaction exists for this session.'')
          else None)"

definition operation_sql :: "operation \<Rightarrow> string \<times> nat option \<times> transaction_outcome option" where
  "operation_sql op =
     (case op of
        Begin \<Rightarrow> (''START TRANSACTION'', None, None)
      | Query sql max_rows \<Rightarrow> (sql, max_rows, None)
      | Commit \<Rightarrow> (''COMMIT'', None, Some Committed)
      | Rollback \<Rightarrow> (''ROLLBACK'', None, Some RolledBack))"

definition fail_unknown ::
  "string \<Rightarrow> string \<Rightarrow> nat option \<Rightarrow> transaction_status \<times> 'r response \<times> bool" where
  "fail_unknown code message mysql_code =
     (unknown_status, Inl (failure code message mysql_code unknown_status), True)"

text \<open>The branch of \<^verbatim>\<open>handle_command\<close> for a server error: a probe decides what is left.\<close>

definition handle_server_error ::
  "bool \<Rightarrow> transaction_status \<Rightarrow> nat \<Rightarrow> string \<Rightarrow> probe_wait
     \<Rightarrow> transaction_status \<times> 'r response \<times> bool \<times> io_call list" where
  "handle_server_error is_commit current code message probe =
     (if is_commit then
        (case fail_unknown ''TRANSACTION_STATE_UNKNOWN'' message (Some code) of
           (s, r, t) \<Rightarrow> (s, r, t, []))
      else
        (case probe of
           OwnerCancelled \<Rightarrow>
             (case fail_unknown ''TRANSACTION_CANCELLED''
                ''Transaction operation was cancelled during status verification.'' (Some code) of
                (s, r, t) \<Rightarrow> (s, r, t, [PingInTransaction]))
         | RequestDropped \<Rightarrow>
             (case fail_unknown ''TRANSACTION_CANCELLED''
                ''Transaction request was dropped during status verification.'' (Some code) of
                (s, r, t) \<Rightarrow> (s, r, t, [PingInTransaction]))
         | Done (Inr in_tx) \<Rightarrow>
             (let status =
                \<lparr>ts_state = (if in_tx then Active else Idle),
                 ts_outcome = (if ts_state current = Active \<and> \<not> in_tx then Some RolledBack else None)\<rparr>
              in (status, Inl (failure ''MYSQL_SERVER_ERROR'' message (Some code) status), False,
                  [PingInTransaction]))
         | _ \<Rightarrow>
             (case fail_unknown ''TRANSACTION_STATE_UNKNOWN'' message (Some code) of
                (s, r, t) \<Rightarrow> (s, r, t, [PingInTransaction]))))"

text \<open>
  \<^verbatim>\<open>handle_command\<close>: the new status, the response sent to the client, whether the owner stops, and
  the calls made on the connection.
\<close>

definition handle_command ::
  "duration \<Rightarrow> transaction_status \<Rightarrow> operation \<Rightarrow> 'r exec_wait \<Rightarrow> probe_wait
     \<Rightarrow> transaction_status \<times> 'r response \<times> bool \<times> io_call list" where
  "handle_command timeout current op exec probe =
     (case invalid_operation op current of
        Some (code, message) \<Rightarrow> (current, Inl (failure code message None current), False, [])
      | None \<Rightarrow>
          (case operation_sql op of (sql, max_rows, success_outcome) \<Rightarrow>
             (case exec of
                OwnerCancelled \<Rightarrow>
                  (case fail_unknown ''TRANSACTION_CANCELLED'' ''Transaction operation was cancelled.'' None of
                     (s, r, t) \<Rightarrow> (s, r, t, [Execute sql max_rows]))
              | RequestDropped \<Rightarrow>
                  (case fail_unknown ''TRANSACTION_CANCELLED''
                     ''Transaction request was dropped before completion.'' None of
                     (s, r, t) \<Rightarrow> (s, r, t, [Execute sql max_rows]))
              | TimedOut \<Rightarrow>
                  (case fail_unknown ''TRANSACTION_TIMEOUT''
                     (''Transaction operation timed out after '' @
                      show_nat (timeout div 1000000000) @ '' seconds.'') None of
                     (s, r, t) \<Rightarrow> (s, r, t, [Execute sql max_rows]))
              | Done (Inr success) \<Rightarrow>
                  (let expected =
                     (case success_outcome of Some _ \<Rightarrow> False
                      | None \<Rightarrow> if op = Begin then True else in_transaction success)
                   in
                   if in_transaction success \<noteq> expected then
                     (case fail_unknown ''TRANSACTION_STATE_UNKNOWN''
                        ''MySQL acknowledged the operation with an unexpected transaction state.'' None of
                        (s, r, t) \<Rightarrow> (s, r, t, [Execute sql max_rows]))
                   else
                     (let status = \<lparr>ts_state = (if in_transaction success then Active else Idle),
                                    ts_outcome = success_outcome\<rparr>
                      in (status,
                          Inr \<lparr>tr_result = io_result success, tr_state = ts_state status,
                               tr_outcome = ts_outcome status\<rparr>,
                          False, [Execute sql max_rows])))
              | Done (Inl (Server code message)) \<Rightarrow>
                  (case handle_server_error (op = Commit) current code message probe of
                     (s, r, t, calls) \<Rightarrow> (s, r, t, Execute sql max_rows # calls))
              | Done (Inl (Transport message)) \<Rightarrow>
                  (case fail_unknown ''TRANSACTION_STATE_UNKNOWN'' message None of
                     (s, r, t) \<Rightarrow> (s, r, t, [Execute sql max_rows])))))"

section \<open>The owner task\<close>

text \<open>
  The command loop of \<^verbatim>\<open>run_owner\<close>, over the commands received before the loop is left by a
  cancellation, the idle timeout or the closed channel; a terminal command leaves it at once and
  the remaining commands are never received.
\<close>

fun owner_loop ::
  "duration \<Rightarrow> transaction_status \<Rightarrow> (operation \<times> 'r exec_wait \<times> probe_wait) list
     \<Rightarrow> transaction_status \<times> 'r response list \<times> io_call list" where
  "owner_loop timeout st [] = (st, [], [])"
| "owner_loop timeout st ((op, exec, probe) # cs) =
     (case handle_command timeout st op exec probe of (st', r, terminal, calls) \<Rightarrow>
        if terminal then (st', [r], calls)
        else (case owner_loop timeout st' cs of (st'', rs, calls') \<Rightarrow> (st'', r # rs, calls @ calls')))"

text \<open>
  The cleanup after the loop: an active transaction is rolled back within the cleanup timeout
  (\<^const>\<open>TimedOut\<close> if that elapses), the connection is dropped, the owner is closed.
\<close>

definition owner_cleanup ::
  "'r exec_wait \<Rightarrow> transaction_owner_inner \<Rightarrow> transaction_owner_inner \<times> io_call list" where
  "owner_cleanup cleanup inner =
     (if ts_state (own_status inner) = Active then
        (inner\<lparr>own_status :=
             (case cleanup of
                Done (Inr success) \<Rightarrow>
                  if \<not> in_transaction success
                  then \<lparr>ts_state = Idle, ts_outcome = Some RolledBack\<rparr> else unknown_status
              | _ \<Rightarrow> unknown_status),
             own_closed := True\<rparr>,
         [Execute ''ROLLBACK'' None, Disconnect])
      else (inner\<lparr>own_closed := True\<rparr>, [Disconnect]))"

definition run_owner ::
  "transaction_owner_config \<Rightarrow> transaction_owner_inner
     \<Rightarrow> (operation \<times> 'r exec_wait \<times> probe_wait) list \<Rightarrow> 'r exec_wait
     \<Rightarrow> transaction_owner_inner \<times> 'r response list \<times> io_call list" where
  "run_owner config inner commands cleanup =
     (case owner_loop (cfg_operation_timeout config) (own_status inner) commands of
        (st, rs, calls) \<Rightarrow>
          (case owner_cleanup cleanup (inner\<lparr>own_status := st\<rparr>) of
             (inner', calls') \<Rightarrow> (inner', rs, calls @ calls')))"

section \<open>The client side\<close>

definition terminal_failure :: "transaction_owner_inner \<Rightarrow> string \<Rightarrow> string \<Rightarrow> transaction_failure" where
  "terminal_failure inner code message = failure code message None (own_status inner)"

text \<open>How the wait for the operation gate ends: with the permit, closed, or cancelled first.\<close>

datatype gate_wait = Permit | GateClosed | GateCancelled

definition acquire :: "gate_wait \<Rightarrow> transaction_owner_inner \<Rightarrow> transaction_failure + unit" where
  "acquire gate inner =
     (case gate of
        GateClosed \<Rightarrow> Inl (terminal_failure inner ''TRANSACTION_CLOSED'' ''Transaction session is closed.'')
      | GateCancelled \<Rightarrow> Inl (terminal_failure inner ''TRANSACTION_CLOSED'' ''Transaction session is closed.'')
      | Permit \<Rightarrow>
          if own_closed inner \<or> own_cancelled inner
          then Inl (terminal_failure inner ''TRANSACTION_CLOSED'' ''Transaction session is closed.'')
          else if ts_state (own_status inner) = Unknown
          then Inl (terminal_failure inner ''TRANSACTION_OUTCOME_UNKNOWN''
                 ''Transaction outcome is unknown; this session cannot execute more SQL.'')
          else Inr ())"

definition invalidate :: "transaction_owner_inner \<Rightarrow> transaction_owner_inner" where
  "invalidate inner = inner\<lparr>own_cancelled := True\<rparr>"

text \<open>
  \<^verbatim>\<open>close\<close>: cancels, then waits for the owner task unless it is closed already. \<open>after\<close> is the owner
  when the wait ends, \<open>in_time\<close> whether it ended before the close timeout.
\<close>

definition close_owner ::
  "bool \<Rightarrow> transaction_owner_inner \<Rightarrow> transaction_owner_inner \<Rightarrow> transaction_status + transaction_status" where
  "close_owner in_time inner after =
     (if own_closed inner then Inr (own_status inner)
      else if in_time then Inr (own_status after) else Inl (own_status after))"

text \<open>One request over a lease: the channel may be closed before or during the operation.\<close>

datatype 'r link = SendClosed | ResponseDropped | Handled "'r exec_wait" probe_wait

definition run_ref ::
  "duration \<Rightarrow> transaction_owner_inner \<Rightarrow> operation \<Rightarrow> 'r link \<Rightarrow> transaction_owner_inner \<times> 'r response" where
  "run_ref timeout inner op lnk =
     (case lnk of
        SendClosed \<Rightarrow>
          (inner, Inl (terminal_failure inner ''TRANSACTION_CLOSED'' ''Transaction session is closed.''))
      | ResponseDropped \<Rightarrow>
          (inner, Inl (terminal_failure inner ''TRANSACTION_CLOSED''
             ''Transaction session closed during the operation.''))
      | Handled exec probe \<Rightarrow>
          (case handle_command timeout (own_status inner) op exec probe of
             (st, r, _, _) \<Rightarrow> (inner\<lparr>own_status := st\<rparr>, r)))"

fun batch ::
  "duration \<Rightarrow> nat option \<Rightarrow> bool \<Rightarrow> transaction_owner_inner \<Rightarrow> (string \<times> 'r link) list
     \<Rightarrow> transaction_owner_inner \<times> 'r response list" where
  "batch timeout max_rows continue_on_error inner [] = (inner, [])"
| "batch timeout max_rows continue_on_error inner ((sql, lnk) # rest) =
     (case run_ref timeout inner (Query sql max_rows) lnk of (inner', r) \<Rightarrow>
        if (case r of Inr _ \<Rightarrow> False | Inl e \<Rightarrow> tf_state e = Unknown \<or> \<not> continue_on_error)
        then (inner', [r])
        else (case batch timeout max_rows continue_on_error inner' rest of
                (inner'', rs) \<Rightarrow> (inner'', r # rs)))"

section \<open>The owner registry\<close>

text \<open>
  \<^verbatim>\<open>TransactionOwnerRegistry\<close>: weak references to the owners of each connection. \<open>alive\<close> says which
  owners still have a strong reference.
\<close>

type_synonym owner_registry = "(string, nat list) hmap"

definition register_owner ::
  "(nat \<Rightarrow> bool) \<Rightarrow> string \<Rightarrow> nat \<Rightarrow> owner_registry \<Rightarrow> owner_registry" where
  "register_owner alive conn owner reg =
     (let entries = (case hm_get reg conn of None \<Rightarrow> [] | Some es \<Rightarrow> es)
      in hm_insert conn (filter alive entries @ [owner]) reg)"

text \<open>Both return the registry left and the owners whose \<^verbatim>\<open>invalidate\<close> is called, in order.\<close>

definition invalidate_connection ::
  "(nat \<Rightarrow> bool) \<Rightarrow> string \<Rightarrow> owner_registry \<Rightarrow> owner_registry \<times> nat list" where
  "invalidate_connection alive conn reg =
     (hm_remove conn reg, filter alive (case hm_get reg conn of None \<Rightarrow> [] | Some es \<Rightarrow> es))"

definition invalidate_all :: "(nat \<Rightarrow> bool) \<Rightarrow> owner_registry \<Rightarrow> owner_registry \<times> nat list" where
  "invalidate_all alive reg = ([], filter alive (concat (map snd reg)))"

section \<open>What the server knows\<close>

text \<open>
  The reference the status is compared with: \<open>srv\<close> says whether the MySQL session really has an open
  transaction. A reply the owner receives tells the truth about the session after the statement;
  when no reply arrives the statement may or may not have run, so \<open>srv'\<close> is arbitrary. An operation
  that is refused by the owner does not reach the server.
\<close>

definition server_step ::
  "transaction_status \<Rightarrow> operation \<Rightarrow> 'r exec_wait \<Rightarrow> probe_wait \<Rightarrow> bool \<Rightarrow> bool \<Rightarrow> bool" where
  "server_step st op exec probe srv srv' \<longleftrightarrow>
     (if invalid_operation op st \<noteq> None then srv' = srv
      else (case exec of
              Done (Inr success) \<Rightarrow> srv' = in_transaction success
            | Done (Inl (Server _ _)) \<Rightarrow> (case probe of Done (Inr b) \<Rightarrow> srv' = b | _ \<Rightarrow> True)
            | _ \<Rightarrow> True))"

fun server_run ::
  "duration \<Rightarrow> transaction_status \<Rightarrow> (operation \<times> 'r exec_wait \<times> probe_wait) list
     \<Rightarrow> bool \<Rightarrow> bool \<Rightarrow> bool" where
  "server_run timeout st [] srv srv' \<longleftrightarrow> srv' = srv"
| "server_run timeout st ((op, exec, probe) # cs) srv srv' \<longleftrightarrow>
     (\<exists>mid. server_step st op exec probe srv mid \<and>
        (case handle_command timeout st op exec probe of (st', _, terminal, _) \<Rightarrow>
           if terminal then srv' = mid else server_run timeout st' cs mid srv'))"

definition server_cleanup :: "transaction_status \<Rightarrow> 'r exec_wait \<Rightarrow> bool \<Rightarrow> bool \<Rightarrow> bool" where
  "server_cleanup st cleanup srv srv' \<longleftrightarrow>
     (if ts_state st = Active
      then (case cleanup of Done (Inr success) \<Rightarrow> srv' = in_transaction success | _ \<Rightarrow> True)
      else srv' = srv)"

definition truthful :: "transaction_status \<Rightarrow> bool \<Rightarrow> bool" where
  "truthful st srv \<longleftrightarrow> (ts_state st = Active \<longrightarrow> srv) \<and> (ts_state st = Idle \<longrightarrow> \<not> srv)"

section \<open>Lemmas\<close>

text \<open>
  The four ways a command ends: it is refused before anything is sent, the server acknowledges it in
  the expected state, the server rejects it and a probe tells the state, or nothing is known.
\<close>

definition expects_transaction :: "operation \<Rightarrow> bool \<Rightarrow> bool" where
  "expects_transaction op b = (case op of Begin \<Rightarrow> True | Query _ _ \<Rightarrow> b | _ \<Rightarrow> False)"

lemma handle_command_refused:
  "invalid_operation op st = Some (c, m) \<Longrightarrow>
     handle_command timeout st op exec probe = (st, Inl (failure c m None st), False, [])"
  by (simp add: handle_command_def)

lemma handle_command_acknowledged:
  "invalid_operation op st = None \<Longrightarrow> in_transaction s = expects_transaction op (in_transaction s) \<Longrightarrow>
     handle_command timeout st op (Done (Inr s)) probe =
       (\<lparr>ts_state = (if in_transaction s then Active else Idle), ts_outcome = snd (snd (operation_sql op))\<rparr>,
        Inr \<lparr>tr_result = io_result s, tr_state = (if in_transaction s then Active else Idle),
             tr_outcome = snd (snd (operation_sql op))\<rparr>, False,
        [Execute (fst (operation_sql op)) (fst (snd (operation_sql op)))])"
  by (cases op) (simp_all add: handle_command_def operation_sql_def expects_transaction_def)

lemma handle_command_server_error:
  "invalid_operation op st = None \<Longrightarrow> op \<noteq> Commit \<Longrightarrow>
     handle_command timeout st op (Done (Inl (Server c m))) (Done (Inr b)) =
       (let st' = \<lparr>ts_state = (if b then Active else Idle),
                   ts_outcome = (if ts_state st = Active \<and> \<not> b then Some RolledBack else None)\<rparr>
        in (st', Inl (failure ''MYSQL_SERVER_ERROR'' m (Some c) st'), False,
            [Execute (fst (operation_sql op)) (fst (snd (operation_sql op))), PingInTransaction]))"
  by (cases op) (simp_all add: handle_command_def handle_server_error_def operation_sql_def Let_def)

definition unresolved :: "operation \<Rightarrow> 'r exec_wait \<Rightarrow> probe_wait \<Rightarrow> bool" where
  "unresolved op exec probe \<longleftrightarrow>
     (case exec of
        Done (Inr s) \<Rightarrow> in_transaction s \<noteq> expects_transaction op (in_transaction s)
      | Done (Inl (Server _ _)) \<Rightarrow> op = Commit \<or> (\<forall>b. probe \<noteq> Done (Inr b))
      | _ \<Rightarrow> True)"

lemma handle_command_unresolved:
  assumes "invalid_operation op st = None" and "unresolved op exec probe"
  shows "\<exists>c m k calls. handle_command timeout st op exec probe =
     (unknown_status, Inl (failure c m k unknown_status), True, calls)"
proof (cases exec)
  case (Done x)
  show ?thesis
  proof (cases x)
    case (Inr s)
    with assms Done show ?thesis
      by (cases op) (auto simp: handle_command_def unresolved_def expects_transaction_def
          operation_sql_def fail_unknown_def)
  next
    case (Inl e)
    with assms Done show ?thesis
      by (cases e; cases probe) (auto simp: handle_command_def unresolved_def
          handle_server_error_def fail_unknown_def split: prod.split sum.splits)
  qed
qed (use assms in \<open>auto simp: handle_command_def fail_unknown_def split: prod.split\<close>)

lemma command_outcomes:
  obtains (refused) c m where "invalid_operation op st = Some (c, m)"
  | (acknowledged) s where "invalid_operation op st = None" and "exec = Done (Inr s)"
      and "in_transaction s = expects_transaction op (in_transaction s)"
  | (rejected) c m b where "invalid_operation op st = None" and "exec = Done (Inl (Server c m))"
      and "op \<noteq> Commit" and "probe = Done (Inr b)"
  | (unresolved) "invalid_operation op st = None" and "unresolved op exec probe"
proof (cases "invalid_operation op st")
  case None
  show ?thesis
  proof (cases "unresolved op exec probe")
    case True
    with None show ?thesis by (rule unresolved)
  next
    case False
    then consider s where "exec = Done (Inr s)" "in_transaction s = expects_transaction op (in_transaction s)"
      | c m b where "exec = Done (Inl (Server c m))" "op \<noteq> Commit" "probe = Done (Inr b)"
      by (auto simp: unresolved_def split: waited.splits sum.splits transaction_io_error.splits)
    then show ?thesis using None acknowledged rejected by cases blast+
  qed
qed (use refused in \<open>metis surj_pair\<close>)

lemmas command_eval = handle_command_def handle_server_error_def fail_unknown_def
  operation_sql_def invalid_operation_def unknown_status_def failure_def

lemmas command_results = handle_command_refused handle_command_acknowledged handle_command_server_error

lemma truthful_step:
  assumes tr: "truthful st srv" and srv: "server_step st op exec probe srv srv'"
    and h: "handle_command timeout st op exec probe = (st', r, terminal, calls)"
  shows "truthful st' srv'"
proof (cases rule: command_outcomes [where op = op and st = st and exec = exec and probe = probe])
  case refused
  then show ?thesis using tr srv h by (simp add: command_results server_step_def)
next
  case acknowledged
  then show ?thesis using srv h
    by (auto simp: handle_command_acknowledged server_step_def truthful_def)
next
  case rejected
  then show ?thesis using srv h
    by (auto simp: handle_command_server_error server_step_def truthful_def Let_def)
next
  case unresolved
  then show ?thesis using handle_command_unresolved [OF unresolved, of timeout] h
    by (auto simp: truthful_def unknown_status_def)
qed

lemma truthful_loop:
  "truthful st srv \<Longrightarrow> server_run timeout st cs srv srv' \<Longrightarrow>
     truthful (fst (owner_loop timeout st cs)) srv'"
proof (induction timeout st cs arbitrary: srv rule: owner_loop.induct)
  case (2 timeout st op exec probe cs)
  obtain st' r t calls where h: "handle_command timeout st op exec probe = (st', r, t, calls)"
    using prod_cases4 by blast
  from 2(3) obtain mid where mid: "server_step st op exec probe srv mid"
    and rest: "if t then srv' = mid else server_run timeout st' cs mid srv'"
    by (auto simp: h)
  have tr: "truthful st' mid" using 2(2) mid h by (rule truthful_step)
  show ?case
  proof (cases t)
    case True
    with tr rest show ?thesis by (simp add: h)
  next
    case False
    with rest have "truthful (fst (owner_loop timeout st' cs)) srv'"
      using 2(1) [OF h [symmetric] refl refl _ tr] by simp
    then show ?thesis using False by (auto simp: h split: prod.split)
  qed
qed simp

section \<open>Properties\<close>

text \<open>
  C7. The client is told that its transaction committed exactly when it asked for a commit, a
  transaction was active, and the server acknowledged the statement and reported that no
  transaction is open any more. In particular a timeout, a lost connection, a cancellation or a
  server error during the commit is never reported as a commit.
\<close>

theorem committed_iff_acknowledged:
  "(\<exists>st' res terminal calls. handle_command timeout st op exec probe = (st', Inr res, terminal, calls) \<and>
       tr_outcome res = Some Committed) \<longleftrightarrow>
   op = Commit \<and> ts_state st = Active \<and> (\<exists>s. exec = Done (Inr s) \<and> \<not> in_transaction s)"
proof (cases rule: command_outcomes [where op = op and st = st and exec = exec and probe = probe])
  case refused
  then show ?thesis
    by (auto simp: handle_command_refused invalid_operation_def split: operation.splits if_splits)
next
  case acknowledged
  then show ?thesis
    by (cases op) (auto simp: handle_command_acknowledged operation_sql_def expects_transaction_def
        invalid_operation_def split: if_splits)
next
  case rejected
  then show ?thesis by (simp add: handle_command_server_error Let_def)
next
  case unresolved
  then show ?thesis using handle_command_unresolved [OF unresolved, of timeout]
    by (auto simp: unresolved_def expects_transaction_def)
qed

text \<open>
  C33. Every command keeps the state, the reply and the stop decision in agreement: the reply carries
  the state the owner is left in, and the owner stops exactly when that state is unknown, so an
  unknown outcome is never followed by another statement on the same connection.
\<close>

theorem owner_stops_iff_unknown:
  assumes "ts_state st \<noteq> Unknown"
    and "handle_command timeout st op exec probe = (st', r, terminal, calls)"
  shows "(terminal \<longleftrightarrow> ts_state st' = Unknown) \<and>
         (case r of Inr res \<Rightarrow> tr_state res = ts_state st' \<and> tr_outcome res = ts_outcome st'
          | Inl e \<Rightarrow> tf_state e = ts_state st' \<and> tf_outcome e = ts_outcome st')"
proof (cases rule: command_outcomes [where op = op and st = st and exec = exec and probe = probe])
  case unresolved
  then show ?thesis using handle_command_unresolved [OF unresolved, of timeout] assms(2)
    by (auto simp: unknown_status_def failure_def)
qed (use assms in \<open>auto simp: command_results failure_def Let_def split: if_splits\<close>)

theorem owner_stops_iff_unknown_witness:
  "\<exists>st' r. handle_command 9 \<lparr>ts_state = Active, ts_outcome = None\<rparr> Commit
       (Done (Inl (Server 1213 ''deadlock'')) :: nat exec_wait) TimedOut
         = (st', r, True, [Execute ''COMMIT'' None]) \<and> ts_state st' = Unknown"
proof -
  obtain st' r t calls where
    h: "handle_command 9 \<lparr>ts_state = Active, ts_outcome = None\<rparr> Commit
       (Done (Inl (Server 1213 ''deadlock'')) :: nat exec_wait) TimedOut = (st', r, t, calls)"
    using prod_cases4 by blast
  then have "t" "calls = [Execute ''COMMIT'' None]" by (simp_all add: handle_command_def handle_server_error_def fail_unknown_def
        operation_sql_def invalid_operation_def unknown_status_def)
  then show ?thesis using h owner_stops_iff_unknown [OF _ h] by simp
qed

text \<open>
  C10. Whatever commands arrive and however they fail, a finished owner never leaves a transaction
  open behind a state that denies it: it is closed, its connection was disconnected as the last
  call, its state is not active, and if its state is idle the server has no open transaction. The
  only assumption is that replies that do arrive are true of the server.
\<close>

theorem owner_leaves_no_open_transaction:
  assumes "truthful (own_status inner) srv"
    and "server_run (cfg_operation_timeout config) (own_status inner) commands srv srv1"
    and "server_cleanup (fst (owner_loop (cfg_operation_timeout config) (own_status inner) commands))
           cleanup srv1 srv'"
    and "run_owner config inner commands cleanup = (inner', rs, calls)"
  shows "own_closed inner' \<and> last calls = Disconnect \<and> ts_state (own_status inner') \<noteq> Active \<and>
         (ts_state (own_status inner') = Idle \<longrightarrow> \<not> srv')"
proof -
  obtain st rs' cs' where l: "owner_loop (cfg_operation_timeout config) (own_status inner) commands = (st, rs', cs')"
    using prod_cases3 by blast
  have "truthful st srv1" using truthful_loop [OF assms(1,2)] by (simp add: l)
  then show ?thesis
    using assms(3,4)
    by (auto simp: run_owner_def l owner_cleanup_def server_cleanup_def truthful_def
        unknown_status_def split: waited.splits sum.splits if_splits)
qed

theorem owner_leaves_no_open_transaction_witness:
  "\<exists>inner' rs calls.
     run_owner default_owner_config spawn_owner
       [(Begin, Done (Inr \<lparr>io_result = (0::nat), in_transaction = True\<rparr>), TimedOut)]
       (Done (Inr \<lparr>io_result = 0, in_transaction = False\<rparr>)) = (inner', rs, calls) \<and>
     calls = [Execute ''START TRANSACTION'' None, Execute ''ROLLBACK'' None, Disconnect] \<and>
     own_closed inner' \<and> ts_state (own_status inner') \<noteq> Active"
proof -
  let ?cs = "[(Begin, Done (Inr \<lparr>io_result = (0::nat), in_transaction = True\<rparr>), TimedOut)]
     :: (operation \<times> nat exec_wait \<times> probe_wait) list"
  let ?cl = "Done (Inr \<lparr>io_result = (0::nat), in_transaction = False\<rparr>) :: nat exec_wait"
  obtain inner' rs calls where r: "run_owner default_owner_config spawn_owner ?cs ?cl = (inner', rs, calls)"
    using prod_cases3 by blast
  have srv: "server_run (cfg_operation_timeout default_owner_config) (own_status spawn_owner) ?cs False True"
    by (auto simp: server_step_def command_eval spawn_owner_def default_status_def)
  have "calls = [Execute ''START TRANSACTION'' None, Execute ''ROLLBACK'' None, Disconnect]"
    using r by (auto simp: run_owner_def owner_cleanup_def command_eval spawn_owner_def default_status_def)
  moreover have "own_closed inner' \<and> ts_state (own_status inner') \<noteq> Active"
    using owner_leaves_no_open_transaction [OF _ srv _ r, of False]
    by (simp add: truthful_def server_cleanup_def command_eval spawn_owner_def default_status_def)
  ultimately show ?thesis using r by blast
qed

text \<open>
  A batch runs its statements in order and stops exactly where it must: it goes on after a
  result only if that result is a success, or an error with a known transaction state while errors
  are to be skipped; and if it stops before the last statement, the last result is an error that
  forbids going on.
\<close>

definition batch_may_continue :: "bool \<Rightarrow> 'r response \<Rightarrow> bool" where
  "batch_may_continue continue_on_error r \<longleftrightarrow>
     (case r of Inr _ \<Rightarrow> True | Inl e \<Rightarrow> continue_on_error \<and> tf_state e \<noteq> Unknown)"

theorem batch_stops_where_it_must:
  assumes "batch timeout max_rows continue_on_error inner stmts = (inner', rs)"
  shows "length rs \<le> length stmts \<and>
         list_all (batch_may_continue continue_on_error) (butlast rs) \<and>
         (length rs < length stmts \<longrightarrow> rs \<noteq> [] \<and> \<not> batch_may_continue continue_on_error (last rs))"
  using assms
proof (induction timeout max_rows continue_on_error inner stmts arbitrary: inner' rs rule: batch.induct)
  case (2 timeout max_rows continue_on_error inner sql lnk rest)
  obtain inner1 r where r: "run_ref timeout inner (Query sql max_rows) lnk = (inner1, r)" by fastforce
  show ?case
  proof (cases "batch_may_continue continue_on_error r")
    case False
    with 2(2) show ?thesis
      by (auto simp: r batch_may_continue_def split: sum.splits if_splits prod.splits)
  next
    case True
    obtain inner2 rs2 where b: "batch timeout max_rows continue_on_error inner1 rest = (inner2, rs2)"
      by fastforce
    have go: "\<not> (case r of Inl e \<Rightarrow> tf_state e = Unknown \<or> \<not> continue_on_error | Inr x \<Rightarrow> False)"
      using True by (auto simp: batch_may_continue_def split: sum.splits)
    then have rs: "rs = r # rs2" using 2(2) by (simp add: r b)
    from go have "length rs2 \<le> length rest \<and> list_all (batch_may_continue continue_on_error) (butlast rs2) \<and>
        (length rs2 < length rest \<longrightarrow> rs2 \<noteq> [] \<and> \<not> batch_may_continue continue_on_error (last rs2))"
      using 2(1) [OF r [symmetric] _ b] by simp
    then show ?thesis using True rs by auto
  qed
qed simp

theorem batch_stops_where_it_must_witness:
  "\<exists>inner' rs. batch 9 None True spawn_owner
       [(''a'', Handled (Done (Inl (Transport ''gone''))) TimedOut), (''b'', SendClosed :: nat link)] = (inner', rs) \<and>
     length rs = 1 \<and> \<not> batch_may_continue True (last rs)"
proof -
  let ?s = "[(''a'', Handled (Done (Inl (Transport ''gone''))) TimedOut), (''b'', SendClosed :: nat link)]"
  obtain inner' rs where b: "batch 9 None True spawn_owner ?s = (inner', rs)" by fastforce
  have "length rs = 1" using b by (auto simp: run_ref_def command_eval)
  then show ?thesis using b batch_stops_where_it_must [OF b] by auto
qed

text \<open>
  C36. Once the owner task has ended nobody obtains a lease: however the wait for the operation gate
  ends, the answer is \<open>TRANSACTION_CLOSED\<close>. Before that, a lease is granted only while the owner is
  neither closed nor cancelled and its transaction state is known.
\<close>

theorem lease_only_on_a_live_owner:
  assumes "run_owner config inner commands cleanup = (inner', rs, calls)"
  shows "(\<exists>e. acquire gate inner' = Inl e \<and> tf_code e = ''TRANSACTION_CLOSED'') \<and>
         (acquire gate any = Inr () \<longrightarrow>
            \<not> own_closed any \<and> \<not> own_cancelled any \<and> ts_state (own_status any) \<noteq> Unknown)"
proof -
  have "own_closed inner'"
    using assms by (auto simp: run_owner_def owner_cleanup_def split: prod.splits if_splits)
  then show ?thesis
    by (auto simp: acquire_def terminal_failure_def failure_def split: gate_wait.splits if_splits)
qed

theorem lease_only_on_a_live_owner_witness:
  "\<exists>inner' rs calls.
     run_owner default_owner_config spawn_owner [] (TimedOut :: nat exec_wait) = (inner', rs, calls) \<and>
     (\<exists>e. acquire Permit inner' = Inl e \<and> tf_code e = ''TRANSACTION_CLOSED'') \<and>
     acquire Permit spawn_owner = Inr ()"
proof -
  obtain inner' rs calls where
    r: "run_owner default_owner_config spawn_owner [] (TimedOut :: nat exec_wait) = (inner', rs, calls)"
    using prod_cases3 by blast
  have "acquire Permit spawn_owner = Inr ()"
    by (simp add: acquire_def spawn_owner_def default_status_def)
  then show ?thesis using r lease_only_on_a_live_owner [OF r, of Permit spawn_owner] by blast
qed

text \<open>
  Invalidating a connection reaches every live owner registered for it since it was last
  invalidated, including the one registered last, and no owner of another connection; the
  connection is forgotten afterwards.
\<close>

theorem invalidate_reaches_registered_owners:
  "(w \<in> set (snd (invalidate_connection alive c (register_owner alive c' p reg))) \<longleftrightarrow>
     alive w \<and> (w \<in> set (snd (invalidate_connection alive c reg)) \<or> c = c' \<and> w = p)) \<and>
   snd (invalidate_connection alive' c (fst (invalidate_connection alive c reg))) = []"
  by (auto simp: invalidate_connection_def register_owner_def Let_def store_laws split: option.splits)

end
