(* ===== verification/Sql_Strip.thy ===== *)
theory Sql_Strip
  imports Dbx_Prelude "HOL-Library.Sublist"
begin

text \<open>
  Removal of comments and literals before a SQL text is scanned for keywords (the scanners at the
  end of \<^verbatim>\<open>crates/dbx-sql-core/src/query_execution_sql.rs\<close>). The flags of each Rust loop become one
  mode, of which at most one is ever set; a peekable character iterator is the rest of the text.
\<close>

section \<open>Comments only\<close>

text \<open>\<^verbatim>\<open>read_mysql_executable_comment_body\<close>: the body, and the text after what was read.\<close>

fun executable_body :: "bool \<Rightarrow> string \<Rightarrow> string \<times> string" where
  "executable_body skipping_version [] = ([], [])"
| "executable_body skipping_version (c # cs) =
     (if c = CHR ''*'' \<and> starts_with ''/'' cs then ([], drop 1 cs)
      else if skipping_version \<and> (is_ascii_digit c \<or> is_whitespace c) then executable_body True cs
      else (case executable_body False cs of (body, rest) \<Rightarrow> (c # body, rest)))"

definition read_mysql_executable_comment_body :: "string \<Rightarrow> string option \<times> string" where
  "read_mysql_executable_comment_body s =
     (case s of
        [] \<Rightarrow> (None, [])
      | c # cs \<Rightarrow>
          if c = CHR ''!'' then (case executable_body True cs of (body, rest) \<Rightarrow> (Some body, rest))
          else if c = CHR ''M'' then
            (if starts_with ''!'' cs
             then (case executable_body True (drop 1 cs) of (body, rest) \<Rightarrow> (Some body, rest))
             else (None, cs))
          else (None, s))"

lemma executable_body_length:
  "executable_body b s = (body, rest) \<Longrightarrow> length body + length rest \<le> length s"
  by (induction b s arbitrary: body rest rule: executable_body.induct)
    (fastforce split: if_splits prod.splits)+

lemma read_executable_length:
  "(Some body, rest) = read_mysql_executable_comment_body s \<Longrightarrow> length body + length rest \<le> length s"
  "(None, rest) = read_mysql_executable_comment_body s \<Longrightarrow> length rest \<le> length s"
  by (cases s; fastforce simp: read_mysql_executable_comment_body_def
      split: if_splits prod.splits dest!: executable_body_length)+

datatype comment_mode = Visible | LineComment | BlockComment

function strip_comments :: "comment_mode \<Rightarrow> string \<Rightarrow> string" where
  "strip_comments m [] = []"
| "strip_comments LineComment (c # cs) =
     (if c = CHR 10 then CHR '' '' # strip_comments Visible cs else strip_comments LineComment cs)"
| "strip_comments BlockComment (c # cs) =
     (if c = CHR ''*'' \<and> starts_with ''/'' cs then CHR '' '' # strip_comments Visible (drop 1 cs)
      else strip_comments BlockComment cs)"
| "strip_comments Visible (c # cs) =
     (if c = CHR ''-'' \<and> starts_with ''-'' cs then strip_comments LineComment (drop 1 cs)
      else if c = CHR ''#'' then strip_comments LineComment cs
      else if c = CHR ''/'' \<and> starts_with ''*'' cs then
        (case read_mysql_executable_comment_body (drop 1 cs) of
           (Some body, rest) \<Rightarrow> '' '' @ strip_comments Visible body @ '' '' @ strip_comments Visible rest
         | (None, rest) \<Rightarrow> strip_comments BlockComment rest)
      else c # strip_comments Visible cs)"
  by pat_completeness auto
termination by (relation "measure (\<lambda>(m, s). length s)") (fastforce dest!: read_executable_length)+

definition strip_sql_comments :: "string \<Rightarrow> string" where
  "strip_sql_comments sql = strip_comments Visible sql"

section \<open>Comments and literals\<close>

definition is_mysql_executable_comment_start :: "string \<Rightarrow> bool" where
  "is_mysql_executable_comment_start s \<longleftrightarrow> starts_with ''!'' s \<or> starts_with ''M!'' s"

definition is_identifier_char :: "char \<Rightarrow> bool" where
  "is_identifier_char c \<longleftrightarrow> is_ascii_alphanumeric c \<or> c = CHR ''_'' \<or> c = CHR ''$''"

definition is_oracle_identifier_char :: "char \<Rightarrow> bool" where
  "is_oracle_identifier_char c \<longleftrightarrow> is_alphanumeric c \<or> c = CHR ''_'' \<or> c = CHR ''$'' \<or> c = CHR ''#''"

text \<open>The closing loop of \<^verbatim>\<open>oracle_alternative_quote_len\<close> and the function itself.\<close>

fun oracle_quote_close :: "char \<Rightarrow> nat \<Rightarrow> string \<Rightarrow> nat option" where
  "oracle_quote_close closer n [] = None"
| "oracle_quote_close closer n (c # cs) =
     (if c = closer \<and> starts_with [CHR 39] cs then Some (n + 2)
      else oracle_quote_close closer (n + 1) cs)"

definition oracle_closer :: "char \<Rightarrow> char" where
  "oracle_closer opener =
     (if opener = CHR ''['' then CHR '']'' else if opener = CHR ''{'' then CHR ''}''
      else if opener = CHR ''('' then CHR '')'' else if opener = CHR ''<'' then CHR ''>'' else opener)"

definition oracle_quote_after :: "nat \<Rightarrow> string \<Rightarrow> nat option" where
  "oracle_quote_after n rest =
     (case rest of
        q # opener # cs \<Rightarrow>
          if q \<noteq> CHR 39 \<or> is_whitespace opener then None
          else oracle_quote_close (oracle_closer opener) (n + 2) cs
      | _ \<Rightarrow> None)"

definition oracle_alternative_quote_len :: "char \<Rightarrow> string \<Rightarrow> nat option" where
  "oracle_alternative_quote_len ch s =
     (if ch = CHR ''n'' \<or> ch = CHR ''N'' then
        (case s of c # cs \<Rightarrow> if c = CHR ''q'' \<or> c = CHR ''Q'' then oracle_quote_after 2 cs else None
         | [] \<Rightarrow> None)
      else oracle_quote_after 1 s)"

text \<open>\<^verbatim>\<open>dollar_quote_is_closed\<close> slides a window over the text: the delimiter occurs in it.\<close>

definition dollar_quote_is_closed :: "string \<Rightarrow> string \<Rightarrow> bool" where
  "dollar_quote_is_closed s delimiter = str_contains delimiter s"

definition dollar_quote_delimiter :: "string \<Rightarrow> string option" where
  "dollar_quote_delimiter s =
     (if starts_with ''$'' s
      then (if dollar_quote_is_closed (drop 1 s) ''$$'' then Some ''$$'' else None)
      else
        (let tag = takeWhile (\<lambda>c. is_ascii_alphanumeric c \<or> c = CHR ''_'') s;
             rest = dropWhile (\<lambda>c. is_ascii_alphanumeric c \<or> c = CHR ''_'') s;
             delimiter = ''$'' @ tag @ ''$''
         in if tag = [] \<or> is_ascii_digit (hd tag) \<or> \<not> starts_with ''$'' rest then None
            else if dollar_quote_is_closed (drop (length delimiter - 1) rest) delimiter then Some delimiter
            else None))"

datatype scan_mode = Plain | Line | Block | SingleQ | DoubleQ | BacktickQ | DollarQ string

text \<open>
  One pass of the loop of \<^verbatim>\<open>strip_sql_comments_and_literals_with_metadata\<close> at the character \<open>c\<close> with
  the text \<open>cs\<close> after it: what it writes, whether it met an executable comment, the next mode, the
  next \<^verbatim>\<open>previous_code_char\<close>, and how many characters of \<open>cs\<close> it consumes as well.
\<close>

type_synonym strip_result = "string \<times> bool \<times> scan_mode \<times> char option \<times> nat"

definition quoted_step :: "scan_mode \<Rightarrow> char \<Rightarrow> char option \<Rightarrow> char \<Rightarrow> string \<Rightarrow> strip_result" where
  "quoted_step mode q prev c cs =
     (if c = q then
        (if starts_with [q] cs then ('' '', False, mode, prev, 1) else ('' '', False, Plain, prev, 0))
      else ('' '', False, mode, prev, 0))"

definition oracle_quote_at :: "char option \<Rightarrow> char \<Rightarrow> string \<Rightarrow> nat option" where
  "oracle_quote_at prev c cs =
     (if c \<in> {CHR ''q'', CHR ''Q'', CHR ''n'', CHR ''N''} \<and>
         \<not> (case prev of Some p \<Rightarrow> is_oracle_identifier_char p | None \<Rightarrow> False)
      then oracle_alternative_quote_len c cs else None)"

definition dollar_quote_at :: "char option \<Rightarrow> char \<Rightarrow> string \<Rightarrow> string option" where
  "dollar_quote_at prev c cs =
     (if c = CHR ''$'' \<and> \<not> (case prev of Some p \<Rightarrow> is_identifier_char p | None \<Rightarrow> False)
      then dollar_quote_delimiter cs else None)"

definition plain_step :: "bool \<Rightarrow> bool \<Rightarrow> char option \<Rightarrow> char \<Rightarrow> string \<Rightarrow> strip_result" where
  "plain_step detect hash prev c cs =
     (if c = CHR ''-'' \<and> starts_with ''-'' cs then ([], False, Line, prev, 1)
      else if hash \<and> c = CHR ''#'' then ([], False, Line, prev, 0)
      else if c = CHR ''/'' \<and> starts_with ''*'' cs then
        ([], detect \<and> is_mysql_executable_comment_start (drop 1 cs), Block, prev, 1)
      else
        (case oracle_quote_at prev c cs of
           Some n \<Rightarrow> (replicate n (CHR '' ''), False, Plain, Some (CHR '' ''), n)
         | None \<Rightarrow>
             if c = CHR 39 then ('' '', False, SingleQ, Some (CHR '' ''), 0)
             else if c = CHR 34 then ('' '', False, DoubleQ, Some (CHR '' ''), 0)
             else if c = CHR 96 then ('' '', False, BacktickQ, Some (CHR '' ''), 0)
             else
               (case dollar_quote_at prev c cs of
                  Some d \<Rightarrow> ('' '', False, DollarQ d, Some (CHR '' ''), length (drop 1 d))
                | None \<Rightarrow> ([c], False, Plain, Some c, 0))))"

definition strip_step ::
  "bool \<Rightarrow> bool \<Rightarrow> scan_mode \<Rightarrow> char option \<Rightarrow> char \<Rightarrow> string \<Rightarrow> strip_result" where
  "strip_step detect hash m prev c cs =
     (case m of
        Line \<Rightarrow> if c = CHR 10 then ('' '', False, Plain, prev, 0) else ([], False, Line, prev, 0)
      | Block \<Rightarrow> if c = CHR ''*'' \<and> starts_with ''/'' cs then ('' '', False, Plain, prev, 1)
                else ([], False, Block, prev, 0)
      | SingleQ \<Rightarrow> quoted_step SingleQ (CHR 39) prev c cs
      | DoubleQ \<Rightarrow> quoted_step DoubleQ (CHR 34) prev c cs
      | BacktickQ \<Rightarrow> quoted_step BacktickQ (CHR 96) prev c cs
      | DollarQ d \<Rightarrow> if c = CHR ''$'' \<and> starts_with (drop 1 d) cs
                    then ('' '', False, Plain, prev, length (drop 1 d))
                    else ('' '', False, DollarQ d, prev, 0)
      | Plain \<Rightarrow> plain_step detect hash prev c cs)"

function strip_scan :: "bool \<Rightarrow> bool \<Rightarrow> scan_mode \<Rightarrow> char option \<Rightarrow> string \<Rightarrow> string \<times> bool" where
  "strip_scan detect hash m prev [] = ([], False)"
| "strip_scan detect hash m prev (c # cs) =
     (case strip_step detect hash m prev c cs of
        (out, e, m', prev', n) \<Rightarrow>
          (case strip_scan detect hash m' prev' (drop n cs) of (text, e') \<Rightarrow> (out @ text, e \<or> e')))"
  by pat_completeness auto
termination by (relation "measure (\<lambda>(_, _, _, _, s). length s)") auto

definition strip_sql_comments_and_literals_with_metadata :: "string \<Rightarrow> bool \<Rightarrow> bool \<Rightarrow> string \<times> bool" where
  "strip_sql_comments_and_literals_with_metadata sql detect hash = strip_scan detect hash Plain None sql"

definition strip_sql_comments_and_literals :: "string \<Rightarrow> string" where
  "strip_sql_comments_and_literals sql = fst (strip_sql_comments_and_literals_with_metadata sql False True)"

definition strip_sql_comments_and_literals_keeping_hash :: "string \<Rightarrow> string" where
  "strip_sql_comments_and_literals_keeping_hash sql =
     fst (strip_sql_comments_and_literals_with_metadata sql False False)"

section \<open>Lemmas\<close>

lemma subseq_drop_Cons: "subseq xs (drop n ys) \<Longrightarrow> subseq xs (c # ys)"
  by (meson list_emb_Cons subseq_order.order_trans suffix_drop suffix_imp_subseq)

abbreviation visible :: "string \<Rightarrow> string" where
  "visible s \<equiv> filter (\<lambda>c. c \<noteq> CHR '' '') s"

lemma plain_step_out:
  "plain_step detect hash prev c cs = (out, e, m', prev', n) \<Longrightarrow> visible out = [] \<or> out = [c] \<and> n = 0"
  unfolding plain_step_def by (auto split: if_split_asm option.split_asm)

lemma strip_step_out:
  "strip_step detect hash m prev c cs = (out, e, m', prev', n) \<Longrightarrow> visible out = [] \<or> out = [c] \<and> n = 0"
  by (cases m) (auto simp: strip_step_def quoted_step_def split: if_split_asm dest: plain_step_out)

lemma strip_scan_subseq: "subseq (visible (fst (strip_scan detect hash m prev s))) s"
proof (induction detect hash m prev s rule: strip_scan.induct)
  case (2 detect hash m prev c cs)
  obtain out e m' prev' n where st: "strip_step detect hash m prev c cs = (out, e, m', prev', n)"
    using prod_cases5 by blast
  with 2 [OF st [symmetric] refl refl refl] strip_step_out [OF st] show ?case
    by (auto simp: split_beta intro: subseq_drop_Cons)
qed simp

text \<open>
  A statement as a sequence of pieces: code, quoted literals (a quote inside is doubled), block
  comments and line comments that end with their line.
\<close>

datatype sql_piece =
    CodePiece string
  | LiteralPiece char string
  | BlockPiece string
  | LinePiece string string

fun piece_text :: "sql_piece \<Rightarrow> string" where
  "piece_text (CodePiece code) = code"
| "piece_text (LiteralPiece q body) = q # concat (map (\<lambda>c. if c = q then [q, q] else [c]) body) @ [q]"
| "piece_text (BlockPiece body) = ''/*'' @ body @ ''*/''"
| "piece_text (LinePiece marker body) = marker @ body @ [CHR 10]"

fun piece_stripped :: "sql_piece \<Rightarrow> string" where
  "piece_stripped (CodePiece code) = code"
| "piece_stripped (LiteralPiece q body) = replicate (length body + 2) (CHR '' '')"
| "piece_stripped (BlockPiece body) = '' ''"
| "piece_stripped (LinePiece marker body) = '' ''"

definition code_char :: "char \<Rightarrow> bool" where
  "code_char c \<longleftrightarrow> c \<notin> {CHR 39, CHR 34, CHR 96, CHR ''$'', CHR ''#''}"

fun piece_ok :: "sql_piece \<Rightarrow> bool" where
  "piece_ok (CodePiece code) \<longleftrightarrow>
     code \<noteq> [] \<and> list_all code_char code \<and> \<not> str_contains ''--'' code \<and> \<not> str_contains ''/*'' code"
| "piece_ok (LiteralPiece q body) \<longleftrightarrow> q \<in> {CHR 39, CHR 34, CHR 96}"
| "piece_ok (BlockPiece body) \<longleftrightarrow> \<not> str_contains ''*/'' body"
| "piece_ok (LinePiece marker body) \<longleftrightarrow> marker \<in> {''--'', ''#''} \<and> CHR 10 \<notin> set body"

text \<open>
  What may not stand directly after each other: two pieces of code are one, two literals with the same
  quote would be one with a doubled quote, code that ends in the letter q makes an Oracle literal
  of a single-quoted one, and a dash before two dashes would move the start of the comment.
\<close>

fun seam_ok :: "sql_piece \<Rightarrow> sql_piece \<Rightarrow> bool" where
  "seam_ok (CodePiece code) (CodePiece _) = False"
| "seam_ok (CodePiece code) (LiteralPiece q _) = (q = CHR 39 \<longrightarrow> last code \<notin> {CHR ''q'', CHR ''Q''})"
| "seam_ok (CodePiece code) (LinePiece marker _) = (marker = ''--'' \<longrightarrow> last code \<noteq> CHR ''-'')"
| "seam_ok (LiteralPiece q _) (LiteralPiece q' _) = (q \<noteq> q')"
| "seam_ok _ _ = True"

fun sql_pieces_ok :: "sql_piece list \<Rightarrow> bool" where
  "sql_pieces_ok [] = True"
| "sql_pieces_ok [x] = piece_ok x"
| "sql_pieces_ok (x # y # rest) \<longleftrightarrow> piece_ok x \<and> seam_ok x y \<and> sql_pieces_ok (y # rest)"

definition pieces_text :: "sql_piece list \<Rightarrow> string" where
  "pieces_text ps = concat (map piece_text ps)"

definition pieces_stripped :: "sql_piece list \<Rightarrow> string" where
  "pieces_stripped ps = concat (map piece_stripped ps)"

text \<open>One piece after the other. What follows a piece is only looked at up to two characters.\<close>

definition follows_code :: "string \<Rightarrow> string \<Rightarrow> bool" where
  "follows_code code rest \<longleftrightarrow>
     (rest = [] \<or> hd rest \<in> {CHR 39, CHR 34, CHR 96, CHR ''/'', CHR ''-'', CHR ''#''}) \<and>
     (starts_with [CHR 39] rest \<longrightarrow> last code \<notin> {CHR ''q'', CHR ''Q''}) \<and>
     (starts_with ''-'' rest \<longrightarrow> last code \<noteq> CHR ''-'')"

lemma oracle_quote_after_quote: "oracle_quote_after n rest \<noteq> None \<Longrightarrow> starts_with [CHR 39] rest"
  by (auto simp: oracle_quote_after_def split: list.splits if_splits)

lemma oracle_quote_none:
  assumes "list_all code_char cs" and "follows_code (c # cs) rest"
  shows "oracle_quote_at prev c (cs @ rest) = None"
proof (cases cs)
  case Nil
  have "\<not> starts_with [CHR 39] rest" if "c \<in> {CHR ''q'', CHR ''Q''}"
    using assms(2) that Nil by (auto simp: follows_code_def)
  then have "oracle_quote_after 1 rest = None" if "c \<in> {CHR ''q'', CHR ''Q''}"
    using that oracle_quote_after_quote by blast
  moreover have "\<not> (\<exists>d ds. rest = d # ds \<and> (d = CHR ''q'' \<or> d = CHR ''Q''))"
    using assms(2) by (auto simp: follows_code_def)
  ultimately show ?thesis
    using Nil by (auto simp: oracle_quote_at_def oracle_alternative_quote_len_def split: list.split)
next
  case (Cons d ds)
  then have "\<not> starts_with [CHR 39] (cs @ rest)" using assms(1) by (auto simp: code_char_def)
  then have here: "oracle_quote_after 1 (cs @ rest) = None" using oracle_quote_after_quote by blast
  have "\<not> starts_with [CHR 39] (ds @ rest)" if "d \<in> {CHR ''q'', CHR ''Q''}"
  proof (cases ds)
    case Nil
    then show ?thesis using assms(2) Cons that by (auto simp: follows_code_def)
  next
    case (Cons e es)
    then show ?thesis using assms(1) \<open>cs = d # ds\<close> by (auto simp: code_char_def)
  qed
  then have "oracle_quote_after 2 (ds @ rest) = None" if "d \<in> {CHR ''q'', CHR ''Q''}"
    using that oracle_quote_after_quote by blast
  then show ?thesis
    using here Cons by (auto simp: oracle_quote_at_def oracle_alternative_quote_len_def)
qed

lemma code_run:
  assumes "code \<noteq> []" and "list_all code_char code" and "\<not> str_contains ''--'' code"
    and "\<not> str_contains ''/*'' code" and "follows_code code rest"
  shows "strip_scan detect True Plain prev (code @ rest) =
     apfst ((@) code) (strip_scan detect True Plain (Some (last code)) rest)"
  using assms
proof (induction code arbitrary: prev)
  case (Cons c cs)
  have unquoted: "oracle_quote_at prev c (cs @ rest) = None" using Cons.prems by (intro oracle_quote_none) simp_all
  have dash: "\<not> (c = CHR ''-'' \<and> starts_with ''-'' (cs @ rest))"
    using Cons.prems(3,5) by (cases cs) (auto simp: str_contains_Cons follows_code_def)
  have slash: "\<not> (c = CHR ''/'' \<and> starts_with ''*'' (cs @ rest))"
    using Cons.prems(4,5) by (cases cs; cases rest) (auto simp: str_contains_Cons follows_code_def)
  have step: "plain_step detect True prev c (cs @ rest) = ([c], False, Plain, Some c, 0)"
    using Cons.prems(2) unquoted dash slash
    by (auto simp: plain_step_def code_char_def dollar_quote_at_def)
  show ?case
  proof (cases "cs = []")
    case True
    then show ?thesis using step by (simp add: strip_step_def split_beta apfst_def map_prod_def)
  next
    case False
    then have "follows_code cs rest" using Cons.prems(5) by (simp add: follows_code_def)
    then have "strip_scan detect True Plain (Some c) (cs @ rest) =
        apfst ((@) cs) (strip_scan detect True Plain (Some (last cs)) rest)"
      using Cons False by (simp add: str_contains_Cons)
    then show ?thesis using step False by (simp add: strip_step_def split_beta apfst_def map_prod_def)
  qed
qed simp

lemma quoted_run:
  assumes "\<not> starts_with [q] rest"
    and m: "\<And>c cs. strip_step detect hash m prev c cs = quoted_step m q prev c cs"
  shows "strip_scan detect hash m prev (concat (map (\<lambda>c. if c = q then [q, q] else [c]) body) @ q # rest) =
           apfst ((@) (replicate (length body + 1) (CHR '' ''))) (strip_scan detect hash Plain prev rest)"
proof (induction body)
  case Nil
  then show ?case using assms(1) by (simp add: m quoted_step_def split_beta apfst_def map_prod_def)
next
  case (Cons c body)
  then show ?case by (auto simp: m quoted_step_def split_beta apfst_def map_prod_def)
qed

lemma literal_run:
  assumes "q \<in> {CHR 39, CHR 34, CHR 96}" and "\<not> starts_with [q] rest"
  shows "strip_scan detect hash Plain prev (piece_text (LiteralPiece q body) @ rest) =
     apfst ((@) (piece_stripped (LiteralPiece q body))) (strip_scan detect hash Plain (Some (CHR '' '')) rest)"
proof -
  let ?enc = "concat (map (\<lambda>c. if c = q then [q, q] else [c]) body)"
  have "\<exists>m. plain_step detect hash prev q (?enc @ q # rest) = ('' '', False, m, Some (CHR '' ''), 0) \<and>
      (\<forall>c cs. strip_step detect hash m (Some (CHR '' '')) c cs = quoted_step m q (Some (CHR '' '')) c cs)"
    using assms(1) by (auto simp: plain_step_def oracle_quote_at_def strip_step_def)
  then obtain m where "plain_step detect hash prev q (?enc @ q # rest) = ('' '', False, m, Some (CHR '' ''), 0)"
    and "\<And>c cs. strip_step detect hash m (Some (CHR '' '')) c cs = quoted_step m q (Some (CHR '' '')) c cs"
    by blast
  then show ?thesis
    using quoted_run [OF assms(2), of detect hash m "Some (CHR '' '')" body]
    by (simp add: strip_step_def split_beta apfst_def map_prod_def)
qed

lemma block_rest:
  assumes "\<not> str_contains ''*/'' body"
  shows "strip_scan detect hash Block prev (body @ ''*/'' @ rest) = apfst ((@) '' '') (strip_scan detect hash Plain prev rest)"
  using assms
proof (induction body)
  case Nil
  then show ?case by (simp add: strip_step_def split_beta apfst_def map_prod_def)
next
  case (Cons c body)
  then have "\<not> (c = CHR ''*'' \<and> starts_with ''/'' (body @ ''*/'' @ rest))"
    by (cases body) (auto simp: str_contains_Cons)
  then show ?case using Cons by (auto simp: strip_step_def split_beta apfst_def map_prod_def str_contains_Cons)
qed

lemma line_rest:
  assumes "CHR 10 \<notin> set body"
  shows "strip_scan detect hash Line prev (body @ CHR 10 # rest) = apfst ((@) '' '') (strip_scan detect hash Plain prev rest)"
    and "strip_scan detect hash Line prev body = ([], False)"
  using assms by (induction body) (auto simp: strip_step_def split_beta apfst_def map_prod_def)

lemma comment_start:
  "strip_scan detect True Plain prev (''--'' @ rest) = strip_scan detect True Line prev rest"
  "strip_scan detect True Plain prev (''#'' @ rest) = strip_scan detect True Line prev rest"
  "fst (strip_scan detect hash Plain prev (''/*'' @ rest)) = fst (strip_scan detect hash Block prev rest)"
  by (simp_all add: strip_step_def plain_step_def split_beta)

text \<open>The pieces before some rest: a line comment without an end, or nothing.\<close>

definition open_comment :: "string \<Rightarrow> bool" where
  "open_comment rest \<longleftrightarrow> rest = [] \<or> starts_with ''#'' rest \<and> CHR 10 \<notin> set rest"

lemma open_comment_stripped: "open_comment rest \<Longrightarrow> fst (strip_scan detect True Plain prev rest) = []"
  using comment_start(2) [of detect prev "tl rest"] line_rest(2) [of "tl rest" detect True prev]
  by (cases rest) (auto simp: open_comment_def)

lemma follows_code_piece:
  assumes "seam_ok (CodePiece code) y" and "piece_ok y"
  shows "follows_code code (piece_text y @ rest)"
  using assms by (cases y) (auto simp: follows_code_def)

lemma follows_code_open: "open_comment rest \<Longrightarrow> follows_code code rest"
  by (cases rest) (auto simp: open_comment_def follows_code_def)

lemma literal_piece_follows:
  assumes "seam_ok (LiteralPiece q body) y" and "piece_ok y" and "q \<in> {CHR 39, CHR 34, CHR 96}"
  shows "\<not> starts_with [q] (piece_text y @ rest)"
  using assms by (cases y) (auto simp: code_char_def neq_Nil_conv)

lemma piece_run:
  assumes "piece_ok x"
    and "\<And>code. x = CodePiece code \<Longrightarrow> follows_code code rest"
    and "\<And>q body. x = LiteralPiece q body \<Longrightarrow> \<not> starts_with [q] rest"
    and "\<And>prev. fst (strip_scan detect True Plain prev rest) = stripped"
  shows "fst (strip_scan detect True Plain prev (piece_text x @ rest)) = piece_stripped x @ stripped"
proof (cases x)
  case (CodePiece code)
  then show ?thesis using assms code_run [of code rest detect prev] by simp
next
  case (LiteralPiece q body)
  then show ?thesis using assms literal_run [of q rest detect True prev body] by simp
next
  case (BlockPiece body)
  then show ?thesis
    using assms(1,4) comment_start(3) [of detect True prev "body @ ''*/'' @ rest"] block_rest [of body detect True prev rest] by simp
next
  case (LinePiece marker body)
  then show ?thesis
    using assms(1,4) line_rest(1) [of body detect True prev rest]
      comment_start(1,2) [of detect prev "body @ CHR 10 # rest"] by auto
qed

lemma pieces_run:
  assumes "sql_pieces_ok ps" and "open_comment rest"
  shows "fst (strip_scan detect True Plain prev (pieces_text ps @ rest)) = pieces_stripped ps"
  using assms(1)
proof (induction ps arbitrary: prev rule: sql_pieces_ok.induct)
  case 1
  then show ?case using open_comment_stripped [OF assms(2)] by (simp add: pieces_text_def pieces_stripped_def)
next
  case (2 x)
  have ok: "piece_ok x" using 2 by simp
  have open_rest: "\<not> starts_with [q] rest" if "q \<in> {CHR 39, CHR 34, CHR 96}" for q
    using assms(2) that by (cases rest) (auto simp: open_comment_def)
  have "fst (strip_scan detect True Plain prev (piece_text x @ rest)) = piece_stripped x @ []"
  proof (rule piece_run [OF ok follows_code_open [OF assms(2)]])
    show "\<not> starts_with [q] rest" if "x = LiteralPiece q body" for q body
      using ok that open_rest by simp
  qed (rule open_comment_stripped [OF assms(2)])
  then show ?case by (simp add: pieces_text_def pieces_stripped_def)
next
  case (3 x y ps)
  let ?rest = "piece_text y @ concat (map piece_text ps) @ rest"
  have y: "piece_ok y" using 3(2) by (cases ps) simp_all
  have "fst (strip_scan detect True Plain prev (piece_text x @ ?rest)) = piece_stripped x @ pieces_stripped (y # ps)"
  proof (rule piece_run)
    show "piece_ok x" using 3(2) by simp
    show "follows_code code ?rest" if "x = CodePiece code" for code
      using 3(2) y that by (intro follows_code_piece) simp_all
    show "\<not> starts_with [q] ?rest" if "x = LiteralPiece q body" for q body
      using 3(2) y that by (intro literal_piece_follows [of q body]) simp_all
    show "fst (strip_scan detect True Plain prev ?rest) = pieces_stripped (y # ps)" for prev
    proof -
      have "sql_pieces_ok (y # ps)" using 3(2) by simp
      from 3(1) [OF this] show ?thesis by (simp add: pieces_text_def)
    qed
  qed
  then show ?case by (simp add: pieces_text_def pieces_stripped_def)
qed

lemma plain_step_detect:
  "plain_step detect hash prev c cs = (out, e, m', prev', n) \<Longrightarrow>
     \<exists>e'. plain_step False hash prev c cs = (out, e', m', prev', n)"
  unfolding plain_step_def by (auto split: if_split_asm option.split_asm)

lemma strip_step_detect:
  "strip_step detect hash m prev c cs = (out, e, m', prev', n) \<Longrightarrow>
     \<exists>e'. strip_step False hash m prev c cs = (out, e', m', prev', n)"
  by (cases m) (simp_all add: strip_step_def plain_step_detect)

lemma strip_scan_fst_detect: "fst (strip_scan detect hash m prev s) = fst (strip_scan False hash m prev s)"
proof (induction detect hash m prev s rule: strip_scan.induct)
  case (2 detect hash m prev c cs)
  obtain out e m' prev' n where st: "strip_step detect hash m prev c cs = (out, e, m', prev', n)"
    using prod_cases5 by blast
  obtain e' where "strip_step False hash m prev c cs = (out, e', m', prev', n)"
    using strip_step_detect [OF st] by blast
  then show ?case using st 2 [OF st [symmetric] refl refl refl] by (simp add: split_beta)
qed simp

lemma strip_pieces:
  assumes "sql_pieces_ok ps" and "open_comment rest"
  shows "strip_sql_comments_and_literals (pieces_text ps @ rest) = pieces_stripped ps"
  using pieces_run [OF assms]
  by (simp add: strip_sql_comments_and_literals_def strip_sql_comments_and_literals_with_metadata_def)

text \<open>Executable comments are only reported where they are looked for.\<close>

lemma strip_scan_undetected: "\<not> snd (strip_scan False hash m prev s)"
proof (induction "False" hash m prev s rule: strip_scan.induct)
  case (2 hash m prev c cs)
  obtain out e m' prev' n where st: "strip_step False hash m prev c cs = (out, e, m', prev', n)"
    using prod_cases5 by blast
  then have "\<not> e"
    by (cases m) (auto simp: strip_step_def quoted_step_def plain_step_def split: if_splits option.splits)
  then show ?case using st 2 [OF st [symmetric] refl refl refl] by (simp add: split_beta)
qed simp

section \<open>Properties\<close>

text \<open>
  C37. Stripping shows nothing that is not in the text: apart from blanks its result is a subsequence
  of the statement. And it finds the pieces of a statement: of a text put together from code, quoted
  literals with doubled quotes inside, block comments and line comments, the code is left exactly as
  it is, a literal becomes one blank for each character and for the two quotes whatever it contains,
  a comment becomes one blank, and a last line comment that starts with \<^verbatim>\<open>#\<close> and is not ended
  disappears. Code here has no quote, no dollar sign, no \<^verbatim>\<open>#\<close>, no two dashes in a row and no \<^verbatim>\<open>/*\<close>, and
  neither ends in the letter q before a single quote nor in a dash before two dashes.
\<close>

theorem strip_hides_literals_and_keeps_code:
  "subseq (visible (strip_sql_comments_and_literals sql)) sql \<and>
   (sql_pieces_ok ps \<and> open_comment rest \<longrightarrow>
      strip_sql_comments_and_literals (pieces_text ps @ rest) = pieces_stripped ps)"
  using strip_scan_subseq [of False True Plain None sql] strip_pieces [of ps rest]
  by (simp add: strip_sql_comments_and_literals_def strip_sql_comments_and_literals_with_metadata_def)

theorem strip_hides_literals_and_keeps_code_witness:
  "strip_sql_comments_and_literals (''SELECT a-1/2 '' @ CHR 39 # ''DROP'' @ CHR 39 # ''/*DELETE*/ FROM t#UPDATE'') =
     ''SELECT a-1/2         FROM t''"
proof -
  let ?ps = "[CodePiece ''SELECT a-1/2 '', LiteralPiece (CHR 39) ''DROP'', BlockPiece ''DELETE'', CodePiece '' FROM t'']"
  have ok: "sql_pieces_ok ?ps" by code_simp
  have rest: "open_comment ''#UPDATE''" by (simp add: open_comment_def)
  have joined: "pieces_text ?ps @ ''#UPDATE'' = ''SELECT a-1/2 '' @ CHR 39 # ''DROP'' @ CHR 39 # ''/*DELETE*/ FROM t#UPDATE''"
    by (simp add: pieces_text_def)
  have stripped: "pieces_stripped ?ps = ''SELECT a-1/2         FROM t''" by code_simp
  show ?thesis
    using strip_hides_literals_and_keeps_code [of "[]" ?ps "''#UPDATE''"] ok rest unfolding joined stripped by blast
qed

text \<open>
  Two literals the scanner misreads. The length of an Oracle alternative-quoted literal includes
  its introducer, which was already read, so the character after the literal is swallowed: here the
  opening quote of an alias, which turns the rest of the statement into a literal. And a tagged
  dollar-quoted literal whose body is shorter than its tag is not recognised as closed, so its text
  is scanned as code.
\<close>

theorem misread_literals:
  "strip_sql_comments_and_literals
     (''SELECT q'' @ [CHR 39] @ ''[a]'' @ [CHR 39, CHR 34] @ ''x'' @ [CHR 34] @ '' FROM t; DROP TABLE t'')
     = ''SELECT       x'' @ replicate 22 (CHR '' '') \<and>
   strip_sql_comments_and_literals ''SELECT $tag$x$tag$'' = ''SELECT $tag$x$tag$''"
  by code_simp

end
