(* ===== verification/Json_Value.thy ===== *)
theory Json_Value
  imports Dbx_Prelude
begin

text \<open>
  \<^verbatim>\<open>serde_json::Value\<close> as the sources use it. The crates build it with \<^verbatim>\<open>arbitrary_precision\<close>, so a
  number is its decimal text, and with \<^verbatim>\<open>preserve_order\<close>, so an object is the list of its entries.
  Printing and parsing JSON text, and derived \<^verbatim>\<open>Deserialize\<close> code, belong to the library: they are
  arguments of the operations that call them.
\<close>

datatype json =
    JNull
  | JBool bool
  | JNumber string
  | JString string
  | JArray "json list"
  | JObject "(string \<times> json) list"

definition json_get :: "string \<Rightarrow> json \<Rightarrow> json option" where
  "json_get k v = (case v of JObject es \<Rightarrow> map_of es k | _ \<Rightarrow> None)"

definition json_as_str :: "json \<Rightarrow> string option" where
  "json_as_str v = (case v of JString s \<Rightarrow> Some s | _ \<Rightarrow> None)"

definition json_as_bool :: "json \<Rightarrow> bool option" where
  "json_as_bool v = (case v of JBool b \<Rightarrow> Some b | _ \<Rightarrow> None)"

definition json_as_i64 :: "json \<Rightarrow> int option" where
  "json_as_i64 v = (case v of JNumber s \<Rightarrow> parse_signed (2 ^ 63) s | _ \<Rightarrow> None)"

definition json_as_u64 :: "json \<Rightarrow> nat option" where
  "json_as_u64 v = (case v of JNumber s \<Rightarrow> parse_unsigned (2 ^ 64) s | _ \<Rightarrow> None)"

definition json_is_object :: "json \<Rightarrow> bool" where
  "json_is_object v = (case v of JObject _ \<Rightarrow> True | _ \<Rightarrow> False)"

text \<open>The conversions of \<^verbatim>\<open>json!\<close>: an absent option is \<^verbatim>\<open>null\<close>.\<close>

definition json_opt :: "('a \<Rightarrow> json) \<Rightarrow> 'a option \<Rightarrow> json" where
  "json_opt f v = (case v of None \<Rightarrow> JNull | Some x \<Rightarrow> f x)"

lemmas json_defs = json_get_def json_as_str_def json_as_bool_def json_as_i64_def json_as_u64_def
  json_is_object_def json_opt_def

end
