(* ===== verification/Write_Sql.thy ===== *)
theory Write_Sql
  imports Sql_Strip Json_Value
begin

text \<open>
  Classification of one SQL statement as a read or a write
  (\<^verbatim>\<open>crates/dbx-sql-core/src/query_execution_sql.rs\<close>): keyword scans over the text without comments
  and literals. The source scans UTF-8 bytes; every comparison is with an ASCII byte, so scanning
  characters gives the same answers.
\<close>

type_synonym database_type = string

section \<open>Keyword scans\<close>

definition is_identifier_byte :: "char option \<Rightarrow> bool" where
  "is_identifier_byte b = (case b of Some c \<Rightarrow> is_ascii_alphanumeric c \<or> c = CHR ''_'' | None \<Rightarrow> False)"

definition first_char :: "string \<Rightarrow> char option" where
  "first_char s = (case s of [] \<Rightarrow> None | c # _ \<Rightarrow> Some c)"

definition dangerous_sql_keywords :: "string list" where
  "dangerous_sql_keywords =
     [''drop'', ''delete'', ''truncate'', ''alter'', ''update'', ''merge'', ''replace'', ''insert'', ''create'']"

definition write_verbs_with_scalar_function_forms :: "string list" where
  "write_verbs_with_scalar_function_forms = [''replace'', ''insert'']"

definition starts_with_parenthesis :: "string \<Rightarrow> bool" where
  "starts_with_parenthesis rest = (first_char (dropWhile is_ascii_whitespace rest) = Some (CHR ''(''))"

text \<open>The body of the loop of \<^verbatim>\<open>contains_dangerous_sql_verb\<close>, for the text after the verb.\<close>

definition verb_counts :: "bool \<Rightarrow> string \<Rightarrow> bool" where
  "verb_counts allows_function_form rest =
     (case rest of
        [] \<Rightarrow> True
      | c # _ \<Rightarrow>
          if c = CHR ''('' \<and> allows_function_form then False
          else if is_identifier_byte (Some c) then False
          else \<not> (allows_function_form \<and> is_ascii_whitespace c \<and> starts_with_parenthesis rest))"

fun verb_scan :: "bool \<Rightarrow> string \<Rightarrow> char option \<Rightarrow> string \<Rightarrow> bool" where
  "verb_scan allows keyword prev [] = (keyword = [] \<and> \<not> is_identifier_byte prev \<and> verb_counts allows [])"
| "verb_scan allows keyword prev (c # cs) =
     (starts_with keyword (c # cs) \<and> \<not> is_identifier_byte prev \<and>
        verb_counts allows (drop (length keyword) (c # cs))
      \<or> verb_scan allows keyword (Some c) cs)"

definition contains_dangerous_sql_verb :: "string \<Rightarrow> string \<Rightarrow> bool" where
  "contains_dangerous_sql_verb source keyword =
     (if keyword = [] \<or> length source < length keyword then False
      else verb_scan (keyword \<in> set write_verbs_with_scalar_function_forms) keyword None source)"

definition contains_dangerous_sql_keyword :: "string \<Rightarrow> bool" where
  "contains_dangerous_sql_keyword sql =
     (let source = to_lowercase (strip_sql_comments_and_literals sql)
      in list_ex (contains_dangerous_sql_verb source) dangerous_sql_keywords)"

fun word_scan :: "string \<Rightarrow> char option \<Rightarrow> string \<Rightarrow> bool" where
  "word_scan word prev [] = (word = [] \<and> \<not> is_identifier_byte prev)"
| "word_scan word prev (c # cs) =
     (starts_with word (c # cs) \<and> \<not> is_identifier_byte prev \<and>
        \<not> is_identifier_byte (first_char (drop (length word) (c # cs)))
      \<or> word_scan word (Some c) cs)"

definition contains_word :: "string \<Rightarrow> string \<Rightarrow> bool" where
  "contains_word source word =
     (if word = [] \<or> length source < length word then False else word_scan word None source)"

definition starts_with_keyword :: "string \<Rightarrow> string \<Rightarrow> bool" where
  "starts_with_keyword upper keyword \<longleftrightarrow>
     starts_with keyword upper \<and>
     (case drop (length keyword) upper of [] \<Rightarrow> True | c # _ \<Rightarrow> \<not> is_ascii_alphanumeric c)"

fun keyword_sequence_scan :: "string \<Rightarrow> string \<Rightarrow> bool \<Rightarrow> string list \<Rightarrow> bool" where
  "keyword_sequence_scan first second previous_matches [] = False"
| "keyword_sequence_scan first second previous_matches (w # ws) =
     (previous_matches \<and> eq_ignore_ascii_case w second \<or>
      keyword_sequence_scan first second (eq_ignore_ascii_case w first) ws)"

definition contains_keyword_sequence :: "string \<Rightarrow> string \<Rightarrow> string \<Rightarrow> bool" where
  "contains_keyword_sequence sql first second =
     keyword_sequence_scan first second False
       (filter (\<lambda>w. w \<noteq> []) (split_pred (\<lambda>c. \<not> is_ascii_alphanumeric c \<and> c \<noteq> CHR ''_'') sql))"

section \<open>Statements\<close>

definition read_sql_keywords :: "string list" where
  "read_sql_keywords = [''SELECT'', ''WITH'', ''SHOW'', ''DESCRIBE'', ''DESC'', ''EXPLAIN'', ''FROM'']"

definition safe_read_pragma_names :: "string list" where
  "safe_read_pragma_names = [''TABLE_INFO'', ''TABLE_XINFO'', ''INDEX_LIST'', ''INDEX_INFO'',
     ''FOREIGN_KEY_LIST'', ''DATABASE_LIST'', ''COMPILE_OPTIONS'', ''DATA_VERSION'']"

definition is_safe_read_pragma :: "string \<Rightarrow> bool" where
  "is_safe_read_pragma upper =
     (let rest = (if starts_with ''PRAGMA'' upper then trim_start (drop 6 upper) else []);
          name = takeWhile (\<lambda>c. is_ascii_alphanumeric c \<or> c = CHR ''_'') rest;
          after_name = trim_start (drop (length name) rest)
      in if rest = [] then False
         else if name \<notin> set safe_read_pragma_names then False
         else after_name = [] \<or> starts_with ''('' after_name)"

definition starts_with_show_create :: "string \<Rightarrow> bool" where
  "starts_with_show_create upper =
     (if \<not> starts_with ''SHOW'' upper then False
      else
        (let after_show = drop 4 upper in
         case after_show of
           c # _ \<Rightarrow> \<not> is_ascii_alphanumeric c \<and> starts_with_keyword (trim_start after_show) ''CREATE''
         | [] \<Rightarrow> starts_with_keyword (trim_start after_show) ''CREATE''))"

text \<open>
  The loop of \<^verbatim>\<open>select_contains_top_level_into\<close>: \<open>token\<close> holds the characters of the current word,
  \<open>depth\<close> the open parentheses.
\<close>

fun into_scan :: "string \<Rightarrow> nat \<Rightarrow> bool \<Rightarrow> string \<Rightarrow> bool" where
  "into_scan token depth saw_select [] = False"
| "into_scan token depth saw_select (c # cs) =
     (if is_ascii_alphanumeric c \<or> c = CHR ''_'' then into_scan (token @ [c]) depth saw_select cs
      else
        (let top = token \<noteq> [] \<and> depth = 0;
             saw' = (saw_select \<or> top \<and> token = ''SELECT'')
         in
         if top \<and> token \<noteq> ''SELECT'' \<and> saw_select \<and> token = ''INTO'' then True
         else into_scan []
           (if c = CHR ''('' then depth + 1 else if c = CHR '')'' then depth - 1 else depth) saw' cs))"

definition select_contains_top_level_into :: "string \<Rightarrow> bool" where
  "select_contains_top_level_into upper = into_scan [] 0 False (upper @ '' '')"

definition is_write_sql_statement :: "string \<Rightarrow> bool \<Rightarrow> bool \<Rightarrow> bool \<Rightarrow> bool" where
  "is_write_sql_statement sql detect_mysql_executable_comments detect_select_into allow_mysql_checksum =
     (case strip_sql_comments_and_literals_with_metadata sql detect_mysql_executable_comments True of
        (cleaned, has_mysql_executable_comment) \<Rightarrow>
          if has_mysql_executable_comment then True
          else
            (let trimmed = trim_start cleaned in
             if trimmed = [] then False
             else
               (let upper = to_uppercase trimmed;
                    starts_with_read =
                      (list_ex (starts_with_keyword upper) read_sql_keywords \<or>
                       allow_mysql_checksum \<and> starts_with_keyword upper ''CHECKSUM TABLE'')
                in
                if \<not> starts_with_read \<and> starts_with_keyword upper ''PRAGMA'' then \<not> is_safe_read_pragma upper
                else if starts_with_show_create upper then False
                else if detect_select_into \<and> starts_with_keyword upper ''SELECT'' \<and>
                        select_contains_top_level_into upper then True
                else \<not> starts_with_read \<or> contains_dangerous_sql_keyword sql)))"

section \<open>Other gates built on the scans\<close>

definition has_extra_statement_after_semicolon :: "string \<Rightarrow> bool" where
  "has_extra_statement_after_semicolon sql =
     list_ex (\<lambda>part. trim part \<noteq> []) (drop 1 (split_on (CHR '';'') (strip_sql_comments_and_literals sql)))"

definition strip_trailing_semicolons :: "string \<Rightarrow> string" where
  "strip_trailing_semicolons sql = trim_end (trim_end_matches (CHR '';'') (trim_end sql))"

definition starts_with_explain_keyword_boundary :: "string \<Rightarrow> string \<Rightarrow> bool" where
  "starts_with_explain_keyword_boundary source keyword =
     (if \<not> starts_with keyword source then False
      else (case drop (length keyword) source of
              [] \<Rightarrow> True
            | c # _ \<Rightarrow>
                if is_ascii_alphanumeric c \<or> c = CHR ''_'' \<or> c = CHR ''$'' then False else is_ascii c))"

definition is_safe_explain_source :: "string \<Rightarrow> bool" where
  "is_safe_explain_source sql =
     list_ex (starts_with_explain_keyword_boundary (to_lowercase (trim_start (strip_sql_comments sql))))
       [''select'', ''with'', ''table'', ''values'']"

definition is_safe_oracle_explain_dml_source :: "string \<Rightarrow> bool" where
  "is_safe_oracle_explain_dml_source sql =
     list_ex (starts_with_keyword (to_ascii_uppercase (trim_start (strip_sql_comments_and_literals sql))))
       [''INSERT'', ''UPDATE'', ''DELETE'', ''MERGE'']"

text \<open>\<open>is_safe_db2_explain_sql\<close> runs the third-party SQL tokenizer and is an argument.\<close>

definition is_safe_explain_sql_for_database ::
  "(string \<Rightarrow> bool) \<Rightarrow> string \<Rightarrow> database_type option \<Rightarrow> bool" where
  "is_safe_explain_sql_for_database is_safe_db2_explain_sql sql db =
     (if db = Some ''Db2'' then is_safe_db2_explain_sql sql
      else
        (let source = strip_trailing_semicolons (trim sql) in
         if source = [] \<or> has_extra_statement_after_semicolon source then False
         else if db = Some ''Oracle'' \<and> is_safe_oracle_explain_dml_source source then True
         else is_safe_explain_source source \<and> \<not> contains_dangerous_sql_keyword source))"

definition is_safe_dameng_autotrace_sql :: "string \<Rightarrow> bool" where
  "is_safe_dameng_autotrace_sql sql =
     (let source = strip_trailing_semicolons (trim sql) in
      if source = [] \<or> has_extra_statement_after_semicolon source then False
      else is_safe_explain_source source \<and> \<not> contains_dangerous_sql_keyword source)"

definition mysql_statement_opens_explicit_transaction :: "string \<Rightarrow> bool" where
  "mysql_statement_opens_explicit_transaction sql =
     (let parts = split_on (CHR '';'') (strip_sql_comments sql);
          statement = trim (hd parts)
      in if statement = [] \<or> list_ex (\<lambda>part. trim part \<noteq> []) (tl parts) then False
         else
           (case split_whitespace (to_ascii_uppercase statement) of
              [] \<Rightarrow> False
            | t # ts \<Rightarrow>
                if t = ''BEGIN'' then ts = [] \<or> hd ts = ''WORK''
                else if t = ''START'' then ts \<noteq> [] \<and> hd ts = ''TRANSACTION''
                else False))"

definition is_sqlserver_plan_capture_set :: "string \<Rightarrow> bool" where
  "is_sqlserver_plan_capture_set sql =
     (let tokens = map (\<lambda>p. to_ascii_uppercase (trim_end_matches (CHR '';'') p))
                     (split_whitespace (strip_sql_comments sql))
      in tokens \<in> {[''SET'', ''SHOWPLAN_XML'', ''ON''], [''SET'', ''SHOWPLAN_XML'', ''OFF''],
                   [''SET'', ''STATISTICS'', ''XML'', ''ON''], [''SET'', ''STATISTICS'', ''XML'', ''OFF'']})"

definition is_mysql_compatible_database :: "database_type \<Rightarrow> bool" where
  "is_mysql_compatible_database db \<longleftrightarrow>
     db \<in> set [''Mysql'', ''Doris'', ''StarRocks'', ''ManticoreSearch'', ''Goldendb'']"

definition is_postgresql_family_database :: "database_type \<Rightarrow> bool" where
  "is_postgresql_family_database db \<longleftrightarrow>
     db \<in> set [''Postgres'', ''Redshift'', ''Gaussdb'', ''OpenGauss'', ''Kingbase'', ''Highgo'', ''Uxdb'',
               ''Vastbase'', ''Gbase8c'', ''Kwdb'']"

text \<open>\<open>contains_unquoted_into\<close> is \<^verbatim>\<open>contains_unquoted_keyword\<close> for \<^verbatim>\<open>INTO\<close>, the third-party tokenizer.\<close>

definition has_dialect_specific_write_statement ::
  "(database_type \<Rightarrow> string \<Rightarrow> bool) \<Rightarrow> string \<Rightarrow> database_type \<Rightarrow> bool" where
  "has_dialect_specific_write_statement contains_unquoted_into sql db =
     (if is_mysql_compatible_database db then
        (case strip_sql_comments_and_literals_with_metadata sql True True of
           (cleaned, has_executable_comment) \<Rightarrow>
             has_executable_comment \<or> contains_keyword_sequence cleaned ''INTO'' ''OUTFILE'' \<or>
             contains_keyword_sequence cleaned ''INTO'' ''DUMPFILE'')
      else if is_postgresql_family_database db \<or> db = ''SqlServer'' then contains_unquoted_into db sql
      else False)"

section \<open>Stores that do not speak SQL\<close>

definition first_nonblank_line :: "string \<Rightarrow> string option" where
  "first_nonblank_line source = find (\<lambda>line. trim line \<noteq> []) (str_lines source)"

definition classify_dynamodb_statement_write :: "string \<Rightarrow> bool option" where
  "classify_dynamodb_statement_write source =
     (case first_nonblank_line source of
        None \<Rightarrow> None
      | Some line \<Rightarrow>
          (let header = to_ascii_uppercase (trim line) in
           if header \<in> set [''DBX DYNAMODB SCAN'', ''DBX DYNAMODB QUERY / SCAN''] then Some False
           else if header \<in> set [''DBX DYNAMODB INSERT ITEM'', ''DBX DYNAMODB PUT ITEM'',
                                 ''DBX DYNAMODB DELETE ITEM''] then Some True
           else if starts_with ''DBX DYNAMODB'' header then Some True
           else None))"

datatype salesforce_statement_risk = SfRead | ScopedWrite | OpaqueWrite

definition nonblank_member :: "string \<Rightarrow> json \<Rightarrow> bool" where
  "nonblank_member key body =
     (case Option.bind (json_get key body) json_as_str of Some v \<Rightarrow> trim v \<noteq> [] | None \<Rightarrow> False)"

definition salesforce_dml_is_scoped :: "(string \<Rightarrow> json option) \<Rightarrow> string \<Rightarrow> bool" where
  "salesforce_dml_is_scoped json_from_str source =
     (case find_sub ''{'' source of
        None \<Rightarrow> False
      | Some start \<Rightarrow>
          (case json_from_str (drop start source) of
             None \<Rightarrow> False
           | Some body \<Rightarrow>
               if \<not> nonblank_member ''object'' body then False
               else
                 (case map_option to_ascii_lowercase (Option.bind (json_get ''op'' body) json_as_str) of
                    Some m \<Rightarrow>
                      if m = ''insert'' then True
                      else if m = ''update'' \<or> m = ''delete'' then nonblank_member ''id'' body
                      else False
                  | None \<Rightarrow> False)))"

definition classify_salesforce_statement_risk ::
  "(string \<Rightarrow> json option) \<Rightarrow> string \<Rightarrow> salesforce_statement_risk" where
  "classify_salesforce_statement_risk json_from_str source =
     (let header = trim (case first_nonblank_line source of Some l \<Rightarrow> l | None \<Rightarrow> []) in
      if starts_with ''DBX SALESFORCE'' (to_ascii_uppercase header)
      then (if salesforce_dml_is_scoped json_from_str source then ScopedWrite else OpaqueWrite)
      else
        (let first_word =
           (case find (\<lambda>t. t \<noteq> [])
              (split_pred (\<lambda>c. \<not> is_alphanumeric c \<and> c \<noteq> CHR ''_'') (strip_sql_comments source)) of
              Some t \<Rightarrow> t | None \<Rightarrow> [])
         in if to_ascii_uppercase first_word = ''SELECT'' then SfRead else OpaqueWrite))"

section \<open>Lemmas\<close>

lemma verb_scan_iff:
  "verb_scan allows keyword prev s \<longleftrightarrow>
     (\<exists>a b. s = a @ keyword @ b \<and> \<not> is_identifier_byte (if a = [] then prev else Some (last a)) \<and>
        verb_counts allows b)"
proof (induction s arbitrary: prev)
  case (Cons c cs)
  have last: "(if a = [] then Some c else Some (last a)) = Some (last (c # a))" for a by simp
  have here: "starts_with keyword (c # cs) \<and> \<not> is_identifier_byte prev \<and>
      verb_counts allows (drop (length keyword) (c # cs)) \<longleftrightarrow>
      (\<exists>b. c # cs = keyword @ b \<and> \<not> is_identifier_byte prev \<and> verb_counts allows b)"
    by (auto simp: starts_with_iff)
  show ?case unfolding verb_scan.simps Cons.IH ex_append_Cons last here by simp
qed auto

text \<open>A write verb as a word of its own, not called as a function where that form exists.\<close>

definition whole_verb :: "string \<Rightarrow> string \<Rightarrow> bool" where
  "whole_verb verb text \<longleftrightarrow>
     (\<exists>a b. text = a @ verb @ b \<and> (a = [] \<or> \<not> is_identifier_byte (Some (last a))) \<and>
        \<not> is_identifier_byte (first_char b) \<and>
        (verb \<in> set write_verbs_with_scalar_function_forms \<longrightarrow> \<not> starts_with_parenthesis b))"

lemma verb_counts_iff:
  "verb_counts allows b \<longleftrightarrow> \<not> is_identifier_byte (first_char b) \<and> (allows \<longrightarrow> \<not> starts_with_parenthesis b)"
  by (cases b) (auto simp: verb_counts_def first_char_def is_identifier_byte_def starts_with_parenthesis_def
      is_ascii_whitespace_def is_ascii_alphanumeric_def is_ascii_alphabetic_def is_ascii_upper_def
      is_ascii_lower_def is_ascii_digit_def char_code_def)

lemma contains_dangerous_sql_verb_iff:
  "verb \<noteq> [] \<Longrightarrow> contains_dangerous_sql_verb text verb \<longleftrightarrow> whole_verb verb text"
  by (auto simp: contains_dangerous_sql_verb_def verb_scan_iff whole_verb_def verb_counts_iff
      is_identifier_byte_def split: if_splits)

lemma dangerous_keywords_nonempty: "verb \<in> set dangerous_sql_keywords \<Longrightarrow> verb \<noteq> []"
  by (auto simp: dangerous_sql_keywords_def)

lemma contains_dangerous_sql_keyword_iff:
  "contains_dangerous_sql_keyword sql \<longleftrightarrow>
     list_ex (\<lambda>verb. whole_verb verb (to_lowercase (strip_sql_comments_and_literals sql))) dangerous_sql_keywords"
  unfolding contains_dangerous_sql_keyword_def Let_def list_ex_iff
  by (metis contains_dangerous_sql_verb_iff dangerous_keywords_nonempty)

lemma metadata_text:
  "fst (strip_sql_comments_and_literals_with_metadata sql detect True) = strip_sql_comments_and_literals sql"
  by (simp add: strip_sql_comments_and_literals_def strip_sql_comments_and_literals_with_metadata_def
      strip_scan_fst_detect [of detect])

lemma undetected: "\<not> snd (strip_sql_comments_and_literals_with_metadata sql False True)"
  unfolding strip_sql_comments_and_literals_with_metadata_def by (rule strip_scan_undetected)

lemma pragma_is_no_read:
  assumes "starts_with_keyword upper ''PRAGMA''"
  shows "\<not> list_ex (starts_with_keyword upper) read_sql_keywords" "\<not> starts_with_keyword upper ''CHECKSUM TABLE''"
    "\<not> starts_with_show_create upper"
proof -
  obtain rest where "upper = ''PRAGMA'' @ rest" using assms by (auto simp: starts_with_keyword_def starts_with_iff)
  then show "\<not> list_ex (starts_with_keyword upper) read_sql_keywords" "\<not> starts_with_keyword upper ''CHECKSUM TABLE''"
    "\<not> starts_with_show_create upper"
    by (auto simp: read_sql_keywords_def starts_with_keyword_def starts_with_show_create_def)
qed

lemma statement_scan_iff:
  "\<not> is_write_sql_statement sql detect select_into checksum \<longleftrightarrow>
   \<not> snd (strip_sql_comments_and_literals_with_metadata sql detect True) \<and>
   (let cleaned = strip_sql_comments_and_literals sql; upper = to_uppercase (trim_start cleaned) in
     trim_start cleaned = [] \<or> starts_with_show_create upper \<or>
     starts_with_keyword upper ''PRAGMA'' \<and> is_safe_read_pragma upper \<or>
     (list_ex (starts_with_keyword upper) read_sql_keywords \<or>
        checksum \<and> starts_with_keyword upper ''CHECKSUM TABLE'') \<and>
     \<not> (select_into \<and> starts_with_keyword upper ''SELECT'' \<and> select_contains_top_level_into upper) \<and>
     list_all (\<lambda>verb. \<not> whole_verb verb (to_lowercase cleaned)) dangerous_sql_keywords)"
proof -
  obtain cleaned e where md: "strip_sql_comments_and_literals_with_metadata sql detect True = (cleaned, e)"
    by fastforce
  then have cleaned: "strip_sql_comments_and_literals sql = cleaned" using metadata_text [of sql detect] by simp
  define upper where "upper = to_uppercase (trim_start cleaned)"
  have verbs: "contains_dangerous_sql_keyword sql \<longleftrightarrow>
      \<not> list_all (\<lambda>verb. \<not> whole_verb verb (to_lowercase cleaned)) dangerous_sql_keywords"
    by (simp add: contains_dangerous_sql_keyword_iff cleaned list_ex_iff list_all_iff)
  show ?thesis
    using pragma_is_no_read [of upper]
    by (cases "starts_with_keyword upper ''PRAGMA''")
      (auto simp: is_write_sql_statement_def md cleaned Let_def verbs upper_def [symmetric])
qed

lemma classified_by_stripped_text:
  assumes "strip_sql_comments_and_literals sql = strip_sql_comments_and_literals sql'"
  shows "is_write_sql_statement sql False select_into checksum = is_write_sql_statement sql' False select_into checksum"
proof -
  have "strip_sql_comments_and_literals_with_metadata t False True = (strip_sql_comments_and_literals t, False)" for t
    using metadata_text [of t False] undetected [of t] by (metis prod.collapse)
  then show ?thesis
    using assms by (simp add: is_write_sql_statement_def contains_dangerous_sql_keyword_def)
qed

section \<open>Properties\<close>



text \<open>
  What a literal contains never decides the classification: in a statement put together from pieces,
  another literal of the same length gives the same answer.
\<close>

theorem literal_content_is_irrelevant:
  assumes "sql_pieces_ok (ps @ LiteralPiece q body # qs)" and "sql_pieces_ok (ps @ LiteralPiece q body' # qs)"
    and "length body = length body'"
  shows "is_write_sql_statement (pieces_text (ps @ LiteralPiece q body # qs)) False select_into checksum =
         is_write_sql_statement (pieces_text (ps @ LiteralPiece q body' # qs)) False select_into checksum"
proof (rule classified_by_stripped_text)
  have "open_comment []" by (simp add: open_comment_def)
  then show "strip_sql_comments_and_literals (pieces_text (ps @ LiteralPiece q body # qs)) =
      strip_sql_comments_and_literals (pieces_text (ps @ LiteralPiece q body' # qs))"
    using strip_pieces [OF assms(1), of "[]"] strip_pieces [OF assms(2), of "[]"] assms(3)
    by (simp add: pieces_stripped_def)
qed

theorem literal_content_is_irrelevant_witness:
  "is_write_sql_statement (''SELECT '' @ CHR 39 # ''delete'' @ CHR 39 # '' FROM t'') False True False =
   is_write_sql_statement (''SELECT '' @ CHR 39 # ''benign'' @ CHR 39 # '' FROM t'') False True False"
proof -
  have "sql_pieces_ok ([CodePiece ''SELECT ''] @ LiteralPiece (CHR 39) ''delete'' # [CodePiece '' FROM t''])"
    "sql_pieces_ok ([CodePiece ''SELECT ''] @ LiteralPiece (CHR 39) ''benign'' # [CodePiece '' FROM t''])"
    by code_simp+
  from literal_content_is_irrelevant [OF this, of True False] show ?thesis by (simp add: pieces_text_def)
qed

text \<open>
  A statement with a \<^verbatim>\<open>#\<close> is classified by the text before it, if there is no line break after it.
\<close>

lemma hash_ends_the_scan:
  assumes "sql_pieces_ok ps" and "CHR 10 \<notin> set t"
  shows "is_write_sql_statement (pieces_text ps @ CHR ''#'' # t) False select_into checksum =
     is_write_sql_statement (pieces_text ps) False select_into checksum"
proof (rule classified_by_stripped_text)
  have "open_comment (CHR ''#'' # t)" "open_comment []" using assms(2) by (simp_all add: open_comment_def)
  then show "strip_sql_comments_and_literals (pieces_text ps @ CHR ''#'' # t) = strip_sql_comments_and_literals (pieces_text ps)"
    using strip_pieces [OF assms(1)] by (metis append_Nil2)
qed

text \<open>
  The scans read \<^verbatim>\<open>#\<close> as a comment and never read a backslash as an escape, in every dialect. So
  a data-modifying statement passes as a read when the verb follows a PostgreSQL \<^verbatim>\<open>#\<close> operator on the
  same line, or a MySQL literal that ends in an escaped quote.
\<close>

theorem write_hidden_from_the_scan:
  "\<not> is_write_sql_statement ''WITH x AS (SELECT 1 # 2) DELETE FROM t'' False False False \<and>
   \<not> is_write_sql_statement
       (''WITH x AS (SELECT '' @ [CHR 39, CHR 92, CHR 39, CHR 39] @ '') DELETE FROM t'') False False True \<and>
   is_write_sql_statement ''WITH x AS (SELECT 1 + 2) DELETE FROM t'' False False True"
  by code_simp

end
