(* ===== verification/Sql_Split.thy ===== *)
theory Sql_Split
  imports Write_Sql
begin

text \<open>
  The SQL script splitter (\<^verbatim>\<open>crates/dbx-sql-core/src/sql.rs\<close>): dialect profiles, the character
  automaton of \<^verbatim>\<open>SqlStatementSplitter\<close> and the functions that split a whole script. The recognisers
  of stored-routine blocks (MySQL, Oracle, HANA, Firebird, T-SQL), which decide whether a semicolon
  is inside a block, are the fields of an argument of type \<open>block_rules\<close>: the theorems hold for
  every choice of them. This theory is the scanner of \<^verbatim>\<open>push_chunk_with_control\<close> without its psql
  branch, which is dead when the profile has psql control commands switched off; theory
  \<open>Sql_Control\<close> adds that branch around it.
\<close>

section \<open>Dialect profiles\<close>

record sql_dialect_profile =
  supports_hash_line_comments :: bool
  supports_backtick_identifiers :: bool
  supports_nested_block_comments :: bool
  supports_backslash_escaped_quotes :: bool
  supports_postgres_escape_strings :: bool
  supports_oracle_q_quotes :: bool
  supports_oracle_plsql_blocks :: bool
  supports_oracle_style_routine_bodies :: bool
  supports_slash_line_block_delimiter :: bool
  supports_custom_delimiter_commands :: bool
  supports_mysql_routine_blocks :: bool
  supports_dollar_quoted_strings :: bool
  supports_postgres_dollar_quoted_routines :: bool
  supports_hana_script_blocks :: bool
  supports_firebird_routine_blocks :: bool
  supports_go_batch_separator :: bool
  keeps_sqlserver_module_batch_at_cursor :: bool
  keeps_sqlserver_control_flow_batches :: bool
  preserves_tdsql_leading_directives :: bool
  requires_whitespace_after_line_comment_dashes :: bool
  supports_psql_control_commands :: bool

definition default_profile :: sql_dialect_profile where
  "default_profile = \<lparr>
     supports_hash_line_comments = False, supports_backtick_identifiers = True,
     supports_nested_block_comments = False, supports_backslash_escaped_quotes = True,
     supports_postgres_escape_strings = False, supports_oracle_q_quotes = False,
     supports_oracle_plsql_blocks = False, supports_oracle_style_routine_bodies = False,
     supports_slash_line_block_delimiter = False, supports_custom_delimiter_commands = True,
     supports_mysql_routine_blocks = False, supports_dollar_quoted_strings = True,
     supports_postgres_dollar_quoted_routines = False, supports_hana_script_blocks = False,
     supports_firebird_routine_blocks = False, supports_go_batch_separator = False,
     keeps_sqlserver_module_batch_at_cursor = False, keeps_sqlserver_control_flow_batches = False,
     preserves_tdsql_leading_directives = False,
     requires_whitespace_after_line_comment_dashes = False, supports_psql_control_commands = False\<rparr>"

definition mysql_compatible_profile :: sql_dialect_profile where
  "mysql_compatible_profile = default_profile\<lparr>supports_hash_line_comments := True,
     supports_backslash_escaped_quotes := True, supports_mysql_routine_blocks := True,
     requires_whitespace_after_line_comment_dashes := True\<rparr>"

definition oracle_like_profile :: sql_dialect_profile where
  "oracle_like_profile = default_profile\<lparr>supports_backslash_escaped_quotes := False,
     supports_oracle_plsql_blocks := True, supports_oracle_q_quotes := True,
     supports_slash_line_block_delimiter := True\<rparr>"

definition postgres_family_profile :: sql_dialect_profile where
  "postgres_family_profile = default_profile\<lparr>supports_backslash_escaped_quotes := False,
     supports_nested_block_comments := True, supports_oracle_style_routine_bodies := True,
     supports_postgres_escape_strings := True, supports_slash_line_block_delimiter := True,
     supports_psql_control_commands := True\<rparr>"

definition gaussdb_profile :: sql_dialect_profile where
  "gaussdb_profile = oracle_like_profile\<lparr>supports_backslash_escaped_quotes := False,
     supports_nested_block_comments := True, supports_postgres_dollar_quoted_routines := True,
     supports_postgres_escape_strings := True, supports_psql_control_commands := True\<rparr>"

definition sql_server_profile :: sql_dialect_profile where
  "sql_server_profile = default_profile\<lparr>supports_go_batch_separator := True,
     keeps_sqlserver_module_batch_at_cursor := True, keeps_sqlserver_control_flow_batches := True,
     supports_nested_block_comments := True\<rparr>"

definition is_oracle_like_database :: "database_type \<Rightarrow> bool" where
  "is_oracle_like_database db \<longleftrightarrow>
     db \<in> set [''Oracle'', ''Dameng'', ''Gaussdb'', ''Yashandb'', ''Oscar'', ''OceanbaseOracle'', ''Xugu'',
               ''Argo'', ''Transwarp'']"

definition is_postgres_string_lexer_database :: "database_type \<Rightarrow> bool" where
  "is_postgres_string_lexer_database db \<longleftrightarrow>
     db \<in> set [''Vastbase'', ''Kingbase'', ''Highgo'', ''Uxdb'', ''Gbase8c'', ''Kwdb'']"

definition profile_for_database_type :: "database_type \<Rightarrow> sql_dialect_profile" where
  "profile_for_database_type db =
     (if db = ''Mysql'' then mysql_compatible_profile\<lparr>preserves_tdsql_leading_directives := True\<rparr>
      else if db = ''Gaussdb'' then gaussdb_profile
      else if db = ''Postgres'' \<or> db = ''OpenGauss'' then postgres_family_profile
      else if db = ''OceanbaseOracle'' then
        oracle_like_profile\<lparr>supports_backtick_identifiers := False,
          supports_dollar_quoted_strings := False, supports_custom_delimiter_commands := False\<rparr>
      else if is_oracle_like_database db then oracle_like_profile
      else if db = ''SqlServer'' then sql_server_profile
      else if db = ''Db2'' then default_profile\<lparr>supports_nested_block_comments := True\<rparr>
      else if db = ''ClickHouse'' then default_profile\<lparr>supports_nested_block_comments := True\<rparr>
      else if is_mysql_compatible_database db then mysql_compatible_profile
      else if db = ''SapHana'' then default_profile\<lparr>supports_hana_script_blocks := True\<rparr>
      else if db = ''Firebird'' then
        default_profile\<lparr>supports_backslash_escaped_quotes := False, supports_firebird_routine_blocks := True\<rparr>
      else if db = ''DuckDb'' then
        default_profile\<lparr>supports_backslash_escaped_quotes := False, supports_postgres_escape_strings := True\<rparr>
      else if is_postgres_string_lexer_database db then
        default_profile\<lparr>supports_backslash_escaped_quotes := False, supports_nested_block_comments := True,
          supports_postgres_escape_strings := True\<rparr>
      else if db = ''Jdbc'' \<or> db = ''Hive'' then
        default_profile\<lparr>supports_oracle_style_routine_bodies := True\<rparr>
      else default_profile)"

definition profile_for_compatibility :: "database_type \<Rightarrow> string option \<Rightarrow> sql_dialect_profile" where
  "profile_for_compatibility db mode =
     (if db = ''Kingbase'' then
        (let m = to_ascii_lowercase (trim (case mode of Some x \<Rightarrow> x | None \<Rightarrow> [])) in
         if m = ''mysql'' then mysql_compatible_profile
         else if m = ''sqlserver'' then sql_server_profile
         else if m \<in> set [''pg'', ''postgres'', ''postgresql''] then postgres_family_profile
         else gaussdb_profile)
      else if db = ''OpenGauss'' then
        (case mode of
           Some m \<Rightarrow> if eq_ignore_ascii_case (trim m) ''A'' then gaussdb_profile
                     else profile_for_database_type db
         | None \<Rightarrow> gaussdb_profile)
      else profile_for_database_type db)"

section \<open>Lexical helpers\<close>

definition dash_dash_starts_line_comment :: "sql_dialect_profile \<Rightarrow> char option \<Rightarrow> bool" where
  "dash_dash_starts_line_comment p after =
     (if \<not> requires_whitespace_after_line_comment_dashes p then True
      else (case after of None \<Rightarrow> True
            | Some c \<Rightarrow> is_whitespace c \<or> is_ascii_control c \<or> (128 \<le> char_code c \<and> char_code c < 160)))"

definition is_ascii_hexdigit :: "char \<Rightarrow> bool" where
  "is_ascii_hexdigit c \<longleftrightarrow> is_ascii_digit c \<or> 97 \<le> char_code c \<and> char_code c \<le> 102 \<or>
     65 \<le> char_code c \<and> char_code c \<le> 70"

definition ends_with_xml_entity_reference :: "string \<Rightarrow> bool" where
  "ends_with_xml_entity_reference buffer =
     (let r = rev buffer;
          word = rev (takeWhile is_ascii_alphanumeric r);
          before = dropWhile is_ascii_alphanumeric r;
          hash = starts_with ''#'' before;
          name = (if hash then CHR ''#'' # word else word);
          before' = (if hash then drop 1 before else before)
      in if \<not> starts_with ''&'' before' then False
         else if starts_with ''#x'' name \<or> starts_with ''#X'' name then
           drop 2 name \<noteq> [] \<and> list_all is_ascii_hexdigit (drop 2 name)
         else if starts_with ''#'' name then drop 1 name \<noteq> [] \<and> list_all is_ascii_digit (drop 1 name)
         else name \<in> set [''lt'', ''gt'', ''amp'', ''quot'', ''apos''])"

definition has_odd_trailing_backslashes :: "string \<Rightarrow> bool" where
  "has_odd_trailing_backslashes sql \<longleftrightarrow> odd (length (takeWhile (\<lambda>c. c = CHR 92) (rev sql)))"

definition is_identifier_continue_char :: "char \<Rightarrow> bool" where
  "is_identifier_continue_char c \<longleftrightarrow> is_alphanumeric c \<or> c = CHR ''_'' \<or> c = CHR ''$''"

definition continues_identifier :: "char option \<Rightarrow> bool" where
  "continues_identifier c = (case c of Some d \<Rightarrow> is_identifier_continue_char d | None \<Rightarrow> False)"

definition ends_with_escape_string_prefix :: "string \<Rightarrow> bool" where
  "ends_with_escape_string_prefix text =
     (case rev text of
        c # cs \<Rightarrow> (c = CHR ''E'' \<or> c = CHR ''e'') \<and> \<not> continues_identifier (first_char cs)
      | [] \<Rightarrow> False)"

definition ends_with_oracle_q_quote_prefix :: "string \<Rightarrow> bool" where
  "ends_with_oracle_q_quote_prefix text =
     (case rev text of
        c # cs \<Rightarrow>
          (c = CHR ''q'' \<or> c = CHR ''Q'') \<and>
          \<not> continues_identifier
              (if first_char cs = Some (CHR ''n'') \<or> first_char cs = Some (CHR ''N'')
               then first_char (drop 1 cs) else first_char cs)
      | [] \<Rightarrow> False)"

definition oracle_q_quote_closer :: "char \<Rightarrow> char option" where
  "oracle_q_quote_closer opening =
     (if opening = CHR ''['' then Some (CHR '']'')
      else if opening = CHR ''{'' then Some (CHR ''}'')
      else if opening = CHR ''('' then Some (CHR '')'')
      else if opening = CHR ''<'' then Some (CHR ''>'')
      else if opening \<in> {CHR 39, CHR '' '', CHR 9, CHR 10, CHR 13} then None
      else Some opening)"

definition dollar_quote_tag_at :: "string \<Rightarrow> string option" where
  "dollar_quote_tag_at s =
     (case s of
        CHR ''$'' # c # cs \<Rightarrow>
          if c = CHR ''$'' then Some ''$$''
          else if is_ascii_alphabetic c \<or> c = CHR ''_'' then
            (let tag = takeWhile (\<lambda>d. is_ascii_alphanumeric d \<or> d = CHR ''_'') cs in
             if starts_with ''$'' (drop (length tag) cs) then Some (CHR ''$'' # c # tag @ ''$'') else None)
          else None
      | _ \<Rightarrow> None)"

definition parse_delimiter_command :: "string \<Rightarrow> string option" where
  "parse_delimiter_command line0 =
     (let line = trim line0 in
      if eq_ignore_ascii_case line ''delimiter;'' then Some '';''
      else if length line > 10 \<and>
         (eq_ignore_ascii_case (take 10 line) ''delimiter '' \<or>
          eq_ignore_ascii_case (take 10 line) (''delimiter'' @ [CHR 9]))
      then (let r = trim (drop 10 line) in if r = [] then None else Some r)
      else None)"

text \<open>The loop of \<^verbatim>\<open>has_executable_sql_with_options\<close>.\<close>

fun executable_scan :: "sql_dialect_profile \<Rightarrow> bool \<Rightarrow> nat \<Rightarrow> char option \<Rightarrow> string \<Rightarrow> bool" where
  "executable_scan p in_line depth prev [] = False"
| "executable_scan p in_line depth prev (c # cs) =
     (if in_line then executable_scan p (c \<noteq> CHR 10) depth (Some c) cs
      else if depth > 0 then
        (if supports_nested_block_comments p \<and> prev = Some (CHR ''/'') \<and> c = CHR ''*''
         then executable_scan p False (depth + 1) None cs
         else executable_scan p False
           (if prev = Some (CHR ''*'') \<and> c = CHR ''/'' then depth - 1 else depth) (Some c) cs)
      else if c = CHR ''-'' \<and> starts_with ''-'' cs then executable_scan p True depth (Some c) cs
      else if supports_hash_line_comments p \<and> c = CHR ''#'' then executable_scan p True depth (Some c) cs
      else if c = CHR ''/'' \<and> starts_with ''*'' cs then
        (if starts_with ''!'' (drop 1 cs) \<or> starts_with ''M!'' (drop 1 cs) then True
         else executable_scan p False 1 None cs)
      else if \<not> is_whitespace c then True
      else executable_scan p False depth (Some c) cs)"

definition has_executable_sql_with_options :: "sql_dialect_profile \<Rightarrow> string \<Rightarrow> bool" where
  "has_executable_sql_with_options p statement = executable_scan p False 0 None statement"

section \<open>The splitter automaton\<close>

text \<open>
  The recognisers of routine blocks. \<open>sqlserver_boundary\<close> is the offset just after a closing
  \<^verbatim>\<open>END\<close>, so it is positive when it is given.
\<close>

record block_rules =
  starts_with_mysql_routine_block :: "string \<Rightarrow> bool"
  mysql_routine_block_is_complete :: "string \<Rightarrow> bool"
  oracle_keeps_block_together :: "sql_dialect_profile \<Rightarrow> string \<Rightarrow> bool"
  oracle_block_is_complete :: "string \<Rightarrow> bool"
  starts_with_hana_script_block :: "string \<Rightarrow> bool"
  hana_script_block_is_complete :: "string \<Rightarrow> bool"
  starts_with_firebird_routine_block :: "string \<Rightarrow> bool"
  firebird_routine_block_is_complete :: "string \<Rightarrow> bool"
  starts_sqlserver_control_flow_batch :: "string \<Rightarrow> bool"
  sqlserver_control_flow_batch_is_complete :: "string \<Rightarrow> bool"
  sqlserver_boundary :: "string \<Rightarrow> nat option"
  starts_with_postgres_dollar_quoted_routine_prefix :: "string \<Rightarrow> bool"

record sql_statement_splitter =
  sp_buffer :: string
  in_single_quote :: bool
  single_quote_escape_string :: bool
  in_double_quote :: bool
  in_backtick :: bool
  in_line_comment :: bool
  block_comment_depth :: nat
  dollar_quote_tag :: "string option"
  postgres_dollar_quoted_routine :: bool
  previous :: "char option"
  pending_mysql_line_comment_dashes :: bool
  q_awaiting_delimiter :: bool
  q_closer :: "char option"
  custom_delimiter :: "string option"

definition new_splitter :: sql_statement_splitter where
  "new_splitter = \<lparr>sp_buffer = [], in_single_quote = False, single_quote_escape_string = False,
     in_double_quote = False, in_backtick = False, in_line_comment = False, block_comment_depth = 0,
     dollar_quote_tag = None, postgres_dollar_quoted_routine = False, previous = None,
     pending_mysql_line_comment_dashes = False, q_awaiting_delimiter = False, q_closer = None,
     custom_delimiter = None\<rparr>"

definition push_char :: "char \<Rightarrow> sql_statement_splitter \<Rightarrow> sql_statement_splitter" where
  "push_char c st = st\<lparr>sp_buffer := sp_buffer st @ [c]\<rparr>"

definition push_prev :: "char \<Rightarrow> char option \<Rightarrow> sql_statement_splitter \<Rightarrow> sql_statement_splitter" where
  "push_prev c prev st = st\<lparr>sp_buffer := sp_buffer st @ [c], previous := prev\<rparr>"

definition statement_if_executable :: "sql_dialect_profile \<Rightarrow> string \<Rightarrow> string list" where
  "statement_if_executable p text = (if has_executable_sql_with_options p text then [text] else [])"

definition push_current_statement ::
  "sql_dialect_profile \<Rightarrow> sql_statement_splitter \<Rightarrow> sql_statement_splitter \<times> string list" where
  "push_current_statement p st =
     (st\<lparr>sp_buffer := [], postgres_dollar_quoted_routine := False, previous := None,
         pending_mysql_line_comment_dashes := False\<rparr>,
      statement_if_executable p (trim (sp_buffer st)))"

definition single_quote_backslash_escapes :: "sql_dialect_profile \<Rightarrow> sql_statement_splitter \<Rightarrow> bool" where
  "single_quote_backslash_escapes p st =
     (if in_single_quote st then single_quote_escape_string st else supports_backslash_escaped_quotes p)"

text \<open>The text up to and including the last newline, and the last line.\<close>

definition last_line :: "string \<Rightarrow> string" where
  "last_line s = rev (takeWhile (\<lambda>c. c \<noteq> CHR 10) (rev s))"

definition before_last_line :: "string \<Rightarrow> string" where
  "before_last_line s = take (length s - length (last_line s)) s"

definition on_delimiter_line :: "sql_dialect_profile \<Rightarrow> sql_statement_splitter \<Rightarrow> bool" where
  "on_delimiter_line p st =
     (let line = trim_start (last_line (sp_buffer st)) in
      length line \<ge> 9 \<and> eq_ignore_ascii_case (take 9 line) ''delimiter'' \<and>
      \<not> has_executable_sql_with_options p (trim (before_last_line (sp_buffer st))))"

text \<open>The boundary loop and the piecewise emission of a closed T-SQL batch.\<close>

function sqlserver_boundaries :: "block_rules \<Rightarrow> nat \<Rightarrow> string \<Rightarrow> nat list" where
  "sqlserver_boundaries rules cursor body =
     (case sqlserver_boundary rules (drop cursor body) of
        None \<Rightarrow> []
      | Some relative \<Rightarrow>
          if cursor + relative \<ge> length body \<or> relative = 0 then []
          else (cursor + relative) # sqlserver_boundaries rules (cursor + relative) body)"
  by pat_completeness auto
termination by (relation "measure (\<lambda>(_, cursor, body). length body - cursor)") auto

declare sqlserver_boundaries.simps [simp del]

fun emit_pieces ::
  "sql_dialect_profile \<Rightarrow> string \<Rightarrow> nat \<Rightarrow> nat list \<Rightarrow> sql_statement_splitter
     \<Rightarrow> sql_statement_splitter \<times> string list \<times> nat" where
  "emit_pieces p body piece_from [] st = (st, [], piece_from)"
| "emit_pieces p body piece_from (b # bs) st =
     (case push_current_statement p (st\<lparr>sp_buffer := take (b - piece_from) (drop piece_from body)\<rparr>) of
        (st', out) \<Rightarrow>
          (case emit_pieces p body b bs st' of (st'', out', from) \<Rightarrow> (st'', out @ out', from)))"

definition keeps_sqlserver_control_flow_batch ::
  "block_rules \<Rightarrow> sql_dialect_profile \<Rightarrow> string \<Rightarrow> bool" where
  "keeps_sqlserver_control_flow_batch rules p text \<longleftrightarrow>
     keeps_sqlserver_control_flow_batches p \<and> starts_sqlserver_control_flow_batch rules text"

definition close_sqlserver_batch ::
  "block_rules \<Rightarrow> sql_dialect_profile \<Rightarrow> sql_statement_splitter \<Rightarrow> sql_statement_splitter \<times> string list" where
  "close_sqlserver_batch rules p st =
     (let body = sp_buffer st;
          closed = push_char (CHR '';'') st
      in
      if \<not> sqlserver_control_flow_batch_is_complete rules (sp_buffer closed) then (closed, [])
      else
        (case sqlserver_boundaries rules 0 body of
           [] \<Rightarrow> push_current_statement p closed
         | bs \<Rightarrow>
             (case emit_pieces p body 0 bs closed of
                (st1, out, from) \<Rightarrow>
                  (let trailing = drop from body in
                   if trim trailing = [] then (st1\<lparr>sp_buffer := []\<rparr>, out)
                   else if keeps_sqlserver_control_flow_batch rules p trailing then
                     (let st2 = st1\<lparr>sp_buffer := trailing @ '';''\<rparr> in
                      if sqlserver_control_flow_batch_is_complete rules trailing
                      then (case push_current_statement p st2 of (st3, out') \<Rightarrow> (st3, out @ out'))
                      else (st2, out))
                   else
                     (case push_current_statement p (st1\<lparr>sp_buffer := trailing\<rparr>) of
                        (st3, out') \<Rightarrow> (st3, out @ out'))))))"

text \<open>A statement is kept open by a block recogniser and closed when it says the block is complete.\<close>

definition keep_or_close ::
  "sql_dialect_profile \<Rightarrow> (string \<Rightarrow> bool) \<Rightarrow> sql_statement_splitter \<Rightarrow> sql_statement_splitter \<times> string list" where
  "keep_or_close p complete st =
     (let st' = push_char (CHR '';'') st in
      if complete (sp_buffer st') then push_current_statement p st' else (st', []))"

definition semicolon ::
  "block_rules \<Rightarrow> sql_dialect_profile \<Rightarrow> sql_statement_splitter \<Rightarrow> sql_statement_splitter \<times> string list" where
  "semicolon rules p st =
     (let buffer = sp_buffer st in
      if ends_with_xml_entity_reference buffer then (push_char (CHR '';'') st, [])
      else if supports_custom_delimiter_commands p \<and> on_delimiter_line p st \<or> custom_delimiter st \<noteq> None
      then (push_char (CHR '';'') st, [])
      else if supports_mysql_routine_blocks p \<and> starts_with_mysql_routine_block rules buffer then
        (if mysql_routine_block_is_complete rules (buffer @ '';'') then push_current_statement p st
         else (push_char (CHR '';'') st, []))
      else if \<not> postgres_dollar_quoted_routine st \<and> oracle_keeps_block_together rules p buffer then
        keep_or_close p (oracle_block_is_complete rules) st
      else if supports_hana_script_blocks p \<and> starts_with_hana_script_block rules buffer then
        keep_or_close p (hana_script_block_is_complete rules) st
      else if supports_firebird_routine_blocks p \<and> starts_with_firebird_routine_block rules buffer then
        keep_or_close p (firebird_routine_block_is_complete rules) st
      else if keeps_sqlserver_control_flow_batch rules p buffer then close_sqlserver_batch rules p st
      else push_current_statement p st)"

definition plain_char_step ::
  "block_rules \<Rightarrow> sql_dialect_profile \<Rightarrow> sql_statement_splitter \<Rightarrow> char \<Rightarrow> sql_statement_splitter \<times> string list" where
  "plain_char_step rules p st c =
     (let buffer = sp_buffer st in
      if c = CHR 39 \<and> \<not> (in_double_quote st \<or> in_backtick st \<or>
           single_quote_backslash_escapes p st \<and> has_odd_trailing_backslashes buffer) then
        (push_char c (st\<lparr>in_single_quote := \<not> in_single_quote st,
           single_quote_escape_string := \<not> in_single_quote st \<and>
             (supports_backslash_escaped_quotes p \<or>
              supports_postgres_escape_strings p \<and> ends_with_escape_string_prefix buffer)\<rparr>), [])
      else if c = CHR 34 \<and> \<not> (in_single_quote st \<or> in_backtick st \<or>
           supports_backslash_escaped_quotes p \<and> has_odd_trailing_backslashes buffer) then
        (push_char c (st\<lparr>in_double_quote := \<not> in_double_quote st\<rparr>), [])
      else if c = CHR 96 \<and> supports_backtick_identifiers p \<and> \<not> in_single_quote st \<and> \<not> in_double_quote st then
        (push_char c (st\<lparr>in_backtick := \<not> in_backtick st\<rparr>), [])
      else if c = CHR '';'' \<and> \<not> in_single_quote st \<and> \<not> in_double_quote st \<and> \<not> in_backtick st then
        semicolon rules p st
      else (push_char c st, []))"

text \<open>Newline and custom-delimiter handling; the flag says that the loop goes on without recording \<open>c\<close>.\<close>

definition line_end_step ::
  "sql_dialect_profile \<Rightarrow> sql_statement_splitter \<Rightarrow> sql_statement_splitter \<times> string list \<times> bool" where
  "line_end_step p st =
     (let body = butlast (sp_buffer st);
          before = before_last_line body;
          line = trim (last_line body);
          reset = st\<lparr>sp_buffer := [], postgres_dollar_quoted_routine := False, previous := None\<rparr>
      in
      if supports_slash_line_block_delimiter p \<and> line = ''/'' then
        (reset, statement_if_executable p (trim before), True)
      else
        (case (if supports_custom_delimiter_commands p \<and> \<not> has_executable_sql_with_options p before
               then parse_delimiter_command line else None) of
           Some new_delim \<Rightarrow>
             (reset\<lparr>custom_delimiter := (if new_delim = '';'' then None else Some new_delim)\<rparr>,
              (if before = [] then [] else statement_if_executable p (trim before)), True)
         | None \<Rightarrow> (st, [], False)))"

definition delimiter_step ::
  "sql_dialect_profile \<Rightarrow> sql_statement_splitter \<Rightarrow> sql_statement_splitter \<times> string list" where
  "delimiter_step p st =
     (case custom_delimiter st of
        None \<Rightarrow> (st, [])
      | Some delim \<Rightarrow>
          if ends_with delim (sp_buffer st) \<and> \<not> on_delimiter_line p st
          then push_current_statement p (st\<lparr>sp_buffer := take (length (sp_buffer st) - length delim) (sp_buffer st)\<rparr>)
          else (st, []))"

definition after_char ::
  "sql_dialect_profile \<Rightarrow> char \<Rightarrow> sql_statement_splitter \<Rightarrow> sql_statement_splitter \<times> string list" where
  "after_char p c st =
     (if \<not> in_single_quote st \<and> \<not> in_double_quote st \<and> \<not> in_backtick st \<and> dollar_quote_tag st = None then
        (case (if c = CHR 10 then line_end_step p st else (st, [], False)) of
           (st1, out, True) \<Rightarrow> (st1, out)
         | (st1, out, False) \<Rightarrow>
             (case delimiter_step p st1 of (st2, out') \<Rightarrow> (st2\<lparr>previous := Some c\<rparr>, out @ out')))
      else (st\<lparr>previous := Some c\<rparr>, []))"

text \<open>The comment and literal openers, tried outside quotes before the character itself.\<close>

definition opener ::
  "block_rules \<Rightarrow> sql_dialect_profile \<Rightarrow> sql_statement_splitter \<Rightarrow> char \<Rightarrow> string
     \<Rightarrow> (sql_statement_splitter \<times> nat) option" where
  "opener rules p st c cs =
     (if in_single_quote st \<or> in_double_quote st \<or> in_backtick st then None
      else if supports_oracle_q_quotes p \<and> c = CHR 39 \<and> ends_with_oracle_q_quote_prefix (sp_buffer st) then
        Some (push_prev c (Some c) (st\<lparr>q_awaiting_delimiter := True\<rparr>), 0)
      else if previous st = Some (CHR ''-'') \<and> c = CHR ''-'' \<and>
          requires_whitespace_after_line_comment_dashes p \<and> cs = [] then
        Some (push_prev c (Some c) (st\<lparr>pending_mysql_line_comment_dashes := True\<rparr>), 0)
      else if previous st = Some (CHR ''-'') \<and> c = CHR ''-'' \<and> dash_dash_starts_line_comment p (first_char cs) then
        Some (push_prev c (Some c) (st\<lparr>in_line_comment := True\<rparr>), 0)
      else if previous st = Some (CHR ''/'') \<and> c = CHR ''*'' then
        Some (push_prev c None (st\<lparr>block_comment_depth := 1\<rparr>), 0)
      else if supports_hash_line_comments p \<and> c = CHR ''#'' then
        Some (push_prev c (Some c) (st\<lparr>in_line_comment := True\<rparr>), 0)
      else if c = CHR ''/'' \<and> starts_with ''*'' cs then
        Some (push_prev c None (st\<lparr>block_comment_depth := 1\<rparr>), 0)
      else
        (case (if supports_dollar_quoted_strings p then dollar_quote_tag_at (c # cs) else None) of
           None \<Rightarrow> None
         | Some tag \<Rightarrow>
             if custom_delimiter st = None \<and> \<not> on_delimiter_line p st then
               Some (st\<lparr>sp_buffer := sp_buffer st @ tag, previous := Some (last tag),
                        dollar_quote_tag := Some tag,
                        postgres_dollar_quoted_routine := postgres_dollar_quoted_routine st \<or>
                          supports_postgres_dollar_quoted_routines p \<and>
                          starts_with_postgres_dollar_quoted_routine_prefix rules (sp_buffer st)\<rparr>,
                     length tag - 1)
             else None))"

text \<open>One pass of the loop: the state, the statements emitted, and how many further characters it consumes.\<close>

definition split_step ::
  "block_rules \<Rightarrow> sql_dialect_profile \<Rightarrow> sql_statement_splitter \<Rightarrow> char \<Rightarrow> string
     \<Rightarrow> sql_statement_splitter \<times> string list \<times> nat" where
  "split_step rules p st c cs =
     (case dollar_quote_tag st of
        Some tag \<Rightarrow>
          if starts_with tag (c # cs) then
            (st\<lparr>sp_buffer := sp_buffer st @ tag, previous := Some (last tag), dollar_quote_tag := None\<rparr>,
             [], length tag - 1)
          else (push_prev c (Some c) st, [], 0)
      | None \<Rightarrow>
          if in_line_comment st then
            (push_prev c (Some c) (st\<lparr>in_line_comment := c \<noteq> CHR 10\<rparr>), [], 0)
          else if block_comment_depth st > 0 then
            (if supports_nested_block_comments p \<and> previous st = Some (CHR ''/'') \<and> c = CHR ''*'' then
               (push_prev c None (st\<lparr>block_comment_depth := block_comment_depth st + 1\<rparr>), [], 0)
             else
               (push_prev c (Some c) (st\<lparr>block_comment_depth :=
                  (if previous st = Some (CHR ''*'') \<and> c = CHR ''/''
                   then block_comment_depth st - 1 else block_comment_depth st)\<rparr>), [], 0))
          else if q_awaiting_delimiter st \<or> q_closer st \<noteq> None then
            (push_prev c (Some c)
               (if q_awaiting_delimiter st
                then st\<lparr>q_closer := oracle_q_quote_closer c, q_awaiting_delimiter := False\<rparr>
                else if previous st = q_closer st \<and> c = CHR 39 then st\<lparr>q_closer := None\<rparr> else st), [], 0)
          else
            (case opener rules p st c cs of
               Some (st', n) \<Rightarrow> (st', [], n)
             | None \<Rightarrow>
                 (case plain_char_step rules p st c of
                    (st1, out) \<Rightarrow> (case after_char p c st1 of (st2, out') \<Rightarrow> (st2, out @ out', 0)))))"

function split_loop ::
  "block_rules \<Rightarrow> sql_dialect_profile \<Rightarrow> sql_statement_splitter \<Rightarrow> string
     \<Rightarrow> sql_statement_splitter \<times> string list" where
  "split_loop rules p st [] = (st, [])"
| "split_loop rules p st (c # cs) =
     (case split_step rules p st c cs of
        (st', out, n) \<Rightarrow> (case split_loop rules p st' (drop n cs) of (st'', out') \<Rightarrow> (st'', out @ out')))"
  by pat_completeness auto
termination by (relation "measure (\<lambda>(_, _, _, s). length s)") auto

definition push_sql_chunk ::
  "block_rules \<Rightarrow> sql_dialect_profile \<Rightarrow> sql_statement_splitter \<Rightarrow> string
     \<Rightarrow> sql_statement_splitter \<times> string list" where
  "push_sql_chunk rules p st chunk =
     split_loop rules p
       (if pending_mysql_line_comment_dashes st \<and> chunk \<noteq> []
        then st\<lparr>in_line_comment := dash_dash_starts_line_comment p (Some (hd chunk)),
                pending_mysql_line_comment_dashes := False\<rparr>
        else st) chunk"

definition finish_splitter :: "sql_dialect_profile \<Rightarrow> sql_statement_splitter \<Rightarrow> string list" where
  "finish_splitter p st =
     (let trimmed = trim (sp_buffer st);
          line = trim (last_line trimmed);
          before = trim (case rsplit_once [CHR 10] trimmed of Some (a, _) \<Rightarrow> a | None \<Rightarrow> [])
      in
      if supports_custom_delimiter_commands p \<and> parse_delimiter_command line \<noteq> None \<and>
         \<not> has_executable_sql_with_options p before
      then statement_if_executable p before @ snd (push_current_statement p (st\<lparr>sp_buffer := []\<rparr>))
      else if supports_slash_line_block_delimiter p \<and> line = ''/''
      then statement_if_executable p before @ snd (push_current_statement p (st\<lparr>sp_buffer := []\<rparr>))
      else
        snd (push_current_statement p
          (case custom_delimiter st of
             Some delim \<Rightarrow>
               if ends_with delim (sp_buffer st)
               then st\<lparr>sp_buffer := take (length (sp_buffer st) - length delim) (sp_buffer st)\<rparr> else st
           | None \<Rightarrow> st)))"

definition split_sql_text :: "block_rules \<Rightarrow> sql_dialect_profile \<Rightarrow> string \<Rightarrow> string list" where
  "split_sql_text rules p sql =
     (case push_sql_chunk rules p new_splitter sql of (st, out) \<Rightarrow> out @ finish_splitter p st)"

subsection \<open>Every statement is a piece of the input\<close>

fun pieces :: "string list \<Rightarrow> string \<Rightarrow> bool" where
  "pieces [] script = True"
| "pieces (s # ss) script = (\<exists>a b. script = a @ s @ b \<and> pieces ss b)"

lemma pieces_prefix: "pieces ss t \<Longrightarrow> pieces ss (x @ t)"
  by (cases ss) (auto, metis append_assoc)

lemma pieces_suffix: "pieces ss t \<Longrightarrow> pieces ss (t @ x)"
  by (induction ss arbitrary: t) (auto, metis append_assoc)

lemma pieces_append: "pieces ss t \<Longrightarrow> pieces us u \<Longrightarrow> pieces (ss @ us) (t @ u)"
proof (induction ss arbitrary: t)
  case (Cons s ss)
  then obtain a b where t: "t = a @ s @ b" and "pieces ss b" by auto
  then have "pieces (ss @ us) (b @ u)" using Cons by blast
  then show ?case using t by auto
qed (simp add: pieces_prefix)

lemma trim_start_suffix: "\<exists>a. s = a @ trim_start s"
  unfolding trim_start_def by (metis takeWhile_dropWhile_id)

lemma trim_end_prefix: "\<exists>b. s = trim_end s @ b"
  unfolding trim_end_def by (metis rev_append rev_rev_ident takeWhile_dropWhile_id)

lemma trim_piece: "\<exists>a b. s = a @ trim s @ b"
  unfolding trim_def using trim_start_suffix [of s] trim_end_prefix [of "trim_start s"] by metis

lemma pieces_statement: "pieces (statement_if_executable p (trim s)) s"
  using trim_piece [of s] by (simp add: statement_if_executable_def)

lemma pieces_current: "pieces (snd (push_current_statement p st)) (sp_buffer st)"
  by (simp add: push_current_statement_def pieces_statement)

lemma buffer_current [simp]: "sp_buffer (fst (push_current_statement p st)) = []"
  by (simp add: push_current_statement_def)

definition consumes :: "sql_statement_splitter \<Rightarrow> string \<Rightarrow> sql_statement_splitter \<times> string list \<Rightarrow> bool" where
  "consumes st text r \<longleftrightarrow> (\<exists>t. sp_buffer st @ text = t @ sp_buffer (fst r) \<and> pieces (snd r) t)"

lemma consumes_push: "sp_buffer st' = sp_buffer st @ text \<Longrightarrow> consumes st text (st', [])"
  by (auto simp: consumes_def)

lemma consumes_current:
  "sp_buffer st @ text = sp_buffer st' @ rest \<Longrightarrow> consumes st text (push_current_statement p st')"
  using pieces_suffix [OF pieces_current] by (auto simp: consumes_def)

lemma consumes_trans:
  assumes "consumes st text (st1, out)" and "consumes st1 text' r"
  shows "consumes st (text @ text') (fst r, out @ snd r)"
proof -
  obtain t where t: "sp_buffer st @ text = t @ sp_buffer st1" "pieces out t"
    using assms(1) by (auto simp: consumes_def)
  obtain u where u: "sp_buffer st1 @ text' = u @ sp_buffer (fst r)" "pieces (snd r) u"
    using assms(2) by (auto simp: consumes_def)
  have "sp_buffer st @ text @ text' = (t @ u) @ sp_buffer (fst r)" using t(1) u(1) by (metis append_assoc)
  then show ?thesis using pieces_append [OF t(2) u(2)] by (auto simp: consumes_def)
qed

lemma consumes_reset: "sp_buffer st' = [] \<Longrightarrow> pieces out (sp_buffer st @ text) \<Longrightarrow> consumes st text (st', out)"
  by (auto simp: consumes_def)

lemma boundaries_sorted:
  "sorted (cursor # sqlserver_boundaries rules cursor body) \<and>
   list_all (\<lambda>b. b \<le> length body) (sqlserver_boundaries rules cursor body)"
proof (induction rules cursor body rule: sqlserver_boundaries.induct)
  case (1 rules cursor body)
  then show ?case by (subst (1 2) sqlserver_boundaries.simps) (fastforce split: option.split)
qed

lemma emit_pieces_correct:
  "emit_pieces p body from bs st = (st', out, from') \<Longrightarrow> sorted (from # bs) \<Longrightarrow>
     list_all (\<lambda>b. b \<le> length body) bs \<Longrightarrow> from \<le> length body \<Longrightarrow>
     pieces out (take (from' - from) (drop from body)) \<and> from \<le> from' \<and> from' \<le> length body"
proof (induction p body "from" bs st arbitrary: st' out from' rule: emit_pieces.induct)
  case (2 p body piece_from b bs st)
  let ?s = "st\<lparr>sp_buffer := take (b - piece_from) (drop piece_from body)\<rparr>"
  obtain st1 out1 where e1: "push_current_statement p ?s = (st1, out1)" by fastforce
  obtain st2 out2 f where e2: "emit_pieces p body b bs st1 = (st2, out2, f)" using prod_cases3 by blast
  have ih: "pieces out2 (take (f - b) (drop b body))" "b \<le> f" "f \<le> length body"
    using 2(1) [OF e1 [symmetric] e2] 2(3,4,5) by auto
  have p1: "pieces out1 (take (b - piece_from) (drop piece_from body))"
    using pieces_current [of p ?s] by (simp add: e1)
  have le: "piece_from \<le> b" using 2(3) by simp
  have "take (f - piece_from) (drop piece_from body) =
      take (b - piece_from) (drop piece_from body) @ take (f - b) (drop b body)"
    using le ih(2) take_add [of "b - piece_from" "f - b" "drop piece_from body"] by simp
  then show ?case using 2(2) e1 e2 ih p1 le pieces_append by auto
qed simp

lemma consumes_sqlserver: "consumes st '';'' (close_sqlserver_batch rules p st)"
proof (cases "sqlserver_control_flow_batch_is_complete rules (sp_buffer st @ '';'')")
  case False
  then show ?thesis by (auto simp: close_sqlserver_batch_def push_char_def intro: consumes_push)
next
  case True
  show ?thesis
  proof (cases "sqlserver_boundaries rules 0 (sp_buffer st)")
    case Nil
    then show ?thesis using True
      by (auto simp: close_sqlserver_batch_def push_char_def Let_def intro: consumes_current)
  next
    case (Cons b bs)
    let ?c = "push_char (CHR '';'') st" and ?body = "sp_buffer st"
    obtain st1 out "from" where e: "emit_pieces p ?body 0 (b # bs) ?c = (st1, out, from)"
      using prod_cases3 by blast
    have po: "pieces out (take from ?body)"
      using emit_pieces_correct [OF e] boundaries_sorted [of 0 rules ?body] Cons by auto
    have split: "?body = take from ?body @ drop from ?body" by simp
    have w: "pieces (out @ out') (?body @ '';'')" if "pieces out' (drop from ?body @ '';'')" for out'
      using pieces_append [OF po that] by (metis append.assoc append_take_drop_id)
    have cur: "pieces (snd (push_current_statement p (s\<lparr>sp_buffer := drop from ?body @ '';''\<rparr>))) (drop from ?body @ '';'')"
      "pieces (snd (push_current_statement p (s\<lparr>sp_buffer := drop from ?body\<rparr>))) (drop from ?body @ '';'')" for s
      using pieces_current [of p "s\<lparr>sp_buffer := drop from ?body @ '';''\<rparr>"]
        pieces_suffix [OF pieces_current [of p "s\<lparr>sp_buffer := drop from ?body\<rparr>"]] by auto
    show ?thesis
      using True Cons e w cur po w [of "[]"]
      by (auto simp: close_sqlserver_batch_def push_char_def Let_def split_beta consumes_def
          intro: exI [of _ "take from ?body"])
  qed
qed


lemma consumes_keep_or_close: "consumes st '';'' (keep_or_close p complete st)"
  by (auto simp: keep_or_close_def push_char_def Let_def intro: consumes_push consumes_current)

lemma consumes_semicolon: "consumes st '';'' (semicolon rules p st)"
  unfolding semicolon_def Let_def
  by (simp add: consumes_keep_or_close consumes_sqlserver push_char_def consumes_push consumes_current)

lemma consumes_plain_char: "consumes st [c] (plain_char_step rules p st c)"
  unfolding plain_char_step_def Let_def
  by (simp add: consumes_semicolon push_char_def consumes_push)

lemma before_last_line_piece: "\<exists>b. s = before_last_line s @ b"
  unfolding before_last_line_def by (metis append_take_drop_id)

lemma pieces_before: "pieces (statement_if_executable p (trim (before_last_line (butlast buffer)))) buffer"
proof -
  obtain b where b: "butlast buffer = before_last_line (butlast buffer) @ b"
    using before_last_line_piece by blast
  have "\<exists>x. buffer = butlast buffer @ x" by (cases "buffer = []") (auto intro: append_butlast_last_id [symmetric])
  then obtain x where "buffer = before_last_line (butlast buffer) @ (b @ x)" using b by (metis append_assoc)
  then show ?thesis using pieces_suffix [OF pieces_statement] by metis
qed

lemma consumes_line_end:
  assumes "line_end_step p st = (st', out, b)"
  shows "consumes st [] (st', out) \<and> dollar_quote_tag st' = dollar_quote_tag st"
proof -
  let ?before = "before_last_line (butlast (sp_buffer st))"
  let ?line = "trim (last_line (butlast (sp_buffer st)))"
  define d where "d = (if supports_custom_delimiter_commands p \<and> \<not> has_executable_sql_with_options p ?before
    then parse_delimiter_command ?line else None)"
  have eq: "line_end_step p st =
      (if supports_slash_line_block_delimiter p \<and> ?line = ''/'' then
         (st\<lparr>sp_buffer := [], postgres_dollar_quoted_routine := False, previous := None\<rparr>,
          statement_if_executable p (trim ?before), True)
       else (case d of
           Some new_delim \<Rightarrow>
             (st\<lparr>sp_buffer := [], postgres_dollar_quoted_routine := False, previous := None,
                 custom_delimiter := (if new_delim = '';'' then None else Some new_delim)\<rparr>,
              (if ?before = [] then [] else statement_if_executable p (trim ?before)), True)
         | None \<Rightarrow> (st, [], False)))"
    unfolding line_end_step_def Let_def d_def ..
  have "st' = st \<and> out = [] \<or>
      sp_buffer st' = [] \<and> dollar_quote_tag st' = dollar_quote_tag st \<and>
      (out = [] \<or> out = statement_if_executable p (trim ?before))"
  proof (cases "supports_slash_line_block_delimiter p \<and> ?line = ''/''")
    case True
    have "(st', out, b) = (st\<lparr>sp_buffer := [], postgres_dollar_quoted_routine := False, previous := None\<rparr>,
        statement_if_executable p (trim ?before), True)"
      using assms unfolding eq if_P [OF True] by (rule sym)
    then show ?thesis by simp
  next
    case False
    show ?thesis
    proof (cases d)
      case None
      have "(st', out, b) = (st, [], False)"
        using assms unfolding eq if_not_P [OF False] None by simp
      then show ?thesis by simp
    next
      case (Some nd)
      have "(st', out, b) = (st\<lparr>sp_buffer := [], postgres_dollar_quoted_routine := False, previous := None,
            custom_delimiter := (if nd = '';'' then None else Some nd)\<rparr>,
          (if ?before = [] then [] else statement_if_executable p (trim ?before)), True)"
        using assms unfolding eq if_not_P [OF False] Some option.case by (rule sym)
      then show ?thesis by simp
    qed
  qed
  then show ?thesis using pieces_before [of p "sp_buffer st"] by (auto intro: consumes_reset consumes_push)
qed

lemma consumes_delimiter: "consumes st [] (delimiter_step p st)"
proof -
  have "consumes st [] (push_current_statement p (st\<lparr>sp_buffer := take n (sp_buffer st)\<rparr>))" for n
    by (rule consumes_current [where rest = "drop n (sp_buffer st)"]) simp
  then show ?thesis by (auto simp: delimiter_step_def consumes_push split: option.split)
qed

lemma dollar_current [simp]: "dollar_quote_tag (fst (push_current_statement p st)) = dollar_quote_tag st"
  by (simp add: push_current_statement_def)

lemma consumes_previous: "consumes st t (st', out) \<Longrightarrow> consumes st t (st'\<lparr>previous := x\<rparr>, out)"
  by (simp add: consumes_def)

lemma consumes_after: "consumes st [] (after_char p c st)"
proof -
  obtain st1 out b where l: "(if c = CHR 10 then line_end_step p st else (st, [], False)) = (st1, out, b)"
    using prod_cases3 by blast
  have c1: "consumes st [] (st1, out)"
    using l consumes_line_end [of p st st1 out b] by (auto split: if_splits intro: consumes_push)
  obtain st2 out' where d: "delimiter_step p st1 = (st2, out')" by fastforce
  have "consumes st [] (st2, out @ out')"
    using consumes_trans [OF c1 consumes_delimiter [of st1 p]] by (simp add: d)
  then have "consumes st [] (st2\<lparr>previous := Some c\<rparr>, out @ out')" by (rule consumes_previous)
  moreover have "consumes st [] (st\<lparr>previous := Some c\<rparr>, [])" by (simp add: consumes_push)
  ultimately show ?thesis using l c1 d by (simp add: after_char_def split: bool.split)
qed

lemma dollar_tag_starts: "dollar_quote_tag_at s = Some tag \<Longrightarrow> starts_with tag s \<and> tag \<noteq> []"
proof -
  assume tag: "dollar_quote_tag_at s = Some tag"
  then obtain c cs where s: "s = CHR ''$'' # c # cs"
    unfolding dollar_quote_tag_at_def by (auto split: list.splits char.splits bool.splits)
  show ?thesis
  proof (cases "c = CHR ''$''")
    case True
    then show ?thesis using tag s by (auto simp: dollar_quote_tag_at_def)
  next
    case False
    define t where "t = takeWhile (\<lambda>d. is_ascii_alphanumeric d \<or> d = CHR ''_'') cs"
    have "tag = CHR ''$'' # c # t @ ''$''" and "starts_with ''$'' (drop (length t) cs)"
      using tag s False by (auto simp: dollar_quote_tag_at_def t_def Let_def split: if_splits)
    moreover have "cs = t @ drop (length t) cs"
      unfolding t_def by (metis dropWhile_eq_drop takeWhile_dropWhile_id)
    ultimately show ?thesis using s by (simp add: starts_with_iff) (metis append_assoc)
  qed
qed

lemma tag_consumed: "starts_with tag (c # cs) \<Longrightarrow> tag \<noteq> [] \<Longrightarrow> c # take (length tag - 1) cs = tag"
  by (cases tag) (auto simp: starts_with_def)


definition tag_ok :: "sql_statement_splitter \<Rightarrow> bool" where
  "tag_ok st \<longleftrightarrow> dollar_quote_tag st \<noteq> Some []"

lemma opener_consumes:
  assumes "opener rules p st c cs = Some (st', n)"
  shows "consumes st (c # take n cs) (st', []) \<and> (tag_ok st \<longrightarrow> tag_ok st')"
proof -
  have "(sp_buffer st' = sp_buffer st @ [c] \<and> n = 0 \<and> dollar_quote_tag st' = dollar_quote_tag st) \<or>
      (\<exists>tag. dollar_quote_tag_at (c # cs) = Some tag \<and> sp_buffer st' = sp_buffer st @ tag \<and>
         n = length tag - 1 \<and> dollar_quote_tag st' = Some tag)"
    using assms unfolding opener_def push_prev_def
    by (simp split: if_split_asm option.split_asm; force)
  then show ?thesis
  proof (elim disjE exE)
    fix tag assume t: "dollar_quote_tag_at (c # cs) = Some tag \<and> sp_buffer st' = sp_buffer st @ tag \<and>
         n = length tag - 1 \<and> dollar_quote_tag st' = Some tag"
    then have "c # take n cs = tag" "tag \<noteq> []" using dollar_tag_starts tag_consumed by blast+
    then show ?thesis using t by (auto simp: tag_ok_def intro: consumes_push)
  qed (simp add: tag_ok_def consumes_push)
qed

lemma dollar_push [simp]: "dollar_quote_tag (push_char c st) = dollar_quote_tag st"
  by (simp add: push_char_def)

lemma dollar_emit: "dollar_quote_tag (fst (emit_pieces p body n bs st)) = dollar_quote_tag st"
proof (induction p body n bs st rule: emit_pieces.induct)
  case (2 p body piece_from b bs st)
  obtain st1 out1 where e1: "push_current_statement p (st\<lparr>sp_buffer := take (b - piece_from) (drop piece_from body)\<rparr>)
      = (st1, out1)" by fastforce
  then have "dollar_quote_tag st1 = dollar_quote_tag st"
    using dollar_current [of p "st\<lparr>sp_buffer := take (b - piece_from) (drop piece_from body)\<rparr>"] by simp
  then show ?case using 2 [OF e1 [symmetric]] by (simp add: e1 split_beta)
qed simp

lemma dollar_sqlserver: "dollar_quote_tag (fst (close_sqlserver_batch rules p st)) = dollar_quote_tag st"
  by (simp add: close_sqlserver_batch_def Let_def split_beta dollar_emit split: list.split)

lemma dollar_keep: "dollar_quote_tag (fst (keep_or_close p complete st)) = dollar_quote_tag st"
  by (simp add: keep_or_close_def Let_def)

lemma dollar_semicolon: "dollar_quote_tag (fst (semicolon rules p st)) = dollar_quote_tag st"
  by (simp add: semicolon_def Let_def dollar_keep dollar_sqlserver)

lemma dollar_plain: "dollar_quote_tag (fst (plain_char_step rules p st c)) = dollar_quote_tag st"
  by (simp add: plain_char_step_def Let_def dollar_semicolon)

lemma dollar_delimiter: "dollar_quote_tag (fst (delimiter_step p st)) = dollar_quote_tag st"
  by (simp add: delimiter_step_def split: option.split)

lemma dollar_after: "dollar_quote_tag (fst (after_char p c st)) = dollar_quote_tag st"
proof -
  obtain st1 out b where l: "(if c = CHR 10 then line_end_step p st else (st, [], False)) = (st1, out, b)"
    using prod_cases3 by blast
  then have "dollar_quote_tag st1 = dollar_quote_tag st"
    using consumes_line_end [of p st st1 out b] by (auto split: if_splits)
  then show ?thesis
    using dollar_delimiter [of p st1] by (simp add: after_char_def l split_beta split: bool.split)
qed

lemma split_step_consumes:
  assumes "split_step rules p st c cs = (st', out, n)" and "tag_ok st"
  shows "consumes st (c # take n cs) (st', out) \<and> tag_ok st'"
proof (cases "dollar_quote_tag st")
  case (Some tag)
  then have "tag \<noteq> []" using assms(2) by (auto simp: tag_ok_def)
  with assms Some show ?thesis
    using tag_consumed [of tag c cs]
    by (auto simp: split_step_def push_prev_def tag_ok_def intro!: consumes_push split: if_split_asm)
next
  case None
  consider (comment) "sp_buffer st' = sp_buffer st @ [c]" "n = 0" "out = []" "dollar_quote_tag st' = None"
    | (opened) "opener rules p st c cs = Some (st', n)" "out = []"
    | (char) st1 out1 where "plain_char_step rules p st c = (st1, out1)"
        "(st', out) = (fst (after_char p c st1), out1 @ snd (after_char p c st1))" "n = 0"
    using assms(1) None unfolding split_step_def push_prev_def
    by (simp split: if_split_asm option.split_asm prod.split_asm; force)
  then show ?thesis
  proof cases
    case comment
    then show ?thesis by (simp add: consumes_push tag_ok_def)
  next
    case opened
    then show ?thesis using opener_consumes assms(2) by blast
  next
    case char
    have "consumes st ([c] @ []) (fst (after_char p c st1), out1 @ snd (after_char p c st1))"
      using consumes_plain_char [of st c rules p] consumes_after [of st1 p c] char(1)
      by (intro consumes_trans) simp_all
    then show ?thesis
      using char dollar_after [of p c st1] dollar_plain [of rules p st c] None by (simp add: tag_ok_def)
  qed
qed

lemma split_loop_consumes:
  "tag_ok st \<Longrightarrow> consumes st cs (split_loop rules p st cs)"
proof (induction rules p st cs rule: split_loop.induct)
  case (2 rules p st c cs)
  obtain st' out n where s: "split_step rules p st c cs = (st', out, n)" using prod_cases3 by blast
  have step: "consumes st (c # take n cs) (st', out)" "tag_ok st'"
    using split_step_consumes [OF s 2(2)] by auto
  have "consumes st ((c # take n cs) @ drop n cs)
      (fst (split_loop rules p st' (drop n cs)), out @ snd (split_loop rules p st' (drop n cs)))"
    using 2(1) [OF s [symmetric] refl] step by (intro consumes_trans) auto
  then show ?case by (simp add: s split_beta)
qed (simp add: consumes_push)

lemma finish_pieces: "pieces (finish_splitter p st) (sp_buffer st)"
proof -
  let ?trimmed = "trim (sp_buffer st)"
  let ?before = "case rsplit_once [CHR 10] ?trimmed of Some (a, _) \<Rightarrow> a | None \<Rightarrow> []"
  obtain x y where xy: "sp_buffer st = x @ ?trimmed @ y" using trim_piece by blast
  have "\<exists>z. ?trimmed = ?before @ z"
    by (auto split: option.split dest!: rsplit_once_SomeD)
  then obtain z where z: "?trimmed = ?before @ z" by blast
  have "pieces (statement_if_executable p (trim ?before)) (sp_buffer st)"
    using pieces_prefix [OF pieces_suffix [OF pieces_statement [of p ?before], of "z @ y"], of x] xy z
    by (metis append_assoc)
  moreover have "pieces (snd (push_current_statement p (st\<lparr>sp_buffer := take n (sp_buffer st)\<rparr>))) (sp_buffer st)" for n
    using pieces_suffix [OF pieces_current [of p "st\<lparr>sp_buffer := take n (sp_buffer st)\<rparr>"], of "drop n (sp_buffer st)"]
    by simp
  moreover have "snd (push_current_statement p (st\<lparr>sp_buffer := []\<rparr>)) = []"
    by (simp add: push_current_statement_def statement_if_executable_def has_executable_sql_with_options_def)
  ultimately show ?thesis
    using pieces_current [of p st]
    by (simp add: finish_splitter_def Let_def split: option.split)
qed

lemma split_sql_text_pieces:
  "pieces (split_sql_text rules p sql) sql"
proof -
  obtain st out where l: "split_loop rules p new_splitter sql = (st, out)" by fastforce
  have new: "tag_ok new_splitter" "sp_buffer new_splitter = []" by (simp_all add: tag_ok_def new_splitter_def)
  have "consumes new_splitter sql (st, out)"
    using split_loop_consumes [OF new(1), of sql rules p] by (simp add: l)
  then obtain t where t: "sql = t @ sp_buffer st" "pieces out t" by (auto simp: consumes_def new)
  have "pieces (out @ finish_splitter p st) sql"
    using pieces_append [OF t(2) finish_pieces] t(1) by simp
  then show ?thesis
    using l by (simp add: split_sql_text_def push_sql_chunk_def
        new_splitter_def [THEN arg_cong, of pending_mysql_line_comment_dashes])
qed

subsection \<open>Scripts without literals, comments or dollar signs\<close>

definition flat :: "block_rules \<Rightarrow> bool" where
  "flat rules \<longleftrightarrow> (\<forall>b. \<not> oracle_keeps_block_together rules default_profile b)"

definition split_plain :: "char \<Rightarrow> bool" where
  "split_plain c \<longleftrightarrow> c \<notin> {CHR 39, CHR 34, CHR 96, CHR ''-'', CHR ''/'', CHR ''$'', CHR ''&'', CHR 10}"

definition plain_state :: "string \<Rightarrow> char option \<Rightarrow> sql_statement_splitter" where
  "plain_state buf x = new_splitter\<lparr>sp_buffer := buf, previous := x\<rparr>"

lemma plain_state_simps [simp]:
  "sp_buffer (plain_state buf x) = buf" "previous (plain_state buf x) = x"
  "in_single_quote (plain_state buf x) = False" "in_double_quote (plain_state buf x) = False"
  "in_backtick (plain_state buf x) = False" "in_line_comment (plain_state buf x) = False"
  "block_comment_depth (plain_state buf x) = 0" "dollar_quote_tag (plain_state buf x) = None"
  "q_awaiting_delimiter (plain_state buf x) = False" "q_closer (plain_state buf x) = None"
  "custom_delimiter (plain_state buf x) = None" "postgres_dollar_quoted_routine (plain_state buf x) = False"
  "pending_mysql_line_comment_dashes (plain_state buf x) = False"
  by (simp_all add: plain_state_def new_splitter_def)

lemma plain_state_upd [simp]:
  "(plain_state buf x)\<lparr>sp_buffer := b\<rparr> = plain_state b x" "(plain_state buf x)\<lparr>previous := y\<rparr> = plain_state buf y"
  "push_char c (plain_state buf x) = plain_state (buf @ [c]) x"
  by (simp_all add: plain_state_def push_char_def)

lemma current_plain:
  "push_current_statement p (plain_state buf x) = (plain_state [] None, statement_if_executable p (trim buf))"
  by (simp add: push_current_statement_def plain_state_def new_splitter_def)

lemma default_profile_simps [simp]:
  "\<not> supports_oracle_q_quotes default_profile" "\<not> supports_hash_line_comments default_profile"
  "\<not> requires_whitespace_after_line_comment_dashes default_profile" "supports_dollar_quoted_strings default_profile"
  "\<not> supports_slash_line_block_delimiter default_profile" "supports_custom_delimiter_commands default_profile"
  "\<not> supports_mysql_routine_blocks default_profile" "\<not> supports_hana_script_blocks default_profile"
  "\<not> supports_firebird_routine_blocks default_profile" "\<not> keeps_sqlserver_control_flow_batches default_profile"
  "supports_backslash_escaped_quotes default_profile" "\<not> supports_nested_block_comments default_profile"
  "supports_backtick_identifiers default_profile"
  by (simp_all add: default_profile_def)

lemma dollar_tag_None [simp]: "c \<noteq> CHR ''$'' \<Longrightarrow> dollar_quote_tag_at (c # cs) = None"
  by (auto simp: dollar_quote_tag_at_def split: list.split char.split bool.split)

lemma opener_plain:
  "split_plain c \<Longrightarrow> x \<noteq> Some (CHR ''/'') \<Longrightarrow> opener rules default_profile (plain_state buf x) c cs = None"
  by (simp add: opener_def split_plain_def)

lemma step_plain:
  assumes "split_plain c" and "c \<noteq> CHR '';''" and "x \<noteq> Some (CHR ''/'')"
  shows "split_step rules default_profile (plain_state buf x) c cs = (plain_state (buf @ [c]) (Some c), [], 0)"
  using assms
  by (simp add: split_step_def opener_plain plain_char_step_def after_char_def delimiter_step_def split_plain_def)

definition delimiter_head :: "string \<Rightarrow> bool" where
  "delimiter_head s \<longleftrightarrow> eq_ignore_ascii_case (take 9 (trim_start s)) ''delimiter''"

lemma last_line_single:
  assumes "CHR 10 \<notin> set s"
  shows "last_line s = s"
proof -
  have "takeWhile (\<lambda>c. c \<noteq> CHR 10) (rev s) = rev s"
    unfolding takeWhile_eq_all_conv using assms by auto
  then show ?thesis unfolding last_line_def by (metis rev_rev_ident)
qed

lemma no_xml: "CHR ''&'' \<notin> set buf \<Longrightarrow> \<not> ends_with_xml_entity_reference buf"
proof -
  assume a: "CHR ''&'' \<notin> set buf"
  have s: "\<not> starts_with ''&'' (drop n (dropWhile P (rev buf)))" for n P
  proof
    assume "starts_with ''&'' (drop n (dropWhile P (rev buf)))"
    then have "CHR ''&'' \<in> set (drop n (dropWhile P (rev buf)))"
      by (cases "drop n (dropWhile P (rev buf))") auto
    then show False using a by (auto dest!: in_set_dropD set_dropWhileD)
  qed
  show ?thesis
    using s [of 0] s [of 1] by (simp add: ends_with_xml_entity_reference_def Let_def)
qed

lemma step_semicolon:
  assumes "flat rules" and "list_all split_plain buf" and "\<not> delimiter_head buf"
  shows "split_step rules default_profile (plain_state buf x) (CHR '';'') cs =
    (plain_state [] (Some (CHR '';'')), statement_if_executable default_profile (trim buf), 0)"
proof -
  have nl: "CHR 10 \<notin> set buf" and amp: "CHR ''&'' \<notin> set buf"
    using assms(2) by (auto simp: list_all_iff split_plain_def)
  have "\<not> on_delimiter_line default_profile (plain_state buf x)"
    using assms(3) by (simp add: on_delimiter_line_def last_line_single [OF nl] delimiter_head_def Let_def)
  moreover have "opener rules default_profile (plain_state buf x) (CHR '';'') cs = None"
    by (simp add: opener_def)
  moreover have "\<not> oracle_keeps_block_together rules default_profile buf" using assms(1) by (simp add: flat_def)
  ultimately show ?thesis
    by (simp add: split_step_def plain_char_step_def semicolon_def no_xml [OF amp] current_plain after_char_def
        delimiter_step_def keeps_sqlserver_control_flow_batch_def)
qed

lemma split_on_not_Nil [simp]: "split_on d s \<noteq> []"
  by (induction s) (auto split: list.split)

lemma split_on_append: "d \<notin> set a \<Longrightarrow> split_on d (a @ b) = (a @ hd (split_on d b)) # tl (split_on d b)"
  by (induction a) auto

lemma split_on_none: "d \<notin> set a \<Longrightarrow> split_on d a = [a]"
  using split_on_append [of d a "[]"] by simp

lemma split_loop_plain:
  assumes "flat rules" and "list_all split_plain rest" and "list_all split_plain buf" and "CHR '';'' \<notin> set buf"
    and "list_all (\<lambda>s. \<not> delimiter_head s) (split_on (CHR '';'') (buf @ rest))" and "x \<noteq> Some (CHR ''/'')"
  shows "\<exists>y. split_loop rules default_profile (plain_state buf x) rest =
    (plain_state (last (split_on (CHR '';'') (buf @ rest))) y,
     concat (map (\<lambda>s. statement_if_executable default_profile (trim s)) (butlast (split_on (CHR '';'') (buf @ rest)))))"
  using assms
proof (induction rest arbitrary: buf x)
  case Nil
  then show ?case by (auto simp: split_on_none)
next
  case (Cons c rest)
  show ?case
  proof (cases "c = CHR '';''")
    case True
    then have sp: "split_on (CHR '';'') (buf @ c # rest) = buf # split_on (CHR '';'') rest"
      using Cons.prems(4) by (simp add: split_on_append)
    then have "\<not> delimiter_head buf" using Cons.prems(5) by simp
    moreover obtain y where "split_loop rules default_profile (plain_state [] (Some c)) rest =
      (plain_state (last (split_on (CHR '';'') rest)) y,
       concat (map (\<lambda>s. statement_if_executable default_profile (trim s)) (butlast (split_on (CHR '';'') rest))))"
      using Cons.IH [of "[]" "Some c"] Cons.prems sp True by auto
    ultimately show ?thesis
      using True Cons.prems(3) sp by (simp add: step_semicolon [OF Cons.prems(1)], blast)
  next
    case False
    then show ?thesis
      using Cons.IH [of "buf @ [c]" "Some c"] Cons.prems by (auto simp: step_plain split_plain_def)
  qed
qed

lemma executable_plain:
  "list_all split_plain s \<Longrightarrow> executable_scan default_profile False 0 prev s \<longleftrightarrow> \<not> list_all is_whitespace s"
  by (induction s arbitrary: prev) (auto simp: split_plain_def)

lemma trim_start_Nil_iff: "trim_start s = [] \<longleftrightarrow> list_all is_whitespace s"
  by (simp add: trim_start_def list_all_iff)

lemma trim_end_Nil_iff: "trim_end s = [] \<longleftrightarrow> list_all is_whitespace s"
  by (simp add: trim_end_def list_all_iff)

lemma trim_Nil_iff: "trim s = [] \<longleftrightarrow> list_all is_whitespace s"
proof
  assume t: "trim s = []"
  show "list_all is_whitespace s"
  proof (rule ccontr)
    assume n: "\<not> list_all is_whitespace s"
    then have "trim_start s \<noteq> []" by (simp add: trim_start_Nil_iff)
    then have "\<not> is_whitespace (hd (trim_start s))" "hd (trim_start s) \<in> set (trim_start s)"
      by (simp_all add: trim_start_def hd_dropWhile)
    then show False using t by (auto simp: trim_def trim_end_Nil_iff list_all_iff)
  qed
next
  assume "list_all is_whitespace s"
  then show "trim s = []" by (simp add: trim_def trim_start_Nil_iff [THEN iffD2] trim_end_def)
qed

lemma list_all_trim: "list_all P s \<Longrightarrow> list_all P (trim s)"
  using trim_piece [of s] by (metis list_all_append)

lemma trim_start_fixed: "t = [] \<or> \<not> is_whitespace (hd t) \<Longrightarrow> trim_start t = t"
  by (cases t) (auto simp: trim_start_def)

lemma hd_trim: "trim s = [] \<or> \<not> is_whitespace (hd (trim s))"
proof (cases "trim s = []")
  case False
  obtain b where b: "trim_start s = trim s @ b" using trim_end_prefix [of "trim_start s"] by (auto simp: trim_def)
  then have "hd (trim s) = hd (dropWhile is_whitespace s)" "dropWhile is_whitespace s \<noteq> []"
    using False by (auto simp: trim_start_def)
  then show ?thesis using hd_dropWhile [of is_whitespace s] by simp
qed simp

lemma trim_end_idem: "trim_end (trim_end s) = trim_end s"
  by (simp add: trim_end_def)

lemma trim_idem [simp]: "trim (trim s) = trim s"
  using trim_start_fixed [OF hd_trim [of s]] by (simp add: trim_def trim_end_idem)

lemma eq_ignore_take: "eq_ignore_ascii_case a b \<Longrightarrow> eq_ignore_ascii_case (take n a) (take n b)"
  by (simp add: eq_ignore_ascii_case_def to_ascii_lowercase_def take_map [symmetric])

lemma executable_trim:
  "list_all split_plain s \<Longrightarrow> statement_if_executable default_profile (trim s) = filter (\<lambda>s. s \<noteq> []) [trim s]"
  using executable_plain [OF list_all_trim, of s None] trim_Nil_iff [of "trim s"]
  by (auto simp: statement_if_executable_def has_executable_sql_with_options_def)

lemma eq_ignore_length: "eq_ignore_ascii_case a b \<Longrightarrow> length a = length b"
  unfolding eq_ignore_ascii_case_def to_ascii_lowercase_def by (rule map_eq_imp_length_eq)

lemma delimiter_take:
  assumes "eq_ignore_ascii_case (take 10 t) d" and "take 9 d = ''delimiter''"
  shows "eq_ignore_ascii_case (take 9 t) ''delimiter''"
  using eq_ignore_take [OF assms(1), of 9] by (simp only: assms(2) take_take min_def) simp

lemma delimiter_command_head:
  assumes "parse_delimiter_command (trim s) \<noteq> None"
  shows "delimiter_head s"
proof -
  obtain b where b: "trim_start s = trim s @ b" using trim_end_prefix [of "trim_start s"] by (auto simp: trim_def)
  have "\<exists>d. eq_ignore_ascii_case (take 10 (trim s)) d \<and> take 9 d = ''delimiter'' \<and> 10 \<le> length (trim s)"
  proof (cases "eq_ignore_ascii_case (trim s) ''delimiter;''")
    case True
    then have len: "length (trim s) = 10" using eq_ignore_length [OF True] by simp
    then have "take 10 (trim s) = trim s" by simp
    moreover have "take 9 ''delimiter;'' = ''delimiter''" by simp
    ultimately show ?thesis using True len by (metis order_refl)
  next
    case False
    then have "length (trim s) > 10 \<and>
      (eq_ignore_ascii_case (take 10 (trim s)) ''delimiter '' \<or>
       eq_ignore_ascii_case (take 10 (trim s)) (''delimiter'' @ [CHR 9]))"
      using assms unfolding parse_delimiter_command_def Let_def trim_idem by meson
    moreover have "take 9 ''delimiter '' = ''delimiter''" "take 9 (''delimiter'' @ [CHR 9]) = ''delimiter''"
      by simp_all
    ultimately show ?thesis by (meson less_imp_le)
  qed
  then obtain d where "eq_ignore_ascii_case (take 10 (trim s)) d" "take 9 d = ''delimiter''" "10 \<le> length (trim s)"
    by blast
  moreover from this have "take 9 (trim_start s) = take 9 (trim s)" by (simp only: b take_append) simp
  ultimately show ?thesis using delimiter_take unfolding delimiter_head_def by metis
qed

lemma finish_plain:
  assumes "list_all split_plain buf" and "\<not> delimiter_head buf"
  shows "finish_splitter default_profile (plain_state buf y) = filter (\<lambda>s. s \<noteq> []) [trim buf]"
proof -
  have "CHR 10 \<notin> set (trim buf)"
    using list_all_trim [OF assms(1)] by (auto simp: list_all_iff split_plain_def)
  then have "trim (last_line (trim buf)) = trim buf" by (simp add: last_line_single)
  moreover have "parse_delimiter_command (trim buf) = None" using delimiter_command_head assms(2) by blast
  ultimately show ?thesis
    using executable_trim [OF assms(1)] by (simp add: finish_splitter_def current_plain Let_def)
qed

lemma split_plain_script:
  assumes "flat rules" and "list_all split_plain sql"
    and "list_all (\<lambda>s. \<not> delimiter_head s) (split_on (CHR '';'') sql)"
  shows "split_sql_text rules default_profile sql =
    filter (\<lambda>s. s \<noteq> []) (map trim (split_on (CHR '';'') sql))"
proof -
  let ?parts = "split_on (CHR '';'') sql"
  have new: "new_splitter = plain_state [] None" by (simp add: plain_state_def new_splitter_def)
  obtain y where l: "split_loop rules default_profile (plain_state [] None) sql =
      (plain_state (last ?parts) y,
       concat (map (\<lambda>s. statement_if_executable default_profile (trim s)) (butlast ?parts)))"
    using split_loop_plain [OF assms(1,2), of "[]" None] assms(3) by auto
  have plain: "list_all (list_all split_plain) ?parts"
    using assms(2) by (induction sql) (auto split: list.split)
  have ex: "concat (map (\<lambda>s. statement_if_executable default_profile (trim s)) xs) = filter (\<lambda>s. s \<noteq> []) (map trim xs)"
    if "list_all (list_all split_plain) xs" for xs
    using that by (induction xs) (simp_all add: executable_trim)
  have bl: "?parts = butlast ?parts @ [last ?parts]" by simp
  have "list_all (list_all split_plain) (butlast ?parts)" "list_all split_plain (last ?parts)"
    "\<not> delimiter_head (last ?parts)"
    using plain assms(3) by (auto simp: list_all_iff dest: in_set_butlastD)
  then have "split_sql_text rules default_profile sql =
      filter (\<lambda>s. s \<noteq> []) (map trim (butlast ?parts)) @ filter (\<lambda>s. s \<noteq> []) [trim (last ?parts)]"
    using l finish_plain ex
    by (simp add: split_sql_text_def push_sql_chunk_def new)
  also have "\<dots> = filter (\<lambda>s. s \<noteq> []) (map trim (butlast ?parts @ [last ?parts]))"
    by (simp only: map_append filter_append list.map)
  finally show ?thesis unfolding bl [symmetric] .
qed

end
