(* ===== verification/Sql_Scanner.thy ===== *)
theory Sql_Scanner
  imports Sql_Split
begin

text \<open>
  The masking scanner \<^verbatim>\<open>SqlScanner\<close> of \<^verbatim>\<open>crates/dbx-sql-core/src/sql.rs\<close>, which says of every character
  of a statement whether it is inside a literal, a quoted identifier or a comment. A step takes the text
  before the character (\<^verbatim>\<open>sql[..idx]\<close>), the character and the text after it. The scanner is used by
  the psql preprocessing of scripts and by the recognition of mergeable inserts.
\<close>

section \<open>The scanner\<close>

definition dollar_quote_tag_at_str :: "string \<Rightarrow> string option" where
  "dollar_quote_tag_at_str rest =
     (case rest of
        [] \<Rightarrow> None
      | c # cs \<Rightarrow>
          if c \<noteq> CHR ''$'' then None
          else if CHR ''$'' \<notin> set cs then None
          else
            (let name = takeWhile (\<lambda>d. d \<noteq> CHR ''$'') cs in
             if name = [] \<or> list_all (\<lambda>d. d = CHR ''_'' \<or> is_ascii_alphanumeric d) name
             then Some (CHR ''$'' # name @ ''$'') else None))"

record sql_scanner =
  sc_single_quote :: bool
  sc_escape_string :: bool
  sc_double_quote :: bool
  sc_backtick :: bool
  sc_line_comment :: bool
  sc_block_depth :: nat
  sc_q_awaiting :: bool
  sc_q_closer :: "char option"
  sc_dollar_tag :: "string option"
  sc_previous :: "char option"

definition new_scanner :: sql_scanner where
  "new_scanner = \<lparr>sc_single_quote = False, sc_escape_string = False, sc_double_quote = False,
     sc_backtick = False, sc_line_comment = False, sc_block_depth = 0, sc_q_awaiting = False,
     sc_q_closer = None, sc_dollar_tag = None, sc_previous = None\<rparr>"

definition scanner_is_masked :: "sql_scanner \<Rightarrow> bool" where
  "scanner_is_masked st \<longleftrightarrow> sc_single_quote st \<or> sc_double_quote st \<or> sc_backtick st \<or> sc_line_comment st \<or>
     sc_block_depth st > 0 \<or> (sc_q_awaiting st \<or> sc_q_closer st \<noteq> None) \<or> sc_dollar_tag st \<noteq> None"

text \<open>The quote toggles at the end of a step.\<close>

definition scanner_quotes :: "sql_dialect_profile \<Rightarrow> string \<Rightarrow> char \<Rightarrow> sql_scanner \<Rightarrow> sql_scanner" where
  "scanner_quotes p before c st =
     (let escapes = (if sc_single_quote st then sc_escape_string st else supports_backslash_escaped_quotes p) in
      if c = CHR 39 \<and> \<not> (sc_double_quote st \<or> sc_backtick st \<or> escapes \<and> sc_previous st = Some (CHR 92)) then
        st\<lparr>sc_single_quote := \<not> sc_single_quote st,
           sc_escape_string := \<not> sc_single_quote st \<and>
             (supports_backslash_escaped_quotes p \<or>
              supports_postgres_escape_strings p \<and> ends_with_escape_string_prefix before)\<rparr>
      else if c = CHR 34 \<and> \<not> (sc_single_quote st \<or> sc_backtick st \<or>
          supports_backslash_escaped_quotes p \<and> sc_previous st = Some (CHR 92)) then
        st\<lparr>sc_double_quote := \<not> sc_double_quote st\<rparr>
      else if c = CHR 96 \<and> supports_backtick_identifiers p \<and> \<not> sc_single_quote st \<and> \<not> sc_double_quote st then
        st\<lparr>sc_backtick := \<not> sc_backtick st\<rparr>
      else st)"

definition scanner_step :: "sql_dialect_profile \<Rightarrow> string \<Rightarrow> char \<Rightarrow> string \<Rightarrow> sql_scanner \<Rightarrow> sql_scanner" where
  "scanner_step p before c rest st =
     (case sc_dollar_tag st of
        Some tag \<Rightarrow>
          (if starts_with tag (c # rest) then st\<lparr>sc_dollar_tag := None\<rparr> else st)\<lparr>sc_previous := Some c\<rparr>
      | None \<Rightarrow>
          if sc_line_comment st then st\<lparr>sc_line_comment := c \<noteq> CHR 10, sc_previous := Some c\<rparr>
          else if sc_block_depth st > 0 then
            (if supports_nested_block_comments p \<and> sc_previous st = Some (CHR ''/'') \<and> c = CHR ''*''
             then st\<lparr>sc_block_depth := sc_block_depth st + 1, sc_previous := None\<rparr>
             else st\<lparr>sc_block_depth := (if sc_previous st = Some (CHR ''*'') \<and> c = CHR ''/''
                                         then sc_block_depth st - 1 else sc_block_depth st),
                     sc_previous := Some c\<rparr>)
          else if sc_q_awaiting st \<or> sc_q_closer st \<noteq> None then
            (if sc_q_awaiting st then st\<lparr>sc_q_closer := oracle_q_quote_closer c, sc_q_awaiting := False\<rparr>
             else if sc_previous st = sc_q_closer st \<and> c = CHR 39 then st\<lparr>sc_q_closer := None\<rparr>
             else st)\<lparr>sc_previous := Some c\<rparr>
          else
            (let outside = \<not> sc_single_quote st \<and> \<not> sc_double_quote st \<and> \<not> sc_backtick st in
             if outside \<and> supports_oracle_q_quotes p \<and> c = CHR 39 \<and> ends_with_oracle_q_quote_prefix before
             then st\<lparr>sc_q_awaiting := True, sc_previous := Some c\<rparr>
             else if outside \<and> (c = CHR ''-'' \<and> starts_with ''-'' rest \<or>
                 supports_hash_line_comments p \<and> c = CHR ''#'')
             then (scanner_quotes p before c (st\<lparr>sc_line_comment := True\<rparr>))\<lparr>sc_previous := Some c\<rparr>
             else if outside \<and> c = CHR ''/'' \<and> starts_with ''*'' rest
             then st\<lparr>sc_block_depth := 1, sc_previous := None\<rparr>
             else
               (scanner_quotes p before c
                  (if outside \<and> supports_dollar_quoted_strings p
                   then st\<lparr>sc_dollar_tag := dollar_quote_tag_at_str (c # rest)\<rparr> else st))\<lparr>sc_previous := Some c\<rparr>))"

definition is_sql_ident_char :: "char \<Rightarrow> bool" where
  "is_sql_ident_char c \<longleftrightarrow> c = CHR ''_'' \<or> c = CHR ''$'' \<or> is_ascii_alphanumeric c"

definition ident_boundary :: "char option \<Rightarrow> bool" where
  "ident_boundary c = (case c of None \<Rightarrow> True | Some d \<Rightarrow> \<not> is_sql_ident_char d)"

text \<open>\<^verbatim>\<open>keyword_at(sql, idx, keyword)\<close> with the text before and from the index.\<close>

definition keyword_at :: "string \<Rightarrow> string \<Rightarrow> string \<Rightarrow> bool" where
  "keyword_at before rest keyword \<longleftrightarrow>
     length keyword \<le> length rest \<and> eq_ignore_ascii_case (take (length keyword) rest) keyword \<and>
     ident_boundary (first_char (rev before)) \<and> ident_boundary (first_char (drop (length keyword) rest))"

end
