(* ===== verification/Sql_Control.thy ===== *)
theory Sql_Control
  imports Sql_Scanner "HOL-Library.Sublist"
begin

text \<open>
  psql control commands in PostgreSQL scripts (\<^verbatim>\<open>crates/dbx-sql-core/src/sql.rs\<close>): the branch of
  \<^verbatim>\<open>push_chunk_with_control\<close> that buffers a \<^verbatim>\<open>\\set\<close>, \<^verbatim>\<open>\\echo\<close> or \<^verbatim>\<open>\\timing\<close> line around the scanner of theory
  \<open>Sql_Split\<close>, and the preprocessing of a whole script by \<^verbatim>\<open>sql_execution_plan_with_options\<close>. A statement
  with its control flag (\<^verbatim>\<open>SqlStatementWithControl\<close>) is a pair.
\<close>

section \<open>Control commands\<close>

datatype psql_control_command = OnErrorStop | ClientDisplay

definition parse_ignorable_psql_control_command :: "string \<Rightarrow> psql_control_command option" where
  "parse_ignorable_psql_control_command line =
     (case split_whitespace line of
        [] \<Rightarrow> None
      | command # parts \<Rightarrow>
          if eq_ignore_ascii_case command (CHR 92 # ''echo'') then
            (let arguments = drop (length command) (trim_start line) in
             if CHR 92 \<in> set arguments \<or> CHR 96 \<in> set arguments then None else Some ClientDisplay)
          else if eq_ignore_ascii_case command (CHR 92 # ''timing'') then
            (case parts of
               [] \<Rightarrow> Some ClientDisplay
             | [value] \<Rightarrow> if eq_ignore_ascii_case value ''on'' \<or> eq_ignore_ascii_case value ''off''
                          then Some ClientDisplay else None
             | _ \<Rightarrow> None)
          else if \<not> eq_ignore_ascii_case command (CHR 92 # ''set'') then None
          else
            (case parts of
               [variable, value] \<Rightarrow>
                 if to_ascii_uppercase variable = ''ON_ERROR_STOP'' \<and>
                    to_ascii_lowercase value \<in> set [''on'', ''true'', ''1''] then Some OnErrorStop
                 else if to_ascii_uppercase variable = ''VERBOSITY'' \<and>
                    to_ascii_lowercase value \<in> set [''default'', ''verbose'', ''terse'', ''sqlstate'']
                 then Some ClientDisplay
                 else None
             | _ \<Rightarrow> None))"

section \<open>The splitter with control commands\<close>

record control_splitter =
  cs_core :: sql_statement_splitter
  cs_stop_on_error :: bool
  pending_psql_command :: "string option"

definition new_control_splitter :: control_splitter where
  "new_control_splitter = \<lparr>cs_core = new_splitter, cs_stop_on_error = False, pending_psql_command = None\<rparr>"

definition with_stop :: "bool \<Rightarrow> string list \<Rightarrow> (string \<times> bool) list" where
  "with_stop stop statements = map (\<lambda>s. (s, stop)) statements"

definition starts_psql_command :: "sql_dialect_profile \<Rightarrow> sql_statement_splitter \<Rightarrow> char \<Rightarrow> bool" where
  "starts_psql_command p st c \<longleftrightarrow>
     supports_psql_control_commands p \<and> c = CHR 92 \<and> \<not> in_single_quote st \<and> \<not> in_double_quote st \<and>
     \<not> in_backtick st \<and> \<not> in_line_comment st \<and> block_comment_depth st = 0 \<and> dollar_quote_tag st = None \<and>
     trim (last_line (sp_buffer st)) = []"

text \<open>
  The command is replayed with psql commands switched off when it is not one of the ignorable ones.
\<close>

definition finish_psql_command ::
  "block_rules \<Rightarrow> sql_dialect_profile \<Rightarrow> control_splitter \<Rightarrow> control_splitter \<times> (string \<times> bool) list" where
  "finish_psql_command rules p st =
     (case pending_psql_command st of
        None \<Rightarrow> (st, [])
      | Some command \<Rightarrow>
          (let taken = st\<lparr>pending_psql_command := None\<rparr> in
           case parse_ignorable_psql_control_command (trim command) of
             Some control \<Rightarrow>
               (taken\<lparr>cs_stop_on_error := cs_stop_on_error st \<or> control = OnErrorStop\<rparr>, [])
           | None \<Rightarrow>
               (case push_sql_chunk rules (p\<lparr>supports_psql_control_commands := False\<rparr>) (cs_core st) command of
                  (core, out) \<Rightarrow> (taken\<lparr>cs_core := core\<rparr>, with_stop (cs_stop_on_error st) out))))"

definition control_step ::
  "block_rules \<Rightarrow> sql_dialect_profile \<Rightarrow> control_splitter \<Rightarrow> char \<Rightarrow> string
     \<Rightarrow> control_splitter \<times> (string \<times> bool) list \<times> nat" where
  "control_step rules p st c cs =
     (case pending_psql_command st of
        Some command \<Rightarrow>
          (let longer = st\<lparr>pending_psql_command := Some (command @ [c])\<rparr> in
           if c = CHR 10
           then (case finish_psql_command rules p longer of (st', out) \<Rightarrow> (st', out, 0))
           else (longer, [], 0))
      | None \<Rightarrow>
          if starts_psql_command p (cs_core st) c then (st\<lparr>pending_psql_command := Some [c]\<rparr>, [], 0)
          else
            (case split_step rules p (cs_core st) c cs of
               (core, out, n) \<Rightarrow> (st\<lparr>cs_core := core\<rparr>, with_stop (cs_stop_on_error st) out, n)))"

function control_loop ::
  "block_rules \<Rightarrow> sql_dialect_profile \<Rightarrow> control_splitter \<Rightarrow> string
     \<Rightarrow> control_splitter \<times> (string \<times> bool) list" where
  "control_loop rules p st [] = (st, [])"
| "control_loop rules p st (c # cs) =
     (case control_step rules p st c cs of
        (st', out, n) \<Rightarrow>
          (case control_loop rules p st' (drop n cs) of (st'', out') \<Rightarrow> (st'', out @ out')))"
  by pat_completeness auto
termination by (relation "measure (\<lambda>(_, _, _, s). length s)") auto

definition push_chunk_with_control ::
  "block_rules \<Rightarrow> sql_dialect_profile \<Rightarrow> control_splitter \<Rightarrow> string
     \<Rightarrow> control_splitter \<times> (string \<times> bool) list" where
  "push_chunk_with_control rules p st chunk =
     control_loop rules p
       (if pending_mysql_line_comment_dashes (cs_core st) \<and> chunk \<noteq> []
        then st\<lparr>cs_core := (cs_core st)\<lparr>in_line_comment := dash_dash_starts_line_comment p (Some (hd chunk)),
                pending_mysql_line_comment_dashes := False\<rparr>\<rparr>
        else st) chunk"

definition finish_with_control ::
  "block_rules \<Rightarrow> sql_dialect_profile \<Rightarrow> control_splitter \<Rightarrow> (string \<times> bool) list" where
  "finish_with_control rules p st =
     (case finish_psql_command rules p st of
        (st', out) \<Rightarrow> out @ with_stop (cs_stop_on_error st') (finish_splitter p (cs_core st')))"

definition split_sql_statements_with_options ::
  "block_rules \<Rightarrow> sql_dialect_profile \<Rightarrow> string \<Rightarrow> string list" where
  "split_sql_statements_with_options rules p sql =
     (case push_chunk_with_control rules p new_control_splitter sql of
        (st, out) \<Rightarrow> map fst (out @ finish_with_control rules p st))"

section \<open>Whole scripts\<close>

text \<open>
  \<^verbatim>\<open>preprocess_psql_control_commands\<close> runs the scanner over the lines that are kept and over the newline
  of a line that is blanked. \<^verbatim>\<open>len_utf16\<close> is 1 for every character of the model.
\<close>

fun scan_chars :: "sql_dialect_profile \<Rightarrow> string \<Rightarrow> string \<Rightarrow> string \<Rightarrow> sql_scanner \<Rightarrow> sql_scanner" where
  "scan_chars p before [] rest st = st"
| "scan_chars p before (c # cs) rest st =
     scan_chars p (before @ [c]) cs rest (scanner_step p before c (cs @ rest) st)"

definition blank_line :: "string \<Rightarrow> string" where
  "blank_line line = map (\<lambda>c. if is_whitespace c then c else CHR '' '') line"

fun preprocess_segments ::
  "sql_dialect_profile \<Rightarrow> string \<Rightarrow> string list \<Rightarrow> sql_scanner \<Rightarrow> bool \<Rightarrow> string \<times> bool" where
  "preprocess_segments p before [] st stop = ([], stop)"
| "preprocess_segments p before (segment # segments) st stop =
     (let ended = ends_with [CHR 10] segment;
          line = (if ended then butlast segment else segment);
          after = concat segments
      in
      case (if scanner_is_masked st then None else parse_ignorable_psql_control_command (trim line)) of
        Some command \<Rightarrow>
          (case preprocess_segments p (before @ segment) segments
                  (if ended then scanner_step p (before @ line) (CHR 10) after st else st)
                  (stop \<or> command = OnErrorStop) of
             (out, stop') \<Rightarrow> (blank_line line @ (if ended then [CHR 10] else []) @ out, stop'))
      | None \<Rightarrow>
          (case preprocess_segments p (before @ segment) segments (scan_chars p before segment after st) stop of
             (out, stop') \<Rightarrow> (segment @ out, stop')))"

text \<open>\<^verbatim>\<open>str::split_inclusive\<close> at newlines.\<close>

fun split_inclusive_lines :: "string \<Rightarrow> string list" where
  "split_inclusive_lines [] = []"
| "split_inclusive_lines (c # cs) =
     (if c = CHR 10 then [c] # split_inclusive_lines cs
      else (case split_inclusive_lines cs of [] \<Rightarrow> [[c]] | l # ls \<Rightarrow> (c # l) # ls))"

definition preprocess_psql_control_commands :: "sql_dialect_profile \<Rightarrow> string \<Rightarrow> string \<times> bool" where
  "preprocess_psql_control_commands p sql =
     preprocess_segments p [] (split_inclusive_lines sql) new_scanner False"

record sql_execution_plan =
  plan_statements :: "string list"
  plan_stop_on_error :: bool

definition sql_execution_plan_with_options ::
  "block_rules \<Rightarrow> sql_dialect_profile \<Rightarrow> string \<Rightarrow> sql_execution_plan" where
  "sql_execution_plan_with_options rules p sql =
     (if \<not> supports_psql_control_commands p
      then \<lparr>plan_statements = split_sql_statements_with_options rules p sql, plan_stop_on_error = False\<rparr>
      else
        (case preprocess_psql_control_commands p sql of
           (sql', stop) \<Rightarrow>
             \<lparr>plan_statements =
                split_sql_statements_with_options rules (p\<lparr>supports_psql_control_commands := False\<rparr>) sql',
              plan_stop_on_error = stop\<rparr>))"

section \<open>Control commands switched off\<close>

lemma starts_psql_off [simp]: "\<not> supports_psql_control_commands p \<Longrightarrow> \<not> starts_psql_command p st c"
  by (simp add: starts_psql_command_def)

lemma map_fst_with_stop [simp]: "map fst (with_stop b xs) = xs"
  by (simp add: with_stop_def comp_def)

lemma with_stop_simps [simp]: "with_stop b [] = []" "with_stop b (x @ y) = with_stop b x @ with_stop b y"
  by (simp_all add: with_stop_def)

lemma control_loop_off:
  assumes "\<not> supports_psql_control_commands p" and "pending_psql_command st = None"
  shows "control_loop rules p st cs =
    (case split_loop rules p (cs_core st) cs of
       (core, out) \<Rightarrow> (st\<lparr>cs_core := core\<rparr>, with_stop (cs_stop_on_error st) out))"
  using assms
proof (induction rules p "cs_core st" cs arbitrary: st rule: split_loop.induct)
  case (2 rules p c cs)
  obtain core out n where s: "split_step rules p (cs_core st) c cs = (core, out, n)" using prod_cases3 by blast
  have "control_loop rules p (st\<lparr>cs_core := core\<rparr>) (drop n cs) =
      (case split_loop rules p core (drop n cs) of
         (core', out') \<Rightarrow> (st\<lparr>cs_core := core'\<rparr>, with_stop (cs_stop_on_error st) out'))"
    using 2(1) [of "st\<lparr>cs_core := core\<rparr>" "(out, n)" out n] 2(2,3) s by simp
  then show ?case using 2(2,3) s by (simp add: control_step_def split_beta)
qed simp

lemma push_chunk_off:
  assumes "\<not> supports_psql_control_commands p" and "pending_psql_command st = None"
  shows "push_chunk_with_control rules p st chunk =
    (case push_sql_chunk rules p (cs_core st) chunk of
       (core, out) \<Rightarrow> (st\<lparr>cs_core := core\<rparr>, with_stop (cs_stop_on_error st) out))"
  using assms by (simp add: push_chunk_with_control_def push_sql_chunk_def control_loop_off split_beta)

lemma split_off:
  assumes "\<not> supports_psql_control_commands p"
  shows "split_sql_statements_with_options rules p sql = split_sql_text rules p sql"
  using assms
  by (simp add: split_sql_statements_with_options_def push_chunk_off new_control_splitter_def split_beta
      finish_with_control_def finish_psql_command_def split_sql_text_def)

section \<open>Which text becomes a statement\<close>

lemma split_loop_tag_ok: "tag_ok st \<Longrightarrow> tag_ok (fst (split_loop rules p st cs))"
proof (induction rules p st cs rule: split_loop.induct)
  case (2 rules p st c cs)
  obtain st' out n where s: "split_step rules p st c cs = (st', out, n)" using prod_cases3 by blast
  then show ?case using 2(1) [OF s [symmetric] refl] split_step_consumes [OF s 2(2)] by (simp add: split_beta)
qed simp

lemma push_sql_chunk_consumes:
  assumes "tag_ok st"
  shows "consumes st chunk (push_sql_chunk rules p st chunk) \<and> tag_ok (fst (push_sql_chunk rules p st chunk))"
proof -
  obtain st' where st': "push_sql_chunk rules p st chunk = split_loop rules p st' chunk"
      "sp_buffer st' = sp_buffer st" "dollar_quote_tag st' = dollar_quote_tag st"
    unfolding push_sql_chunk_def by fastforce
  then have "tag_ok st'" using assms by (simp add: tag_ok_def)
  then show ?thesis
    using split_loop_consumes [of st' chunk rules p] split_loop_tag_ok [of st' rules p chunk] st'
    by (simp add: consumes_def)
qed

definition pending_text :: "control_splitter \<Rightarrow> string" where
  "pending_text st = (case pending_psql_command st of None \<Rightarrow> [] | Some command \<Rightarrow> command)"

definition control_consumes ::
  "control_splitter \<Rightarrow> string \<Rightarrow> control_splitter \<times> (string \<times> bool) list \<Rightarrow> bool" where
  "control_consumes st script r \<longleftrightarrow>
     (\<exists>kept t. subseq (kept @ pending_text (fst r)) (pending_text st @ script) \<and>
        sp_buffer (cs_core st) @ kept = t @ sp_buffer (cs_core (fst r)) \<and> pieces (map fst (snd r)) t)"

lemma control_consumesI:
  assumes "consumes (cs_core st) kept (cs_core st', map fst out)"
    and "subseq (kept @ pending_text st') (pending_text st @ script)"
  shows "control_consumes st script (st', out)"
  using assms unfolding control_consumes_def consumes_def by auto

lemma control_consumes_trans:
  assumes "control_consumes st script (st1, out)" and "control_consumes st1 next_part r"
  shows "control_consumes st (script @ next_part) (fst r, out @ snd r)"
proof -
  obtain k t where 1: "subseq (k @ pending_text st1) (pending_text st @ script)"
      "sp_buffer (cs_core st) @ k = t @ sp_buffer (cs_core st1)" "pieces (map fst out) t"
    using assms(1) by (auto simp: control_consumes_def)
  obtain k' t' where 2: "subseq (k' @ pending_text (fst r)) (pending_text st1 @ next_part)"
      "sp_buffer (cs_core st1) @ k' = t' @ sp_buffer (cs_core (fst r))" "pieces (map fst (snd r)) t'"
    using assms(2) by (auto simp: control_consumes_def)
  have "subseq (k @ k' @ pending_text (fst r)) (k @ pending_text st1 @ next_part)"
    using list_emb_append_mono [of "(=)" k k, OF subseq_order.order_refl 2(1)] by simp
  also have "subseq (k @ pending_text st1 @ next_part) (pending_text st @ script @ next_part)"
    using list_emb_append_mono [OF 1(1), of next_part next_part] by simp
  finally have "subseq ((k @ k') @ pending_text (fst r)) (pending_text st @ script @ next_part)" by simp
  moreover have "sp_buffer (cs_core st) @ k @ k' = (t @ t') @ sp_buffer (cs_core (fst r))"
    using 1(2) 2(2) by (metis append_assoc)
  ultimately show ?thesis
    using pieces_append [OF 1(3) 2(3)] unfolding control_consumes_def
    by (intro exI [of _ "k @ k'"] exI [of _ "t @ t'"]) simp
qed

lemma finish_psql_consumes:
  assumes "finish_psql_command rules p st = (st', out)" and "tag_ok (cs_core st)"
  shows "control_consumes st [] (st', out) \<and> tag_ok (cs_core st') \<and> pending_psql_command st' = None"
proof (cases "pending_psql_command st")
  case None
  then show ?thesis
    using assms by (auto simp: finish_psql_command_def intro!: control_consumesI [where kept = "[]"] consumes_push)
next
  case (Some command)
  show ?thesis
  proof (cases "parse_ignorable_psql_control_command (trim command)")
    case None
    let ?r = "push_sql_chunk rules (p\<lparr>supports_psql_control_commands := False\<rparr>) (cs_core st) command"
    have "st' = st\<lparr>pending_psql_command := None, cs_core := fst ?r\<rparr>" "map fst out = snd ?r"
      using assms(1) Some None by (auto simp: finish_psql_command_def split_beta)
    then show ?thesis
      using push_sql_chunk_consumes [OF assms(2), of command] Some
      by (auto simp: pending_text_def intro!: control_consumesI [where kept = command])
  next
    case (Some control)
    then show ?thesis
      using assms \<open>pending_psql_command st = Some command\<close>
      by (auto simp: finish_psql_command_def pending_text_def intro!: control_consumesI [where kept = "[]"] consumes_push)
  qed
qed

lemma control_step_consumes:
  assumes "control_step rules p st c cs = (st', out, n)" and "tag_ok (cs_core st)"
  shows "control_consumes st (c # take n cs) (st', out) \<and> tag_ok (cs_core st')"
proof (cases "pending_psql_command st")
  case (Some command)
  let ?longer = "st\<lparr>pending_psql_command := Some (command @ [c])\<rparr>"
  have l: "control_consumes st [c] (?longer, [])"
    using Some by (auto simp: pending_text_def intro!: control_consumesI [where kept = "[]"] consumes_push)
  show ?thesis
  proof (cases "c = CHR 10")
    case True
    then have f: "finish_psql_command rules p ?longer = (st', out)" and n: "n = 0"
      using assms(1) Some by (auto simp: control_step_def Let_def split: prod.splits)
    then show ?thesis
      using control_consumes_trans [OF l, of "[]" "(st', out)"] finish_psql_consumes [OF f] assms(2) by simp
  next
    case False
    then have "st' = ?longer" "out = []" "n = 0"
      using assms(1) Some by (simp_all add: control_step_def)
    then show ?thesis using l assms(2) by simp
  qed
next
  case None
  show ?thesis
  proof (cases "starts_psql_command p (cs_core st) c")
    case True
    then show ?thesis
      using assms None
      by (auto simp: control_step_def pending_text_def intro!: control_consumesI [where kept = "[]"] consumes_push)
  next
    case False
    obtain core o' m where s: "split_step rules p (cs_core st) c cs = (core, o', m)" using prod_cases3 by blast
    then have "st' = st\<lparr>cs_core := core\<rparr>" "map fst out = o'" "n = m"
      using assms(1) None False by (auto simp: control_step_def)
    then show ?thesis
      using split_step_consumes [OF s assms(2)] None
      by (auto simp: pending_text_def intro!: control_consumesI [where kept = "c # take m cs"])
  qed
qed

lemma control_loop_consumes:
  "tag_ok (cs_core st) \<Longrightarrow>
     control_consumes st cs (control_loop rules p st cs) \<and> tag_ok (cs_core (fst (control_loop rules p st cs)))"
proof (induction rules p st cs rule: control_loop.induct)
  case (1 rules p st)
  then show ?case by (auto intro!: control_consumesI [where kept = "[]"] consumes_push)
next
  case (2 rules p st c cs)
  obtain st' out n where s: "control_step rules p st c cs = (st', out, n)" using prod_cases3 by blast
  have step: "control_consumes st (c # take n cs) (st', out)" "tag_ok (cs_core st')"
    using control_step_consumes [OF s 2(2)] by auto
  have ih: "control_consumes st' (drop n cs) (control_loop rules p st' (drop n cs))"
      "tag_ok (cs_core (fst (control_loop rules p st' (drop n cs))))"
    using 2(1) [OF s [symmetric] refl step(2)] by auto
  have "control_consumes st ((c # take n cs) @ drop n cs)
      (fst (control_loop rules p st' (drop n cs)), out @ snd (control_loop rules p st' (drop n cs)))"
    using control_consumes_trans [OF step(1) ih(1)] .
  then show ?case using ih(2) by (simp add: s split_beta)
qed

lemma split_with_control_pieces:
  "\<exists>kept. subseq kept sql \<and> pieces (split_sql_statements_with_options rules p sql) kept"
proof -
  obtain st out where l: "control_loop rules p new_control_splitter sql = (st, out)" by fastforce
  obtain st' out' where f: "finish_psql_command rules p st = (st', out')" by fastforce
  have new: "tag_ok (cs_core new_control_splitter)" "sp_buffer (cs_core new_control_splitter) = []"
      "pending_text new_control_splitter = []"
    by (simp_all add: new_control_splitter_def tag_ok_def new_splitter_def pending_text_def)
  have c: "control_consumes new_control_splitter sql (st, out)" "tag_ok (cs_core st)"
    using control_loop_consumes [OF new(1), of sql rules p] by (simp_all add: l)
  have "control_consumes new_control_splitter sql (st', out @ out')"
    using control_consumes_trans [OF c(1), of "[]" "(st', out')"] finish_psql_consumes [OF f c(2)] by simp
  then obtain kept t where k: "subseq (kept @ pending_text st') sql" "kept = t @ sp_buffer (cs_core st')"
      "pieces (map fst (out @ out')) t"
    by (auto simp: control_consumes_def new)
  have "subseq kept sql" using k(1) by (metis subseq_order.trans subseq_rev_drop_many subseq_order.order_refl)
  moreover have "pieces (map fst (out @ out') @ finish_splitter p (cs_core st')) kept"
    using pieces_append [OF k(3) finish_pieces [of p "cs_core st'"]] k(2) by simp
  moreover have "split_sql_statements_with_options rules p sql =
      map fst (out @ out') @ finish_splitter p (cs_core st')"
    using l f by (simp add: split_sql_statements_with_options_def push_chunk_with_control_def
        finish_with_control_def new_control_splitter_def new_splitter_def)
  ultimately show ?thesis by auto
qed

section \<open>Preprocessing keeps positions\<close>

lemma concat_split_inclusive: "concat (split_inclusive_lines s) = s"
  by (induction s) (auto split: list.split)

lemma scan_blank: "list_all2 (\<lambda>a b. b = a \<or> b = CHR '' '' \<and> \<not> is_whitespace a) line (blank_line line)"
  by (simp add: blank_line_def list_all2_map2 list_all2_same)

lemma preprocess_segments_aligned:
  "list_all2 (\<lambda>a b. b = a \<or> b = CHR '' '' \<and> \<not> is_whitespace a) (concat segs)
     (fst (preprocess_segments p before segs st stop))"
proof (induction p before segs st stop rule: preprocess_segments.induct)
  case (2 p before segment segments st stop)
  have rfl: "list_all2 (\<lambda>a b. b = a \<or> b = CHR '' '' \<and> \<not> is_whitespace a) x x" for x
    by (simp add: list_all2_same)
  define ended where "ended = ends_with [CHR 10] segment"
  define line where "line = (if ended then butlast segment else segment)"
  have seg: "segment = line @ (if ended then [CHR 10] else [])"
  proof (cases ended)
    case True
    then obtain a where "segment = a @ [CHR 10]"
      by (auto simp: ended_def ends_with_def intro!: that [of "take (length segment - 1) segment"]) (metis append_take_drop_id)
    then show ?thesis using True by (simp add: line_def)
  qed (simp add: line_def)
  show ?case
  proof (cases "if scanner_is_masked st then None else parse_ignorable_psql_control_command (trim line)")
    case None
    then show ?thesis
      using 2(1) [OF ended_def line_def refl None] rfl
      unfolding preprocess_segments.simps Let_def ended_def [symmetric] line_def [symmetric] None option.case
      by (simp add: split_beta list_all2_appendI)
  next
    case (Some command)
    then show ?thesis
      using 2(2) [OF ended_def line_def refl Some] rfl scan_blank [of line] seg
      unfolding preprocess_segments.simps Let_def ended_def [symmetric] line_def [symmetric] Some option.case
      by (simp add: split_beta list_all2_appendI)
  qed
qed simp

end
