(* ===== verification/Sql_Blocks.thy ===== *)
theory Sql_Blocks
  imports Sql_Control
begin

text \<open>
  The recognisers of stored-routine blocks in \<^verbatim>\<open>crates/dbx-sql-core/src/sql.rs\<close>: MySQL routine bodies,
  Oracle PL/SQL blocks with the incremental tracker the splitter uses, HANA and Firebird script blocks and
  T-SQL control-flow batches. \<open>routine_blocks\<close> collects them for the splitter. The tokenizer of the
  \<^verbatim>\<open>sqlparser\<close> crate is an argument; the code's own fallback tokenizer is modelled.
\<close>

section \<open>Leading comments and first words\<close>

text \<open>
  \<^verbatim>\<open>find_block_comment_close\<close> from the text after the opener; the result is the length of the comment body.
\<close>

fun find_block_comment_close :: "bool \<Rightarrow> nat \<Rightarrow> string \<Rightarrow> nat option" where
  "find_block_comment_close nested depth (a # b # rest) =
     (if a = CHR ''*'' \<and> b = CHR ''/'' then
        (if depth = 1 then Some 0 else map_option ((+) 2) (find_block_comment_close nested (depth - 1) rest))
      else if nested \<and> a = CHR ''/'' \<and> b = CHR ''*'' then
        map_option ((+) 2) (find_block_comment_close nested (depth + 1) rest)
      else map_option Suc (find_block_comment_close nested depth (b # rest)))"
| "find_block_comment_close nested depth _ = None"

definition starts_executable_comment :: "string \<Rightarrow> bool" where
  "starts_executable_comment s \<longleftrightarrow> starts_with ''!'' s \<or> starts_with ''M!'' s"

lemma dropWhile_shorter: "length (dropWhile P s) \<le> length s"
  by (rule length_dropWhile_le)

function leading_executable_sql_with_options :: "sql_dialect_profile \<Rightarrow> string \<Rightarrow> string" where
  "leading_executable_sql_with_options p s =
     (case dropWhile is_ascii_whitespace s of
        [] \<Rightarrow> []
      | c # cs \<Rightarrow>
          if c = CHR ''-'' \<and> starts_with ''-'' cs then
            leading_executable_sql_with_options p (dropWhile (\<lambda>d. d \<noteq> CHR 10) (drop 1 cs))
          else if supports_hash_line_comments p \<and> c = CHR ''#'' then
            leading_executable_sql_with_options p (dropWhile (\<lambda>d. d \<noteq> CHR 10) cs)
          else if c = CHR ''/'' \<and> starts_with ''*'' cs then
            (if starts_executable_comment (drop 1 cs) then c # cs
             else
               (case find_block_comment_close (supports_nested_block_comments p) 1 (drop 1 cs) of
                  None \<Rightarrow> []
                | Some n \<Rightarrow> leading_executable_sql_with_options p (drop (n + 3) cs)))
          else c # cs)"
  by pat_completeness auto
termination
proof (relation "measure (\<lambda>(_, s). length s)")
  fix s :: string and c :: char and cs :: string and n :: nat
  assume s: "dropWhile is_ascii_whitespace s = c # cs"
  have le: "length (c # cs) \<le> length s" using dropWhile_shorter [of is_ascii_whitespace s] unfolding s .
  have "length (dropWhile (\<lambda>d. d \<noteq> CHR 10) (drop 1 cs)) \<le> length (drop 1 cs)" by (rule dropWhile_shorter)
  then show "((p, dropWhile (\<lambda>d. d \<noteq> CHR 10) (drop 1 cs)), p, s) \<in> measure (\<lambda>(_, s). length s)" for p
    using le unfolding length_drop by (simp add: le_less_trans)
  have "length (dropWhile (\<lambda>d. d \<noteq> CHR 10) cs) \<le> length cs" by (rule dropWhile_shorter)
  then show "((p, dropWhile (\<lambda>d. d \<noteq> CHR 10) cs), p, s) \<in> measure (\<lambda>(_, s). length s)" for p
    using le by simp
  show "((p, drop (n + 3) cs), p, s) \<in> measure (\<lambda>(_, s). length s)" for p
    using le by simp
qed simp

declare leading_executable_sql_with_options.simps [simp del]

definition skip_line :: "string \<Rightarrow> string" where
  "skip_line s = drop 1 (dropWhile (\<lambda>c. c \<noteq> CHR 10) s)"

fun skip_block :: "char option \<Rightarrow> string \<Rightarrow> string" where
  "skip_block prev [] = []"
| "skip_block prev (c # cs) =
     (if prev = Some (CHR ''*'') \<and> c = CHR ''/'' then cs else skip_block (Some c) cs)"

lemma skip_line_shorter [simp]: "length (skip_line s) \<le> length s"
  using dropWhile_shorter [of "\<lambda>c. c \<noteq> CHR 10" s] unfolding skip_line_def length_drop by linarith

lemma skip_block_shorter [simp]: "length (skip_block p s) \<le> length s"
  by (induction p s rule: skip_block.induct) auto

definition flush_token :: "string list \<Rightarrow> string \<Rightarrow> string list" where
  "flush_token tokens token = (if token = [] then tokens else tokens @ [token])"

definition first_tokens_step ::
  "string list \<Rightarrow> string \<Rightarrow> char \<Rightarrow> string \<Rightarrow> string list \<times> string \<times> string" where
  "first_tokens_step tokens token c cs =
     (if c = CHR ''-'' \<and> starts_with ''-'' cs then (flush_token tokens token, [], skip_line (drop 1 cs))
      else if c = CHR ''/'' \<and> starts_with ''*'' cs then (flush_token tokens token, [], skip_block None (drop 1 cs))
      else if is_ascii_alphanumeric c \<or> c = CHR ''_'' then (tokens, token @ [c], cs)
      else (flush_token tokens token, [], cs))"

lemma first_tokens_step_shorter:
  "first_tokens_step tokens token c cs = (tokens', token', cs') \<Longrightarrow> length cs' \<le> length cs"
  using skip_line_shorter [of "drop 1 cs"] skip_block_shorter [of None "drop 1 cs"]
  by (auto simp: first_tokens_step_def split: if_splits)

function first_tokens_loop :: "nat \<Rightarrow> string list \<Rightarrow> string \<Rightarrow> string \<Rightarrow> string list" where
  "first_tokens_loop limit tokens token [] =
     (if length tokens < limit \<and> token \<noteq> [] then tokens @ [token] else tokens)"
| "first_tokens_loop limit tokens token (c # cs) =
     (case first_tokens_step tokens token c cs of
        (tokens', token', cs') \<Rightarrow>
          if length tokens' \<ge> limit then tokens' else first_tokens_loop limit tokens' token' cs')"
  by pat_completeness auto
termination
  by (relation "measure (\<lambda>(_, _, _, s). length s)") (auto simp: le_imp_less_Suc split: prod.split dest: first_tokens_step_shorter)

definition first_sql_tokens :: "string \<Rightarrow> nat \<Rightarrow> string list" where
  "first_sql_tokens sql limit = first_tokens_loop limit [] [] sql"

section \<open>MySQL routines\<close>

datatype routine_mode = InCode | InLineComment | InBlockComment | InSingleQuote | InDoubleQuote | InBacktick

text \<open>
  One pass of \<^verbatim>\<open>mysql_routine_tokens\<close>: the token found, the new mode, and how many further characters
  are consumed.
\<close>

definition routine_quoted_step :: "char \<Rightarrow> bool \<Rightarrow> routine_mode \<Rightarrow> char \<Rightarrow> string \<Rightarrow> routine_mode \<times> nat" where
  "routine_quoted_step quote escapes mode c cs =
     (if escapes \<and> c = CHR 92 \<and> cs \<noteq> [] then (mode, 1)
      else if c = quote then (if starts_with [quote] cs then (mode, 1) else (InCode, 0))
      else (mode, 0))"

definition routine_code_step :: "char \<Rightarrow> string \<Rightarrow> string list \<times> routine_mode \<times> nat" where
  "routine_code_step c cs =
     (if c = CHR ''-'' \<and> starts_with ''-'' cs then ([], InLineComment, 1)
      else if c = CHR ''#'' then ([], InLineComment, 0)
      else if c = CHR ''/'' \<and> starts_with ''*'' cs then ([], InBlockComment, 1)
      else if c = CHR 39 then ([], InSingleQuote, 0)
      else if c = CHR 34 then ([], InDoubleQuote, 0)
      else if c = CHR 96 then ([], InBacktick, 0)
      else if c = CHR '';'' then (['';''], InCode, 0)
      else if c = CHR ''_'' \<or> is_ascii_alphabetic c then
        (let word = takeWhile is_sql_ident_char cs in ([to_ascii_uppercase (c # word)], InCode, length word))
      else ([], InCode, 0))"

definition routine_step :: "routine_mode \<Rightarrow> char \<Rightarrow> string \<Rightarrow> string list \<times> routine_mode \<times> nat" where
  "routine_step mode c cs =
     (case mode of
        InLineComment \<Rightarrow> ([], if c = CHR 10 then InCode else InLineComment, 0)
      | InBlockComment \<Rightarrow>
          if c = CHR ''*'' \<and> starts_with ''/'' cs then ([], InCode, 1) else ([], InBlockComment, 0)
      | InSingleQuote \<Rightarrow> ([], routine_quoted_step (CHR 39) True mode c cs)
      | InDoubleQuote \<Rightarrow> ([], routine_quoted_step (CHR 34) True mode c cs)
      | InBacktick \<Rightarrow> ([], routine_quoted_step (CHR 96) False mode c cs)
      | InCode \<Rightarrow> routine_code_step c cs)"

function routine_tokens_loop :: "routine_mode \<Rightarrow> string \<Rightarrow> string list" where
  "routine_tokens_loop mode [] = []"
| "routine_tokens_loop mode (c # cs) =
     (case routine_step mode c cs of (out, mode', n) \<Rightarrow> out @ routine_tokens_loop mode' (drop n cs))"
  by pat_completeness auto
termination by (relation "measure (\<lambda>(_, s). length s)") auto

definition mysql_routine_tokens :: "string \<Rightarrow> string list" where
  "mysql_routine_tokens sql = routine_tokens_loop InCode sql"

definition routine_keywords :: "string list" where
  "routine_keywords = [''PROCEDURE'', ''FUNCTION'', ''TRIGGER'', ''EVENT'']"

definition other_create_keywords :: "string list" where
  "other_create_keywords = [''DATABASE'', ''INDEX'', ''LOGFILE'', ''ROLE'', ''SCHEMA'', ''SERVER'', ''SPATIAL'',
     ''TABLE'', ''TEMPORARY'', ''UNIQUE'', ''USER'', ''VIEW'']"

definition any_ignore_case :: "string list \<Rightarrow> string \<Rightarrow> bool" where
  "any_ignore_case keywords token \<longleftrightarrow> list_ex (\<lambda>k. eq_ignore_ascii_case token k) keywords"

fun names_routine :: "string list \<Rightarrow> bool" where
  "names_routine [] = False"
| "names_routine (token # tokens) =
     (if any_ignore_case routine_keywords token then True
      else if any_ignore_case other_create_keywords token then False
      else names_routine tokens)"

definition is_mysql_routine_ddl_start :: "string \<Rightarrow> bool" where
  "is_mysql_routine_ddl_start sql =
     (case first_sql_tokens (leading_executable_sql_with_options mysql_compatible_profile sql) 16 of
        [] \<Rightarrow> False
      | token # tokens \<Rightarrow> eq_ignore_ascii_case token ''CREATE'' \<and> names_routine tokens)"

definition starts_with_mysql_routine_block_impl :: "string \<Rightarrow> bool" where
  "starts_with_mysql_routine_block_impl sql \<longleftrightarrow>
     is_mysql_routine_ddl_start sql \<and>
     list_ex (\<lambda>token. eq_ignore_ascii_case token ''BEGIN'') (mysql_routine_tokens sql)"

datatype mysql_routine_block_type = MysqlBegin | MysqlCase

definition mysql_routine_word :: "string list \<Rightarrow> string option" where
  "mysql_routine_word tokens = find (\<lambda>token. token \<noteq> '';'') tokens"

definition word_is :: "string option \<Rightarrow> string \<Rightarrow> bool" where
  "word_is word keyword = (case word of None \<Rightarrow> False | Some w \<Rightarrow> eq_ignore_ascii_case w keyword)"

definition is_mysql_control_block_suffix :: "string \<Rightarrow> bool" where
  "is_mysql_control_block_suffix token = any_ignore_case [''IF'', ''LOOP'', ''CASE'', ''REPEAT'', ''WHILE''] token"

text \<open>
  The loop of \<^verbatim>\<open>mysql_routine_block_is_complete\<close>; \<open>before\<close> holds the tokens already read, last first, and
  the stack has its top first.
\<close>

fun mysql_block_walk ::
  "string list \<Rightarrow> string list \<Rightarrow> mysql_routine_block_type list \<Rightarrow> bool \<Rightarrow> mysql_routine_block_type list \<times> bool" where
  "mysql_block_walk before [] stack saw_begin = (stack, saw_begin)"
| "mysql_block_walk before (token # tokens) stack saw_begin =
     (let prev = mysql_routine_word before;
          suffix = mysql_routine_word tokens;
          continue = mysql_block_walk (token # before) tokens
      in
      if token = '';'' then continue stack saw_begin
      else if eq_ignore_ascii_case token ''BEGIN'' then
        (if word_is prev ''END'' then continue stack saw_begin else continue (MysqlBegin # stack) True)
      else if eq_ignore_ascii_case token ''CASE'' then
        (if word_is prev ''END'' then continue stack saw_begin else continue (MysqlCase # stack) saw_begin)
      else if eq_ignore_ascii_case token ''END'' \<and> saw_begin then
        (if word_is suffix ''CASE'' then
           (case stack of MysqlCase # rest \<Rightarrow> continue rest saw_begin | _ \<Rightarrow> continue stack saw_begin)
         else if (case suffix of None \<Rightarrow> False | Some w \<Rightarrow> is_mysql_control_block_suffix w)
         then continue stack saw_begin
         else continue (drop 1 stack) saw_begin)
      else continue stack saw_begin)"

definition mysql_routine_block_is_complete_impl :: "string \<Rightarrow> bool" where
  "mysql_routine_block_is_complete_impl sql =
     (if \<not> starts_with_mysql_routine_block_impl sql then False
      else
        (let tokens = mysql_routine_tokens sql in
         case mysql_block_walk [] tokens [] False of
           (stack, saw_begin) \<Rightarrow> saw_begin \<and> stack = [] \<and> tokens \<noteq> [] \<and> last tokens = '';''))"

section \<open>Oracle tokens\<close>

text \<open>The cases of \<^verbatim>\<open>sqlparser::tokenizer::Token\<close> the code distinguishes; a word carries its value and its quoting.\<close>

datatype sqlparser_token = TWord string bool | TSemiColon | TWhitespace | TPlaceholder | TOther

type_synonym tokenizer = "string \<Rightarrow> sqlparser_token list option"

datatype oracle_plsql_token = PWord string | QuotedIdentifier | PSemicolon | POther

definition from_sqlparser_token :: "sqlparser_token \<Rightarrow> oracle_plsql_token option" where
  "from_sqlparser_token t =
     (case t of
        TWord value quoted \<Rightarrow> if quoted then Some QuotedIdentifier else Some (PWord (to_ascii_uppercase value))
      | TSemiColon \<Rightarrow> Some PSemicolon
      | TWhitespace \<Rightarrow> None
      | TPlaceholder \<Rightarrow> None
      | TOther \<Rightarrow> Some POther)"

definition is_plsql_word :: "string \<Rightarrow> oracle_plsql_token \<Rightarrow> bool" where
  "is_plsql_word expected t \<longleftrightarrow> t = PWord expected"

definition as_word :: "oracle_plsql_token \<Rightarrow> string option" where
  "as_word t = (case t of PWord w \<Rightarrow> Some w | _ \<Rightarrow> None)"

definition is_any_word :: "string list \<Rightarrow> oracle_plsql_token \<Rightarrow> bool" where
  "is_any_word expected t \<longleftrightarrow> list_ex (\<lambda>w. is_plsql_word w t) expected"

definition push_other_token :: "oracle_plsql_token list \<Rightarrow> oracle_plsql_token list" where
  "push_other_token tokens = (if tokens \<noteq> [] \<and> last tokens = POther then tokens else tokens @ [POther])"

fun collect_tokens :: "oracle_plsql_token list \<Rightarrow> sqlparser_token list \<Rightarrow> oracle_plsql_token list" where
  "collect_tokens out [] = out"
| "collect_tokens out (t # ts) =
     (case from_sqlparser_token t of
        None \<Rightarrow> collect_tokens out ts
      | Some POther \<Rightarrow> collect_tokens (push_other_token out) ts
      | Some mapped \<Rightarrow> collect_tokens (out @ [mapped]) ts)"

text \<open>The loops that skip a quoted string and a quoted identifier in the fallback tokenizer.\<close>

fun skip_quoted :: "string \<Rightarrow> string" where
  "skip_quoted (c # d # ds) =
     (if c = CHR 39 then (if d = CHR 39 then skip_quoted ds else d # ds) else skip_quoted (d # ds))"
| "skip_quoted _ = []"

definition fallback_step :: "oracle_plsql_token list \<Rightarrow> char \<Rightarrow> string \<Rightarrow> oracle_plsql_token list \<times> string" where
  "fallback_step tokens c cs =
     (if is_whitespace c then (tokens, cs)
      else if c = CHR ''-'' \<and> starts_with ''-'' cs then (tokens, skip_line (drop 1 cs))
      else if c = CHR ''/'' \<and> starts_with ''*'' cs then (tokens, skip_block None (drop 1 cs))
      else if c = CHR 39 then (push_other_token tokens, skip_quoted cs)
      else if c = CHR 34 then (tokens @ [QuotedIdentifier], drop 1 (dropWhile (\<lambda>d. d \<noteq> CHR 34) cs))
      else if c = CHR '';'' then (tokens @ [PSemicolon], cs)
      else if is_ascii_alphabetic c \<or> c = CHR ''_'' then
        (let word = takeWhile (\<lambda>d. is_ascii_alphanumeric d \<or> d = CHR ''_'' \<or> d = CHR ''$'' \<or> d = CHR ''#'') cs in
         (tokens @ [PWord (to_ascii_uppercase (c # word))], drop (length word) cs))
      else (push_other_token tokens, cs))"

lemma skip_quoted_shorter: "length (skip_quoted s) \<le> length s"
proof (induction s rule: skip_quoted.induct)
  case (1 c d ds)
  then show ?case by (cases "c = CHR 39"; cases "d = CHR 39") simp_all
qed simp_all

lemma fallback_step_shorter: "length (snd (fallback_step tokens c cs)) \<le> length cs"
proof -
  have "length (drop 1 s) \<le> length s" for s :: string by simp
  then have "length (skip_line (drop 1 cs)) \<le> length cs" "length (skip_block None (drop 1 cs)) \<le> length cs"
      "length (drop 1 (dropWhile (\<lambda>d. d \<noteq> CHR 34) cs)) \<le> length cs"
    using skip_line_shorter skip_block_shorter dropWhile_shorter le_trans by meson+
  moreover have "length (skip_quoted cs) \<le> length cs" by (rule skip_quoted_shorter)
  ultimately show ?thesis unfolding fallback_step_def Let_def by (simp only: split: if_split) simp
qed

function fallback_loop :: "oracle_plsql_token list \<Rightarrow> string \<Rightarrow> oracle_plsql_token list" where
  "fallback_loop tokens [] = tokens"
| "fallback_loop tokens (c # cs) =
     (case fallback_step tokens c cs of (tokens', cs') \<Rightarrow> fallback_loop tokens' cs')"
  by pat_completeness auto
termination
proof (relation "measure (\<lambda>(_, s). length s)")
  fix tokens c cs x y assume e: "(x, y) = fallback_step tokens c cs"
  have "length y \<le> length cs" using fallback_step_shorter [of tokens c cs] unfolding e [symmetric] snd_conv .
  then show "((x, y), tokens, c # cs) \<in> measure (\<lambda>(_, s). length s)" by simp
qed simp

definition oracle_plsql_tokens_fallback :: "string \<Rightarrow> oracle_plsql_token list" where
  "oracle_plsql_tokens_fallback sql = fallback_loop [] sql"

definition oracle_plsql_tokens :: "tokenizer \<Rightarrow> string \<Rightarrow> oracle_plsql_token list" where
  "oracle_plsql_tokens tok sql =
     (case tok sql of Some tokens \<Rightarrow> collect_tokens [] tokens | None \<Rightarrow> oracle_plsql_tokens_fallback sql)"

definition adjacent_word :: "oracle_plsql_token list \<Rightarrow> nat \<Rightarrow> string option" where
  "adjacent_word tokens index = (if index < length tokens then as_word (tokens ! index) else None)"

definition previous_adjacent_word :: "oracle_plsql_token list \<Rightarrow> nat \<Rightarrow> string option" where
  "previous_adjacent_word tokens index = (if index = 0 then None else adjacent_word tokens (index - 1))"

definition next_adjacent_word :: "oracle_plsql_token list \<Rightarrow> nat \<Rightarrow> string option" where
  "next_adjacent_word tokens index = adjacent_word tokens (index + 1)"

section \<open>Oracle PL/SQL blocks\<close>

fun skip_create_modifiers :: "oracle_plsql_token list \<Rightarrow> oracle_plsql_token list" where
  "skip_create_modifiers [] = []"
| "skip_create_modifiers [t] =
     (if is_any_word [''FORCE'', ''NOFORCE'', ''EDITIONABLE'', ''NONEDITIONABLE''] t then [] else [t])"
| "skip_create_modifiers (t # u # ts) =
     (if is_plsql_word ''OR'' t \<and> is_plsql_word ''REPLACE'' u then skip_create_modifiers ts
      else if is_any_word [''FORCE'', ''NOFORCE'', ''EDITIONABLE'', ''NONEDITIONABLE''] t
      then skip_create_modifiers (u # ts)
      else t # u # ts)"

definition is_transaction_begin_tail :: "oracle_plsql_token \<Rightarrow> bool" where
  "is_transaction_begin_tail t \<longleftrightarrow> t = PSemicolon \<or> is_any_word [''TRANSACTION'', ''WORK''] t"

definition body_follows :: "oracle_plsql_token list \<Rightarrow> bool" where
  "body_follows ts = (case ts of [] \<Rightarrow> False | body # _ \<Rightarrow> is_plsql_word ''BODY'' body)"

definition starts_create_plsql_object :: "oracle_plsql_token list \<Rightarrow> bool" where
  "starts_create_plsql_object tokens =
     (case skip_create_modifiers tokens of
        [] \<Rightarrow> False
      | object # ts \<Rightarrow>
          if is_any_word [''PACKAGE'', ''TYPE''] object \<and> body_follows ts then True
          else if is_plsql_word ''TYPE'' object then False
          else is_any_word [''FUNCTION'', ''PROCEDURE'', ''TRIGGER'', ''PACKAGE''] object)"

definition starts_with_function_declaration :: "oracle_plsql_token list \<Rightarrow> bool" where
  "starts_with_function_declaration tokens =
     (case tokens of
        t # u # _ \<Rightarrow> is_plsql_word ''WITH'' t \<and> is_any_word [''FUNCTION'', ''PROCEDURE''] u
      | _ \<Rightarrow> False)"

definition starts_block :: "oracle_plsql_token list \<Rightarrow> bool" where
  "starts_block tokens =
     (case tokens of
        [] \<Rightarrow> False
      | t # ts \<Rightarrow>
          if is_plsql_word ''DECLARE'' t then True
          else if is_plsql_word ''BEGIN'' t \<and> (case ts of [] \<Rightarrow> False | u # _ \<Rightarrow> \<not> is_transaction_begin_tail u)
          then True
          else if starts_with_function_declaration tokens then True
          else is_plsql_word ''CREATE'' t \<and> starts_create_plsql_object ts)"

fun routine_body_starts_with_plsql_keyword :: "oracle_plsql_token list \<Rightarrow> bool" where
  "routine_body_starts_with_plsql_keyword [] = False"
| "routine_body_starts_with_plsql_keyword (t # ts) =
     (if is_any_word [''AS'', ''IS''] t
      then (case ts of [] \<Rightarrow> False | u # _ \<Rightarrow> is_any_word [''DECLARE'', ''BEGIN''] u)
      else routine_body_starts_with_plsql_keyword ts)"

definition starts_oracle_style_routine_body :: "oracle_plsql_token list \<Rightarrow> bool" where
  "starts_oracle_style_routine_body tokens =
     (case tokens of
        [] \<Rightarrow> False
      | t # ts \<Rightarrow>
          is_plsql_word ''CREATE'' t \<and>
          (case skip_create_modifiers ts of
             [] \<Rightarrow> False
           | object # rest \<Rightarrow>
               if is_any_word [''PACKAGE'', ''TYPE''] object \<and> body_follows rest then True
               else is_any_word [''FUNCTION'', ''PROCEDURE''] object \<and>
                 routine_body_starts_with_plsql_keyword (object # rest)))"

datatype oracle_create_object_kind = ObjectSpec | ObjectBody

datatype oracle_scope = ScopeObject | ScopeDeclaration | ScopeRoutineHeader | ScopeRoutine | ScopeBlock | ScopeCase

definition is_compound_trigger_header :: "oracle_plsql_token list \<Rightarrow> bool" where
  "is_compound_trigger_header tokens =
     (let header = takeWhile (\<lambda>t. \<not> (t = PSemicolon \<or> is_any_word [''BEGIN'', ''DECLARE'', ''CALL''] t)) tokens in
      list_ex (\<lambda>(a, b). is_plsql_word ''COMPOUND'' a \<and> is_plsql_word ''TRIGGER'' b) (zip header (drop 1 header)))"

definition create_object_kind :: "oracle_plsql_token list \<Rightarrow> oracle_create_object_kind option" where
  "create_object_kind tokens =
     (case tokens of
        [] \<Rightarrow> None
      | t # ts \<Rightarrow>
          if \<not> is_plsql_word ''CREATE'' t then None
          else
            (case skip_create_modifiers ts of
               [] \<Rightarrow> None
             | object # rest \<Rightarrow>
                 if is_any_word [''PACKAGE'', ''TYPE''] object \<and> body_follows rest then Some ObjectBody
                 else if is_plsql_word ''TRIGGER'' object \<and> is_compound_trigger_header rest then Some ObjectBody
                 else if is_plsql_word ''PACKAGE'' object then Some ObjectSpec
                 else None))"

definition is_create_routine :: "oracle_plsql_token list \<Rightarrow> bool" where
  "is_create_routine tokens =
     (case tokens of
        [] \<Rightarrow> False
      | t # ts \<Rightarrow>
          is_plsql_word ''CREATE'' t \<and>
          (case skip_create_modifiers ts of
             [] \<Rightarrow> False | object # _ \<Rightarrow> is_any_word [''PROCEDURE'', ''FUNCTION''] object))"

text \<open>The resumable BEGIN/END walk; \<open>scopes\<close> has the innermost scope first.\<close>

record oracle_walk =
  object_kind :: "oracle_create_object_kind option"
  scopes :: "oracle_scope list"
  awaiting_routine_declarations :: bool
  saw_begin :: bool
  complete :: bool
  next_index :: nat

definition new_walk :: "oracle_plsql_token list \<Rightarrow> oracle_walk" where
  "new_walk tokens =
     \<lparr>object_kind = create_object_kind tokens,
      scopes = (if create_object_kind tokens = None then [] else [ScopeObject]),
      awaiting_routine_declarations = is_create_routine tokens,
      saw_begin = False, complete = False, next_index = 0\<rparr>"

definition innermost :: "oracle_walk \<Rightarrow> oracle_scope option" where
  "innermost w = (case scopes w of [] \<Rightarrow> None | s # _ \<Rightarrow> Some s)"

definition pop_scope :: "oracle_walk \<Rightarrow> oracle_walk" where
  "pop_scope w =
     (case scopes w of [] \<Rightarrow> w | _ # rest \<Rightarrow> w\<lparr>scopes := rest, complete := rest = []\<rparr>)"

definition walk_step :: "oracle_plsql_token list \<Rightarrow> nat \<Rightarrow> oracle_walk \<Rightarrow> oracle_walk" where
  "walk_step tokens index w =
     (let token = tokens ! index; top = innermost w in
      if token = PSemicolon then
        (if top = Some ScopeRoutineHeader then w\<lparr>scopes := drop 1 (scopes w)\<rparr> else w)
      else if awaiting_routine_declarations w \<and> is_any_word [''IS'', ''AS''] token then
        w\<lparr>awaiting_routine_declarations := False, scopes := ScopeDeclaration # scopes w\<rparr>
      else if is_plsql_word ''DECLARE'' token then
        (if top = Some ScopeDeclaration then w else w\<lparr>scopes := ScopeDeclaration # scopes w\<rparr>)
      else if is_any_word [''PROCEDURE'', ''FUNCTION''] token \<and>
          (top = Some ScopeDeclaration \<or> top = Some ScopeRoutine) then
        w\<lparr>scopes := ScopeRoutineHeader # scopes w\<rparr>
      else if is_any_word [''IS'', ''AS''] token \<and> top = Some ScopeRoutineHeader then
        w\<lparr>scopes := ScopeRoutine # drop 1 (scopes w)\<rparr>
      else if is_plsql_word ''BEGIN'' token then
        w\<lparr>scopes := ScopeBlock #
             (if top = Some ScopeDeclaration \<or> top = Some ScopeRoutine then drop 1 (scopes w) else scopes w),
           saw_begin := True, complete := False\<rparr>
      else if is_plsql_word ''CASE'' token then
        (if previous_adjacent_word tokens index = Some ''END'' then w
         else w\<lparr>scopes := ScopeCase # scopes w\<rparr>)
      else if is_plsql_word ''END'' token then
        (let following = next_adjacent_word tokens index in
         if following = Some ''IF'' \<or> following = Some ''LOOP'' then w
         else if following = Some ''CASE'' \<and> top \<noteq> Some ScopeCase then w
         else pop_scope w)
      else w)"

function walk_advance :: "oracle_plsql_token list \<Rightarrow> oracle_walk \<Rightarrow> oracle_walk" where
  "walk_advance tokens w =
     (if next_index w < length tokens
      then walk_advance tokens ((walk_step tokens (next_index w) w)\<lparr>next_index := next_index w + 1\<rparr>)
      else w)"
  by pat_completeness auto
termination by (relation "measure (\<lambda>(tokens, w). length tokens - next_index w)") auto

declare walk_advance.simps [simp del]

definition walk_is_complete :: "oracle_walk \<Rightarrow> bool" where
  "walk_is_complete w = (if object_kind w = None then saw_begin w \<and> complete w else complete w)"

text \<open>The loop of \<^verbatim>\<open>with_function_is_complete\<close>: the word that opens the main query, and the scope changes.\<close>

definition opens_main_query :: "nat \<Rightarrow> oracle_scope list \<Rightarrow> string \<Rightarrow> bool" where
  "opens_main_query index scps word \<longleftrightarrow> index > 0 \<and> scps = [] \<and>
     word \<in> set [''SELECT'', ''INSERT'', ''UPDATE'', ''DELETE'', ''MERGE'', ''WITH'']"

definition with_function_scopes ::
  "oracle_plsql_token list \<Rightarrow> nat \<Rightarrow> string \<Rightarrow> oracle_scope list \<Rightarrow> oracle_scope list" where
  "with_function_scopes tokens index word scps =
     (if word = ''BEGIN'' then ScopeBlock # scps
      else if word = ''CASE'' \<and> previous_adjacent_word tokens index \<noteq> Some ''END'' then ScopeCase # scps
      else if word = ''END'' then
        (let following = next_adjacent_word tokens index in
         if following = Some ''IF'' \<or> following = Some ''LOOP'' then scps
         else if following = Some ''CASE'' \<and> \<not> (scps \<noteq> [] \<and> hd scps = ScopeCase) then scps
         else drop 1 scps)
      else scps)"

fun with_function_loop ::
  "oracle_plsql_token list \<Rightarrow> nat \<Rightarrow> oracle_plsql_token list \<Rightarrow> oracle_scope list \<Rightarrow> bool \<Rightarrow> bool" where
  "with_function_loop tokens index [] scps in_main_query = False"
| "with_function_loop tokens index (t # ts) scps in_main_query =
     (if t = PSemicolon \<and> in_main_query \<and> scps = [] then True
      else
        (case as_word t of
           None \<Rightarrow> with_function_loop tokens (index + 1) ts scps in_main_query
         | Some word \<Rightarrow>
             if opens_main_query index scps word then with_function_loop tokens (index + 1) ts scps True
             else with_function_loop tokens (index + 1) ts (with_function_scopes tokens index word scps) in_main_query))"

definition ends_with_semicolon :: "oracle_plsql_token list \<Rightarrow> bool" where
  "ends_with_semicolon tokens \<longleftrightarrow> tokens \<noteq> [] \<and> last tokens = PSemicolon"

definition with_function_is_complete :: "oracle_plsql_token list \<Rightarrow> bool" where
  "with_function_is_complete tokens \<longleftrightarrow>
     ends_with_semicolon tokens \<and> with_function_loop tokens 0 tokens [] False"

definition completion_without_block_walk :: "oracle_plsql_token list \<Rightarrow> bool option" where
  "completion_without_block_walk tokens =
     (if \<not> starts_block tokens then Some False
      else if starts_with_function_declaration tokens then Some (with_function_is_complete tokens)
      else
        (case tokens of
           [] \<Rightarrow> None
         | t # ts \<Rightarrow>
             if is_plsql_word ''CREATE'' t then
               (case skip_create_modifiers ts of
                  [] \<Rightarrow> None
                | object # rest \<Rightarrow>
                    if is_plsql_word ''TRIGGER'' object \<and>
                       (case find (is_any_word [''BEGIN'', ''DECLARE'', ''COMPOUND'', ''CALL'']) (object # rest) of
                          None \<Rightarrow> False | Some w \<Rightarrow> is_plsql_word ''CALL'' w)
                    then Some (ends_with_semicolon tokens) else None)
             else None))"

definition oracle_block_complete :: "oracle_plsql_token list \<Rightarrow> bool" where
  "oracle_block_complete tokens =
     (case completion_without_block_walk tokens of
        Some done' \<Rightarrow> done'
      | None \<Rightarrow> walk_is_complete (walk_advance tokens (new_walk tokens)))"

definition keeps_oracle_style_block_together :: "tokenizer \<Rightarrow> sql_dialect_profile \<Rightarrow> string \<Rightarrow> bool" where
  "keeps_oracle_style_block_together tok p statement_head =
     (if supports_oracle_plsql_blocks p then starts_block (oracle_plsql_tokens tok statement_head)
      else supports_oracle_style_routine_bodies p \<and>
        starts_oracle_style_routine_body (oracle_plsql_tokens tok statement_head))"

definition oracle_plsql_block_is_complete :: "tokenizer \<Rightarrow> string \<Rightarrow> bool" where
  "oracle_plsql_block_is_complete tok sql = oracle_block_complete (oracle_plsql_tokens tok sql)"

definition starts_with_postgres_dollar_quoted_routine_prefix_impl :: "tokenizer \<Rightarrow> string \<Rightarrow> bool" where
  "starts_with_postgres_dollar_quoted_routine_prefix_impl tok sql =
     (case oracle_plsql_tokens tok sql of
        [] \<Rightarrow> False
      | t # ts \<Rightarrow>
          is_plsql_word ''CREATE'' t \<and>
          (case skip_create_modifiers ts of
             [] \<Rightarrow> False | object # _ \<Rightarrow> is_any_word [''FUNCTION'', ''PROCEDURE''] object) \<and>
          (case List.map_filter as_word (rev (t # ts)) of [] \<Rightarrow> False | w # _ \<Rightarrow> w = ''AS''))"

text \<open>The tracker of the splitter, which tokenizes only what was appended since its last check.\<close>

record oracle_tracker =
  tr_tokens :: "oracle_plsql_token list"
  scanned_len :: nat
  tr_walk :: "oracle_walk option"

definition new_tracker :: oracle_tracker where
  "new_tracker = \<lparr>tr_tokens = [], scanned_len = 0, tr_walk = None\<rparr>"

definition tracker_scan :: "tokenizer \<Rightarrow> string \<Rightarrow> oracle_tracker \<Rightarrow> oracle_tracker" where
  "tracker_scan tok statement tr =
     (let t = (if length statement < scanned_len tr then new_tracker else tr) in
      t\<lparr>tr_tokens := tr_tokens t @ oracle_plsql_tokens tok (drop (scanned_len t) statement),
        scanned_len := length statement\<rparr>)"

definition tracker_keeps_block_together ::
  "tokenizer \<Rightarrow> sql_dialect_profile \<Rightarrow> string \<Rightarrow> oracle_tracker \<Rightarrow> oracle_tracker \<times> bool" where
  "tracker_keeps_block_together tok p statement_head tr =
     (if \<not> supports_oracle_plsql_blocks p \<and> \<not> supports_oracle_style_routine_bodies p then (tr, False)
      else
        (let tr' = tracker_scan tok statement_head tr in
         (tr', if supports_oracle_plsql_blocks p then starts_block (tr_tokens tr')
               else starts_oracle_style_routine_body (tr_tokens tr'))))"

definition tracker_is_complete :: "tokenizer \<Rightarrow> string \<Rightarrow> oracle_tracker \<Rightarrow> oracle_tracker \<times> bool" where
  "tracker_is_complete tok statement tr =
     (let tr' = tracker_scan tok statement tr in
      case completion_without_block_walk (tr_tokens tr') of
        Some done' \<Rightarrow> (tr', done')
      | None \<Rightarrow>
          (let w = walk_advance (tr_tokens tr')
                     (case tr_walk tr' of Some w \<Rightarrow> w | None \<Rightarrow> new_walk (tr_tokens tr'))
           in (tr'\<lparr>tr_walk := Some w\<rparr>, walk_is_complete w)))"

section \<open>HANA and Firebird\<close>

definition token_word :: "oracle_plsql_token list \<Rightarrow> nat \<Rightarrow> string option" where
  "token_word tokens index = adjacent_word tokens index"

definition hana_starts_block :: "oracle_plsql_token list \<Rightarrow> bool" where
  "hana_starts_block tokens =
     (case token_word tokens 0 of
        None \<Rightarrow> False
      | Some first \<Rightarrow>
          if first = ''DO'' then True
          else
            (let index = (if first = ''CREATE'' \<and> token_word tokens 1 = Some ''OR'' \<and>
                             token_word tokens 2 = Some ''REPLACE'' then 3 else 1) in
             case token_word tokens index of
               None \<Rightarrow> False
             | Some object_type \<Rightarrow>
                 (first = ''CREATE'' \<or> first = ''ALTER'') \<and>
                 object_type \<in> set [''PROCEDURE'', ''FUNCTION'', ''TRIGGER''] \<and>
                 list_ex (is_plsql_word ''BEGIN'') tokens))"

definition firebird_starts_block :: "oracle_plsql_token list \<Rightarrow> bool" where
  "firebird_starts_block tokens =
     (case token_word tokens 0 of
        None \<Rightarrow> False
      | Some first \<Rightarrow>
          if first = ''EXECUTE'' then token_word tokens 1 = Some ''BLOCK''
          else if first \<notin> set [''CREATE'', ''RECREATE'', ''ALTER''] then False
          else
            (let index = (if token_word tokens 1 = Some ''OR'' \<and>
                             (token_word tokens 2 = Some ''ALTER'' \<or> token_word tokens 2 = Some ''REPLACE'')
                          then 3 else 1) in
             case token_word tokens index of
               None \<Rightarrow> False
             | Some object_type \<Rightarrow>
                 if object_type = ''PACKAGE'' \<and> token_word tokens (index + 1) \<noteq> Some ''BODY'' then False
                 else if object_type \<noteq> ''PACKAGE'' \<and> object_type \<notin> set [''PROCEDURE'', ''FUNCTION'', ''TRIGGER'']
                 then False
                 else if first = ''ALTER'' then list_ex (is_any_word [''AS'', ''BEGIN'']) tokens
                 else True))"

text \<open>
  The depth loop both dialects share; \<open>control_suffixes\<close> are the words after \<^verbatim>\<open>END\<close> that close no block
  (HANA's \<^verbatim>\<open>IF\<close>, \<^verbatim>\<open>FOR\<close>, \<^verbatim>\<open>WHILE\<close>; none for Firebird).
\<close>

definition script_depth_step ::
  "string list \<Rightarrow> oracle_plsql_token list \<Rightarrow> nat \<Rightarrow> nat \<times> nat \<times> bool \<Rightarrow> nat \<times> nat \<times> bool" where
  "script_depth_step control_suffixes tokens index st =
     (case st of (block_depth, case_depth, begun) \<Rightarrow>
        let token = tokens ! index in
        if is_plsql_word ''BEGIN'' token then
          (if previous_adjacent_word tokens index = Some ''END'' then st else (block_depth + 1, case_depth, True))
        else if is_plsql_word ''CASE'' token then
          (if previous_adjacent_word tokens index = Some ''END'' then st else (block_depth, case_depth + 1, begun))
        else if is_plsql_word ''END'' token then
          (if (case next_adjacent_word tokens index of None \<Rightarrow> False | Some w \<Rightarrow> w \<in> set control_suffixes) then st
           else if case_depth > 0 then (block_depth, case_depth - 1, begun)
           else (block_depth - 1, case_depth, begun))
        else st)"

definition script_block_closed :: "string list \<Rightarrow> oracle_plsql_token list \<Rightarrow> bool" where
  "script_block_closed control_suffixes tokens =
     (case fold (script_depth_step control_suffixes tokens) [0..<length tokens] (0, 0, False) of
        (block_depth, case_depth, begun) \<Rightarrow>
          begun \<and> block_depth = 0 \<and> case_depth = 0 \<and> ends_with_semicolon tokens)"

definition hana_is_complete :: "oracle_plsql_token list \<Rightarrow> bool" where
  "hana_is_complete tokens \<longleftrightarrow> hana_starts_block tokens \<and> script_block_closed [''IF'', ''FOR'', ''WHILE''] tokens"

definition firebird_is_complete :: "oracle_plsql_token list \<Rightarrow> bool" where
  "firebird_is_complete tokens \<longleftrightarrow> firebird_starts_block tokens \<and> script_block_closed [] tokens"

definition hana_script_block_is_complete_impl :: "tokenizer \<Rightarrow> string \<Rightarrow> bool" where
  "hana_script_block_is_complete_impl tok sql =
     (if (case rsplit_once [CHR 10] sql of
            Some (_, line) \<Rightarrow> \<not> starts_with ''END;'' (to_ascii_uppercase (trim_start line))
          | None \<Rightarrow> False)
      then False
      else hana_is_complete (oracle_plsql_tokens tok sql))"

section \<open>T-SQL control-flow batches\<close>

type_synonym tsql_token = "string \<times> nat"

fun skip_doubled :: "char \<Rightarrow> string \<Rightarrow> string" where
  "skip_doubled quote (c # d # ds) =
     (if c = quote then (if d = quote then skip_doubled quote ds else d # ds) else skip_doubled quote (d # ds))"
| "skip_doubled quote _ = []"

fun skip_tsql_block :: "string \<Rightarrow> string" where
  "skip_tsql_block (c # d # ds) = (if c = CHR ''*'' \<and> d = CHR ''/'' then ds else skip_tsql_block (d # ds))"
| "skip_tsql_block _ = []"

text \<open>
  One pass of \<^verbatim>\<open>sqlserver_top_level_tokens\<close>: the words and semicolons found (with the text left after
  them, from which the end offset is computed), the parenthesis depth and the remaining text.
\<close>

definition tsql_step :: "nat \<Rightarrow> char \<Rightarrow> string \<Rightarrow> string list \<times> nat \<times> string" where
  "tsql_step depth c cs =
     (if c = CHR 39 \<or> c = CHR 34 then ([], depth, skip_doubled c cs)
      else if c = CHR ''['' then ([], depth, skip_doubled (CHR '']'') cs)
      else if c = CHR ''-'' \<and> starts_with ''-'' cs then ([], depth, dropWhile (\<lambda>d. d \<noteq> CHR 10) (drop 1 cs))
      else if c = CHR ''/'' \<and> starts_with ''*'' cs then ([], depth, skip_tsql_block (drop 1 cs))
      else if c = CHR ''('' then ([], depth + 1, cs)
      else if c = CHR '')'' then ([], depth - 1, cs)
      else if c = CHR '';'' \<and> depth = 0 then (['';''], depth, cs)
      else if depth = 0 \<and> (c = CHR ''_'' \<or> is_ascii_alphabetic c) then
        (let word = takeWhile (\<lambda>d. d = CHR ''_'' \<or> is_ascii_alphanumeric d \<or> d = CHR ''$'') cs in
         ([c # word], depth, drop (length word) cs))
      else ([], depth, cs))"

lemma skip_doubled_shorter: "length (skip_doubled q s) \<le> length s"
proof (induction q s rule: skip_doubled.induct)
  case (1 quote c d ds)
  then show ?case by (cases "c = quote"; cases "d = quote") simp_all
qed simp_all

lemma skip_tsql_block_shorter: "length (skip_tsql_block s) \<le> length s"
proof (induction s rule: skip_tsql_block.induct)
  case (1 c d ds)
  then show ?case by (cases "c = CHR ''*'' \<and> d = CHR ''/''") simp_all
qed simp_all

lemma tsql_step_shorter: "length (snd (snd (tsql_step depth c cs))) \<le> length cs"
proof -
  have "length (drop 1 s) \<le> length s" for s :: string by simp
  then have "length (dropWhile (\<lambda>d. d \<noteq> CHR 10) (drop 1 cs)) \<le> length cs"
      "length (skip_tsql_block (drop 1 cs)) \<le> length cs"
    using dropWhile_shorter skip_tsql_block_shorter le_trans by meson+
  moreover have "length (skip_doubled q cs) \<le> length cs" for q by (rule skip_doubled_shorter)
  ultimately show ?thesis unfolding tsql_step_def Let_def by (simp only: split: if_split) simp
qed

function tsql_tokens_loop :: "nat \<Rightarrow> nat \<Rightarrow> string \<Rightarrow> tsql_token list" where
  "tsql_tokens_loop len depth [] = []"
| "tsql_tokens_loop len depth (c # cs) =
     (case tsql_step depth c cs of
        (out, depth', cs') \<Rightarrow> map (\<lambda>w. (w, len - length cs')) out @ tsql_tokens_loop len depth' cs')"
  by pat_completeness auto
termination
proof (relation "measure (\<lambda>(_, _, s). length s)")
  fix len depth c cs out r depth' cs'
  assume e: "(out, r) = tsql_step depth c cs" "(depth', cs') = r"
  have "length cs' \<le> length cs"
    using tsql_step_shorter [of depth c cs] unfolding e(1) [symmetric] e(2) [symmetric] snd_conv .
  then show "((len, depth', cs'), len, depth, c # cs) \<in> measure (\<lambda>(_, _, s). length s)" by simp
qed simp

definition sqlserver_top_level_tokens :: "string \<Rightarrow> tsql_token list" where
  "sqlserver_top_level_tokens sql = tsql_tokens_loop (length sql) 0 sql"

definition token_is :: "string \<Rightarrow> tsql_token list \<Rightarrow> bool" where
  "token_is keyword ts = (case ts of [] \<Rightarrow> False | (w, _) # _ \<Rightarrow> eq_ignore_ascii_case w keyword)"

text \<open>\<^verbatim>\<open>sqlserver_begins_block\<close> on the tokens after the \<^verbatim>\<open>BEGIN\<close>.\<close>

definition sqlserver_begins_block :: "tsql_token list \<Rightarrow> bool" where
  "sqlserver_begins_block after =
     (case after of
        [] \<Rightarrow> False
      | (w, _) # _ \<Rightarrow>
          w \<noteq> '';'' \<and> \<not> any_ignore_case [''TRANSACTION'', ''TRAN'', ''DISTRIBUTED'', ''DIALOG'', ''CONVERSATION''] w)"

definition starts_sqlserver_control_flow :: "string \<Rightarrow> bool" where
  "starts_sqlserver_control_flow sql =
     (let tokens = sqlserver_top_level_tokens sql in
      token_is ''IF'' tokens \<or> token_is ''WHILE'' tokens \<or>
      token_is ''BEGIN'' tokens \<and> sqlserver_begins_block (drop 1 tokens))"

definition ends_conversation :: "tsql_token list \<Rightarrow> bool" where
  "ends_conversation after \<longleftrightarrow> token_is ''CONVERSATION'' after \<or> token_is ''DIALOG'' after"

definition try_catch_follows :: "tsql_token list \<Rightarrow> bool" where
  "try_catch_follows after \<longleftrightarrow>
     token_is ''TRY'' after \<and> token_is ''BEGIN'' (drop 1 after) \<and> token_is ''CATCH'' (drop 2 after)"

text \<open>The depth and the carried-TRY flag over one word; \<open>None\<close> marks the \<^verbatim>\<open>END\<close> of a block.\<close>

definition tsql_depth_step :: "string \<Rightarrow> tsql_token list \<Rightarrow> nat \<times> bool \<Rightarrow> (nat \<times> bool) option" where
  "tsql_depth_step w after st =
     (case st of (depth, carried) \<Rightarrow>
        if eq_ignore_ascii_case w ''BEGIN'' then
          Some (if \<not> sqlserver_begins_block after then st
                else if carried then (depth, False) else (depth + 1, carried))
        else if eq_ignore_ascii_case w ''CASE'' then Some (depth + 1, carried)
        else if \<not> eq_ignore_ascii_case w ''END'' then Some st
        else if ends_conversation after then Some st
        else if try_catch_follows after then Some (depth, True)
        else None)"

fun open_blocks_loop :: "tsql_token list \<Rightarrow> nat \<times> bool \<Rightarrow> nat" where
  "open_blocks_loop [] st = fst st"
| "open_blocks_loop ((w, _) # after) st =
     (case tsql_depth_step w after st of
        Some st' \<Rightarrow> open_blocks_loop after st'
      | None \<Rightarrow> open_blocks_loop after (fst st - 1, False))"

definition sqlserver_control_flow_open_blocks :: "string \<Rightarrow> nat" where
  "sqlserver_control_flow_open_blocks sql = open_blocks_loop (sqlserver_top_level_tokens sql) (0, False)"

text \<open>
  The boundary scan over all fragments: \<open>start\<close> is the depth the fragment began with, \<open>boundary\<close> the candidate
  offset with the word after it.
\<close>

definition after_closer :: "nat \<Rightarrow> tsql_token list \<Rightarrow> nat \<times> string" where
  "after_closer end_offset after =
     (case after of
        [] \<Rightarrow> (end_offset, [])
      | (w, e) # rest \<Rightarrow>
          if eq_ignore_ascii_case w ''TRY'' \<or> eq_ignore_ascii_case w ''CATCH''
          then (e, case rest of [] \<Rightarrow> [] | (v, _) # _ \<Rightarrow> v)
          else (end_offset, w))"

definition boundary_word_is_else :: "(nat \<times> string) option \<Rightarrow> bool" where
  "boundary_word_is_else boundary = (case boundary of None \<Rightarrow> True | Some (_, w) \<Rightarrow> eq_ignore_ascii_case w ''ELSE'')"

fun boundary_loop :: "tsql_token list \<Rightarrow> nat \<Rightarrow> nat \<times> bool \<Rightarrow> (nat \<times> string) option \<Rightarrow> nat option" where
  "boundary_loop [] start st boundary = (if boundary_word_is_else boundary then None else map_option fst boundary)"
| "boundary_loop ((w, e) # after) start st boundary =
     (if w = '';'' then
        (if boundary_word_is_else boundary then boundary_loop after (fst st) (fst st, False) None
         else map_option fst boundary)
      else
        (case tsql_depth_step w after st of
           Some st' \<Rightarrow> boundary_loop after start st' boundary
         | None \<Rightarrow>
             boundary_loop after start (fst st - 1, False)
               (if start > 0 \<and> fst st - 1 = 0 \<and> boundary_word_is_else boundary
                then Some (after_closer e after) else boundary)))"

definition sqlserver_control_flow_batch_boundary :: "string \<Rightarrow> nat option" where
  "sqlserver_control_flow_batch_boundary sql = boundary_loop (sqlserver_top_level_tokens sql) 0 (0, False) None"

section \<open>The recognisers together\<close>

definition routine_blocks :: "tokenizer \<Rightarrow> block_rules" where
  "routine_blocks tok = \<lparr>
     starts_with_mysql_routine_block = starts_with_mysql_routine_block_impl,
     mysql_routine_block_is_complete = mysql_routine_block_is_complete_impl,
     oracle_keeps_block_together = keeps_oracle_style_block_together tok,
     oracle_block_is_complete = oracle_plsql_block_is_complete tok,
     starts_with_hana_script_block = (\<lambda>sql. hana_starts_block (oracle_plsql_tokens tok sql)),
     hana_script_block_is_complete = hana_script_block_is_complete_impl tok,
     starts_with_firebird_routine_block = (\<lambda>sql. firebird_starts_block (oracle_plsql_tokens tok sql)),
     firebird_routine_block_is_complete = (\<lambda>sql. firebird_is_complete (oracle_plsql_tokens tok sql)),
     starts_sqlserver_control_flow_batch = starts_sqlserver_control_flow,
     sqlserver_control_flow_batch_is_complete = (\<lambda>sql. sqlserver_control_flow_open_blocks sql = 0),
     sqlserver_boundary = sqlserver_control_flow_batch_boundary,
     starts_with_postgres_dollar_quoted_routine_prefix = starts_with_postgres_dollar_quoted_routine_prefix_impl tok\<rparr>"

definition split_sql_statements :: "tokenizer \<Rightarrow> string \<Rightarrow> string list" where
  "split_sql_statements tok sql = split_sql_statements_with_options (routine_blocks tok) default_profile sql"

section \<open>The tracker implements the recogniser\<close>

lemma skip_create_modifiers_append:
  "ends_with_semicolon ts \<Longrightarrow>
     skip_create_modifiers (ts @ us) = skip_create_modifiers ts @ us \<and> ends_with_semicolon (skip_create_modifiers ts)"
proof (induction ts rule: skip_create_modifiers.induct)
  case (2 t)
  then show ?case
    by (cases us) (simp_all add: ends_with_semicolon_def is_plsql_word_def is_any_word_def)
next
  case (3 t u ts)
  show ?case
  proof (cases "is_plsql_word ''OR'' t \<and> is_plsql_word ''REPLACE'' u")
    case True
    then have "ends_with_semicolon ts"
      using 3(3) by (cases ts) (auto simp: ends_with_semicolon_def is_plsql_word_def)
    then show ?thesis
      using 3(1) [OF True] unfolding append_Cons skip_create_modifiers.simps if_P [OF True] by simp
  next
    case False
    have "ends_with_semicolon (u # ts)" using 3(3) by (simp add: ends_with_semicolon_def)
    then show ?thesis
      using 3(2) [OF False] 3(3)
      unfolding append_Cons skip_create_modifiers.simps if_not_P [OF False] by (simp split: if_split)
  qed
qed (simp add: ends_with_semicolon_def)

lemma body_follows_append: "ts \<noteq> [] \<Longrightarrow> body_follows (ts @ us) = body_follows ts"
  by (cases ts) (simp_all add: body_follows_def)

lemma compound_header_append:
  assumes "ends_with_semicolon ts"
  shows "is_compound_trigger_header (ts @ us) = is_compound_trigger_header ts"
proof -
  have "PSemicolon \<in> set ts" using assms by (metis ends_with_semicolon_def last_in_set)
  then have "takeWhile (\<lambda>t. \<not> (t = PSemicolon \<or> P t)) (ts @ us) = takeWhile (\<lambda>t. \<not> (t = PSemicolon \<or> P t)) ts" for P
    by (rule takeWhile_append1) simp
  then show ?thesis unfolding is_compound_trigger_header_def by (simp only:)
qed

lemma semicolon_no_word [simp]: "\<not> is_plsql_word w PSemicolon" "\<not> is_any_word ws PSemicolon"
  by (simp_all add: is_plsql_word_def is_any_word_def list_ex_iff)

lemma new_walk_append:
  assumes "ends_with_semicolon ts"
  shows "new_walk (ts @ us) = new_walk ts"
proof -
  obtain t ts' where ts: "ts = t # ts'" using assms by (cases ts) (auto simp: ends_with_semicolon_def)
  have "create_object_kind (ts @ us) = create_object_kind ts \<and> is_create_routine (ts @ us) = is_create_routine ts"
  proof (cases "ts' = []")
    case True
    then show ?thesis using assms ts by (simp add: ends_with_semicolon_def create_object_kind_def is_create_routine_def)
  next
    case False
    then have e: "ends_with_semicolon ts'" using assms ts by (simp add: ends_with_semicolon_def)
    note sk = skip_create_modifiers_append [OF e, of us]
    obtain object rest where s: "skip_create_modifiers ts' = object # rest"
      using sk by (cases "skip_create_modifiers ts'") (auto simp: ends_with_semicolon_def)
    show ?thesis
    proof (cases "rest = []")
      case True
      then have "object = PSemicolon" using sk s by (simp add: ends_with_semicolon_def)
      then show ?thesis using ts s sk by (simp add: create_object_kind_def is_create_routine_def)
    next
      case False
      then have "ends_with_semicolon rest" using sk s by (simp add: ends_with_semicolon_def)
      then show ?thesis
        using ts s sk False body_follows_append [of rest us] compound_header_append [of rest us]
        by (simp add: create_object_kind_def is_create_routine_def)
    qed
  qed
  then show ?thesis by (simp add: new_walk_def)
qed

lemma walk_step_append:
  assumes "ends_with_semicolon ts" and "i < length ts"
  shows "walk_step (ts @ us) i w = walk_step ts i w"
proof (cases "ts ! i = PSemicolon")
  case True
  moreover have "(ts @ us) ! i = ts ! i" using assms(2) by (simp add: nth_append)
  ultimately show ?thesis unfolding walk_step_def Let_def by (simp only: if_True refl)
next
  case False
  have "i \<noteq> length ts - 1" using assms False by (auto simp: ends_with_semicolon_def last_conv_nth)
  then have "i + 1 < length ts" using assms(2) by simp
  then have "next_adjacent_word (ts @ us) i = next_adjacent_word ts i"
    "previous_adjacent_word (ts @ us) i = previous_adjacent_word ts i" "(ts @ us) ! i = ts ! i"
    by (simp_all add: next_adjacent_word_def previous_adjacent_word_def adjacent_word_def nth_append)
  then show ?thesis unfolding walk_step_def by (simp only:)
qed

lemma walk_resume:
  "ends_with_semicolon ts \<Longrightarrow> walk_advance (ts @ us) (walk_advance ts w) = walk_advance (ts @ us) w"
proof (induction ts w rule: walk_advance.induct)
  case (1 tokens w)
  show ?case
  proof (cases "next_index w < length tokens")
    case True
    let ?w = "(walk_step tokens (next_index w) w)\<lparr>next_index := next_index w + 1\<rparr>"
    have "walk_advance tokens w = walk_advance tokens ?w"
      using True by (subst walk_advance.simps) simp
    moreover have "walk_advance (tokens @ us) w = walk_advance (tokens @ us) ?w"
      using True walk_step_append [OF 1(2) True] by (subst walk_advance.simps) simp
    ultimately show ?thesis using 1(1) [OF True 1(2)] by simp
  next
    case False
    then show ?thesis by (simp add: walk_advance.simps [of tokens])
  qed
qed

text \<open>
  The consultations of the splitter while one statement grows: at every semicolon it asks whether the text
  before it must be kept together, and whether the text with it is complete. \<open>segments\<close> are the texts
  between the semicolons. \<open>tracker_answers\<close> asks the tracker, \<open>scratch_answers\<close> the functions that
  tokenize the whole statement again.
\<close>

fun tracker_answers ::
  "tokenizer \<Rightarrow> sql_dialect_profile \<Rightarrow> string \<Rightarrow> string list \<Rightarrow> oracle_tracker \<Rightarrow> (bool \<times> bool) list" where
  "tracker_answers tok p statement [] tr = []"
| "tracker_answers tok p statement (s # segments) tr =
     (let (tr1, keeps) = tracker_keeps_block_together tok p (statement @ s) tr;
          (tr2, closed) = tracker_is_complete tok (statement @ s @ '';'') tr1
      in (keeps, closed) # tracker_answers tok p (statement @ s @ '';'') segments tr2)"

fun scratch_answers ::
  "tokenizer \<Rightarrow> sql_dialect_profile \<Rightarrow> string \<Rightarrow> string list \<Rightarrow> (bool \<times> bool) list" where
  "scratch_answers tok p statement [] = []"
| "scratch_answers tok p statement (s # segments) =
     (keeps_oracle_style_block_together tok p (statement @ s),
      oracle_plsql_block_is_complete tok (statement @ s @ '';'')) #
     scratch_answers tok p (statement @ s @ '';'') segments"

text \<open>
  The tokenizer may be run on slices cut at those semicolons: a semicolon outside literals and comments is a
  token of its own, and what follows it is tokenized as if it stood alone.
\<close>

fun cuts_at_semicolons :: "tokenizer \<Rightarrow> string \<Rightarrow> string list \<Rightarrow> bool" where
  "cuts_at_semicolons tok statement [] = True"
| "cuts_at_semicolons tok statement (s # segments) \<longleftrightarrow>
     oracle_plsql_tokens tok (statement @ s) = oracle_plsql_tokens tok statement @ oracle_plsql_tokens tok s \<and>
     oracle_plsql_tokens tok (statement @ s @ '';'') = oracle_plsql_tokens tok (statement @ s) @ [PSemicolon] \<and>
     cuts_at_semicolons tok (statement @ s @ '';'') segments"

definition tracks :: "tokenizer \<Rightarrow> string \<Rightarrow> oracle_tracker \<Rightarrow> bool" where
  "tracks tok statement tr \<longleftrightarrow>
     tr_tokens tr = oracle_plsql_tokens tok statement \<and> scanned_len tr = length statement \<and>
     (\<forall>w. tr_walk tr = Some w \<longrightarrow>
        (\<exists>ts us. tr_tokens tr = ts @ us \<and> ends_with_semicolon ts \<and> w = walk_advance ts (new_walk ts)))"

lemma tracks_grow:
  assumes "tracks tok statement tr"
    and "oracle_plsql_tokens tok (statement @ s) = oracle_plsql_tokens tok statement @ oracle_plsql_tokens tok s"
  shows "tracker_scan tok (statement @ s) tr =
    tr\<lparr>tr_tokens := oracle_plsql_tokens tok (statement @ s), scanned_len := length (statement @ s)\<rparr>"
  using assms by (simp add: tracker_scan_def tracks_def)

lemma walk_grown:
  assumes "ends_with_semicolon ts"
  shows "walk_advance (ts @ us) (walk_advance ts (new_walk ts)) = walk_advance (ts @ us) (new_walk (ts @ us))"
  using walk_resume [OF assms] new_walk_append [OF assms] by simp

lemma tracker_step:
  assumes tr: "tracks tok statement tr" and flag: "supports_oracle_plsql_blocks p \<or> supports_oracle_style_routine_bodies p"
    and semi: "oracle_plsql_tokens tok '';'' = [PSemicolon]" and cut: "cuts_at_semicolons tok statement (s # segments)"
    and k: "tracker_keeps_block_together tok p (statement @ s) tr = (tr1, keeps)"
    and c: "tracker_is_complete tok (statement @ s @ '';'') tr1 = (tr2, closed)"
  shows "keeps = keeps_oracle_style_block_together tok p (statement @ s) \<and>
    closed = oracle_plsql_block_is_complete tok (statement @ s @ '';'') \<and> tracks tok (statement @ s @ '';'') tr2"
proof -
  let ?T = "oracle_plsql_tokens tok"
  have t1: "?T (statement @ s) = ?T statement @ ?T s" and t2: "?T (statement @ s @ '';'') = ?T (statement @ s) @ [PSemicolon]"
    using cut by simp_all
  have tr1: "tr1 = tr\<lparr>tr_tokens := ?T (statement @ s), scanned_len := length (statement @ s)\<rparr>"
    using k flag by (auto simp: tracker_keeps_block_together_def tracks_grow [OF tr t1] Let_def split: if_splits)
  have keeps: "keeps = keeps_oracle_style_block_together tok p (statement @ s)"
    using k flag tr1
    by (auto simp: tracker_keeps_block_together_def tracks_grow [OF tr t1] keeps_oracle_style_block_together_def Let_def
        split: if_splits)
  let ?ts = "?T (statement @ s @ '';'')"
  have ends: "ends_with_semicolon ?ts" by (simp add: t2 ends_with_semicolon_def)
  have scan: "tracker_scan tok (statement @ s @ '';'') tr1 = tr\<lparr>tr_tokens := ?ts, scanned_len := length (statement @ s @ '';'')\<rparr>"
    by (simp add: tr1 tracker_scan_def t2 semi)
  have walk: "walk_advance ?ts (case tr_walk tr of Some w \<Rightarrow> w | None \<Rightarrow> new_walk ?ts) = walk_advance ?ts (new_walk ?ts)"
  proof (cases "tr_walk tr")
    case (Some w)
    then obtain ts us where "?T statement = ts @ us" "ends_with_semicolon ts" "w = walk_advance ts (new_walk ts)"
      using tr unfolding tracks_def by metis
    then show ?thesis using Some walk_grown [of ts "us @ ?T s @ [PSemicolon]"] by (simp add: t1 t2)
  qed simp
  let ?tr = "tr\<lparr>tr_tokens := ?ts, scanned_len := length (statement @ s @ '';'')\<rparr>"
  have fields: "tr_tokens ?tr = ?ts" "tr_walk ?tr = tr_walk tr" by simp_all
  have tracks1: "tracks tok (statement @ s @ '';'') ?tr"
    using tr unfolding tracks_def by (auto simp: t1 t2) (metis append_assoc)
  have tracks2: "tracks tok (statement @ s @ '';'') (?tr\<lparr>tr_walk := Some (walk_advance ?ts (new_walk ?ts))\<rparr>)"
    using ends unfolding tracks_def by (auto intro: exI [of _ "[]"])
  show ?thesis
  proof (cases "completion_without_block_walk ?ts")
    case None
    then have "tr2 = ?tr\<lparr>tr_walk := Some (walk_advance ?ts (new_walk ?ts))\<rparr>"
        "closed = walk_is_complete (walk_advance ?ts (new_walk ?ts))"
      using c unfolding tracker_is_complete_def scan Let_def fields walk None option.case by auto
    then show ?thesis
      using keeps tracks2 None by (simp add: oracle_plsql_block_is_complete_def oracle_block_complete_def)
  next
    case (Some b)
    then have "tr2 = ?tr" "closed = b"
      using c unfolding tracker_is_complete_def scan Let_def fields Some option.case by auto
    then show ?thesis
      using keeps tracks1 Some by (simp add: oracle_plsql_block_is_complete_def oracle_block_complete_def)
  qed
qed

lemma tracker_answers_scratch:
  assumes "supports_oracle_plsql_blocks p \<or> supports_oracle_style_routine_bodies p"
    and "oracle_plsql_tokens tok '';'' = [PSemicolon]"
  shows "tracks tok statement tr \<Longrightarrow> cuts_at_semicolons tok statement segments \<Longrightarrow>
    tracker_answers tok p statement segments tr = scratch_answers tok p statement segments"
proof (induction segments arbitrary: statement tr)
  case (Cons s segments)
  obtain tr1 keeps where k: "tracker_keeps_block_together tok p (statement @ s) tr = (tr1, keeps)" by fastforce
  obtain tr2 closed where c: "tracker_is_complete tok (statement @ s @ '';'') tr1 = (tr2, closed)" by fastforce
  show ?case
    using tracker_step [OF Cons.prems(1) assms Cons.prems(2) k c] Cons.IH [of "statement @ s @ '';''" tr2] Cons.prems(2)
    by (simp add: k c)
qed simp

section \<open>Boundaries of T-SQL batches\<close>

lemma tsql_tokens_end_positive:
  "length s \<le> len \<Longrightarrow> (w, e) \<in> set (tsql_tokens_loop len depth s) \<Longrightarrow> 0 < e \<and> e \<le> len"
proof (induction len depth s rule: tsql_tokens_loop.induct)
  case (2 len depth c cs)
  obtain out depth' cs' where st: "tsql_step depth c cs = (out, depth', cs')" using prod_cases3 by blast
  have "length cs' < len" using tsql_step_shorter [of depth c cs] 2(2) by (simp add: st)
  then show ?case using 2(1) [OF st [symmetric] refl] 2(3) by (auto simp: st)
qed simp

lemma boundary_loop_in:
  assumes "boundary_loop ts start st boundary = Some n"
  shows "n \<in> fst ` set_option boundary \<or> n \<in> snd ` set ts"
  using assms
proof (induction ts start st boundary rule: boundary_loop.induct)
  case (1 start st boundary)
  then show ?case by (cases boundary) (auto simp: boundary_word_is_else_def split: if_splits)
next
  case (2 w e after start st boundary)
  have closer: "fst (after_closer e after) \<in> snd ` set ((w, e) # after)"
    by (auto simp: after_closer_def split: list.split)
  show ?case
  proof (cases "w = '';''")
    case True
    then show ?thesis
      using 2 by (cases boundary) (auto simp: boundary_word_is_else_def split: if_splits)
  next
    case False
    show ?thesis
    proof (cases "tsql_depth_step w after st")
      case None
      then show ?thesis using 2(2) [OF False None] 2(4) False closer by (auto split: if_splits)
    next
      case (Some st')
      then show ?thesis using 2(3) [OF False Some] 2(4) False by auto
    qed
  qed
qed

lemma boundary_positive:
  assumes "sqlserver_control_flow_batch_boundary sql = Some n"
  shows "0 < n \<and> n \<le> length sql"
  using boundary_loop_in [OF assms [unfolded sqlserver_control_flow_batch_boundary_def]]
    tsql_tokens_end_positive [of sql "length sql"]
  by (auto simp: sqlserver_top_level_tokens_def)

section \<open>Splitting with the default profile\<close>

lemma routine_blocks_flat: "flat (routine_blocks tok)"
  by (simp add: flat_def routine_blocks_def keeps_oracle_style_block_together_def default_profile_def)





text \<open>
  C13. The incremental tracker of PL/SQL blocks refines the recogniser: while a statement grows, at every
  semicolon the tracker, which tokenizes only the appended text and resumes its BEGIN/END walk, gives the
  answers that tokenizing and walking the whole statement from the start would give, provided the
  tokenizer may be cut at those semicolons.
\<close>

theorem tracker_refines_recogniser:
  assumes "supports_oracle_plsql_blocks p \<or> supports_oracle_style_routine_bodies p"
    and "oracle_plsql_tokens tok '';'' = [PSemicolon]" and "oracle_plsql_tokens tok [] = []"
    and "cuts_at_semicolons tok [] segments"
  shows "tracker_answers tok p [] segments new_tracker = scratch_answers tok p [] segments"
  using tracker_answers_scratch [OF assms(1,2), of "[]" new_tracker segments] assms(3,4)
  by (simp add: tracks_def new_tracker_def)

text \<open>
  An anonymous block with a nested CASE on an Oracle connection, tokenized by the fallback tokenizer: the
  block is kept together at each of its semicolons and complete at the last one only.
\<close>

theorem tracker_refines_recogniser_witness:
  "tracker_answers (\<lambda>_. None) oracle_like_profile []
     [''DECLARE n INT'', '' BEGIN n := CASE WHEN 1=1 THEN 2 END'', '' END''] new_tracker =
   [(True, False), (True, False), (True, True)]"
proof -
  let ?segs = "[''DECLARE n INT'', '' BEGIN n := CASE WHEN 1=1 THEN 2 END'', '' END'']"
  have "supports_oracle_plsql_blocks oracle_like_profile \<or> supports_oracle_style_routine_bodies oracle_like_profile"
    by code_simp
  moreover have "oracle_plsql_tokens (\<lambda>_. None) '';'' = [PSemicolon]" by code_simp
  moreover have "oracle_plsql_tokens (\<lambda>_. None) [] = []" by code_simp
  moreover have "cuts_at_semicolons (\<lambda>_. None) [] ?segs" by code_simp
  moreover have "scratch_answers (\<lambda>_. None) oracle_like_profile [] ?segs = [(True, False), (True, False), (True, True)]"
    by code_simp
  ultimately show ?thesis using tracker_refines_recogniser by presburger
qed

end
