(* ===== verification/Sql_Chunks.thy ===== *)
theory Sql_Chunks
  imports Sql_Blocks
begin

text \<open>
  The loop that feeds a script file to the splitter chunk by chunk
  (\<^verbatim>\<open>crates/dbx-core/src/data/sql_file_import.rs\<close>), when chunking does not change the statements, and two
  scripts the splitter misreads.
\<close>

fun push_chunks ::
  "block_rules \<Rightarrow> sql_dialect_profile \<Rightarrow> control_splitter \<Rightarrow> string list
     \<Rightarrow> control_splitter \<times> (string \<times> bool) list" where
  "push_chunks rules p st [] = (st, [])"
| "push_chunks rules p st (chunk # chunks) =
     (case push_chunk_with_control rules p st chunk of
        (st', out) \<Rightarrow> (case push_chunks rules p st' chunks of (st'', out') \<Rightarrow> (st'', out @ out')))"

definition split_chunks :: "block_rules \<Rightarrow> sql_dialect_profile \<Rightarrow> string list \<Rightarrow> string list" where
  "split_chunks rules p chunks =
     (case push_chunks rules p new_control_splitter chunks of
        (st, out) \<Rightarrow> map fst (out @ finish_with_control rules p st))"

definition between_chunks :: "sql_statement_splitter \<Rightarrow> bool" where
  "between_chunks st \<longleftrightarrow> dollar_quote_tag st = None \<and> \<not> pending_mysql_line_comment_dashes st"

lemma opener_lookahead:
  assumes "c \<noteq> CHR ''$''" and "cs \<noteq> [] \<or> c \<notin> {CHR ''-'', CHR ''/''}"
  shows "opener rules p st c (cs @ b) = opener rules p st c cs"
proof -
  have "dollar_quote_tag_at (c # cs @ b) = None" "dollar_quote_tag_at (c # cs) = None" using assms(1) by simp_all
  moreover have "first_char (cs @ b) = first_char cs" "starts_with ''*'' (cs @ b) = starts_with ''*'' cs"
      "(cs @ b = []) = (cs = [])" if "c = CHR ''-'' \<or> c = CHR ''/''"
    using that assms(2) by (cases cs; simp add: first_char_def starts_with_def)+
  ultimately show ?thesis
    unfolding opener_def
    by (cases "c = CHR ''-''"; cases "c = CHR ''/''") (simp_all only: simp_thms if_True if_False char.inject)
qed

lemma split_step_lookahead:
  assumes "dollar_quote_tag st = None" and "c \<noteq> CHR ''$''" and "cs \<noteq> [] \<or> c \<notin> {CHR ''-'', CHR ''/''}"
  shows "split_step rules p st c (cs @ b) = split_step rules p st c cs"
  unfolding split_step_def assms(1) option.case opener_lookahead [OF assms(2,3)] ..

lemma pending_push [simp]: "pending_mysql_line_comment_dashes (push_char c st) = pending_mysql_line_comment_dashes st"
  by (simp add: push_char_def)

lemma pending_current [simp]: "\<not> pending_mysql_line_comment_dashes (fst (push_current_statement p st))"
  by (simp add: push_current_statement_def)

lemma pending_emit:
  "\<not> pending_mysql_line_comment_dashes st \<Longrightarrow> \<not> pending_mysql_line_comment_dashes (fst (emit_pieces p body n bs st))"
proof (induction p body n bs st rule: emit_pieces.induct)
  case (2 p body piece_from b bs st)
  obtain st1 out1 where e1: "push_current_statement p (st\<lparr>sp_buffer := take (b - piece_from) (drop piece_from body)\<rparr>)
      = (st1, out1)" by fastforce
  then have "\<not> pending_mysql_line_comment_dashes st1"
    using pending_current [of p "st\<lparr>sp_buffer := take (b - piece_from) (drop piece_from body)\<rparr>"] by simp
  then show ?case using 2(1) [OF e1 [symmetric]] by (simp add: e1 split_beta)
qed simp

lemma pending_sqlserver:
  "\<not> pending_mysql_line_comment_dashes st \<Longrightarrow>
     \<not> pending_mysql_line_comment_dashes (fst (close_sqlserver_batch rules p st))"
  by (simp add: close_sqlserver_batch_def Let_def split_beta pending_emit split: list.split)

lemma pending_semicolon:
  "\<not> pending_mysql_line_comment_dashes st \<Longrightarrow> \<not> pending_mysql_line_comment_dashes (fst (semicolon rules p st))"
  by (simp add: semicolon_def keep_or_close_def Let_def pending_sqlserver)

lemma pending_plain:
  "\<not> pending_mysql_line_comment_dashes st \<Longrightarrow> \<not> pending_mysql_line_comment_dashes (fst (plain_char_step rules p st c))"
  by (simp add: plain_char_step_def Let_def pending_semicolon)

lemma pending_line_end:
  "line_end_step p st = (st', out, b) \<Longrightarrow>
     pending_mysql_line_comment_dashes st' = pending_mysql_line_comment_dashes st"
  unfolding line_end_step_def Let_def by (simp split: if_split_asm option.split_asm; force)

lemma pending_after:
  "\<not> pending_mysql_line_comment_dashes st \<Longrightarrow> \<not> pending_mysql_line_comment_dashes (fst (after_char p c st))"
proof -
  assume n: "\<not> pending_mysql_line_comment_dashes st"
  obtain st1 out b where l: "(if c = CHR 10 then line_end_step p st else (st, [], False)) = (st1, out, b)"
    using prod_cases3 by blast
  then have "\<not> pending_mysql_line_comment_dashes st1"
    using n pending_line_end [of p st st1 out b] by (auto split: if_splits)
  then show ?thesis
    using n by (simp add: after_char_def l delimiter_step_def split_beta split: bool.split option.split)
qed

lemma opener_between:
  assumes "opener rules p st c cs = Some (st', n)" and "between_chunks st" and "c \<noteq> CHR ''$''"
    and "cs \<noteq> [] \<or> c \<notin> {CHR ''-'', CHR ''/''}"
  shows "between_chunks st' \<and> n = 0"
proof -
  have "dollar_quote_tag_at (c # cs) = None" using assms(3) by simp
  moreover have "\<not> (c = CHR ''-'' \<and> cs = [])" using assms(4) by auto
  ultimately show ?thesis
    using assms(1,2) unfolding opener_def push_prev_def between_chunks_def
    by (simp split: if_split_asm; force)
qed

lemma split_step_between:
  assumes "split_step rules p st c cs = (st', out, n)" and "between_chunks st" and "c \<noteq> CHR ''$''"
    and "cs \<noteq> [] \<or> c \<notin> {CHR ''-'', CHR ''/''}"
  shows "between_chunks st' \<and> n = 0"
proof -
  have tag: "dollar_quote_tag st = None" and pend: "\<not> pending_mysql_line_comment_dashes st"
    using assms(2) by (auto simp: between_chunks_def)
  consider (comment) "dollar_quote_tag st' = None" "\<not> pending_mysql_line_comment_dashes st'" "n = 0"
    | (opened) "opener rules p st c cs = Some (st', n)"
    | (char) st1 out1 where "plain_char_step rules p st c = (st1, out1)" "st' = fst (after_char p c st1)" "n = 0"
    using assms(1) tag pend unfolding split_step_def push_prev_def
    by (simp split: if_split_asm option.split_asm prod.split_asm; force)
  then show ?thesis
  proof cases
    case comment
    then show ?thesis by (simp add: between_chunks_def)
  next
    case opened
    then show ?thesis using opener_between assms(2,3,4) by blast
  next
    case char
    then show ?thesis
      using dollar_after [of p c st1] dollar_plain [of rules p st c] tag pending_after [of st1 p c]
        pending_plain [OF pend, of rules p c] by (simp add: between_chunks_def)
  qed
qed

definition cut_safe :: "string \<Rightarrow> bool" where
  "cut_safe chunk \<longleftrightarrow> chunk = [] \<or> last chunk \<notin> {CHR ''-'', CHR ''/''}"

lemma split_loop_append:
  assumes "between_chunks st" and "CHR ''$'' \<notin> set a" and "cut_safe a"
  shows "split_loop rules p st (a @ b) =
    (case split_loop rules p st a of (st1, out) \<Rightarrow>
       case split_loop rules p st1 b of (st2, out') \<Rightarrow> (st2, out @ out')) \<and>
    between_chunks (fst (split_loop rules p st a))"
  using assms
proof (induction a arbitrary: st)
  case (Cons c cs)
  obtain st' out n where s: "split_step rules p st c cs = (st', out, n)" using prod_cases3 by blast
  have c: "c \<noteq> CHR ''$''" "cs \<noteq> [] \<or> c \<notin> {CHR ''-'', CHR ''/''}"
    using Cons.prems by (auto simp: cut_safe_def split: if_splits)
  have st': "between_chunks st'" "n = 0" using split_step_between [OF s Cons.prems(1) c] by auto
  have "split_step rules p st c (cs @ b) = (st', out, n)"
    using split_step_lookahead [OF _ c, of st rules p b] Cons.prems(1) s by (simp add: between_chunks_def)
  moreover have "cut_safe cs" using Cons.prems(3) by (auto simp: cut_safe_def)
  ultimately show ?case
    using Cons.IH [OF st'(1)] Cons.prems(2) st'(2) s by (simp add: split_beta)
qed simp

lemma push_chunk_between:
  assumes "\<not> supports_psql_control_commands p" and "pending_psql_command st = None" and "between_chunks (cs_core st)"
  shows "push_chunk_with_control rules p st chunk =
    (case split_loop rules p (cs_core st) chunk of
       (core, out) \<Rightarrow> (st\<lparr>cs_core := core\<rparr>, with_stop (cs_stop_on_error st) out))"
  using assms by (simp add: push_chunk_with_control_def control_loop_off between_chunks_def)

lemma push_chunks_concat:
  assumes "\<not> supports_psql_control_commands p"
  shows "pending_psql_command st = None \<Longrightarrow> between_chunks (cs_core st) \<Longrightarrow> CHR ''$'' \<notin> set (concat chunks) \<Longrightarrow>
    list_all cut_safe chunks \<Longrightarrow>
    push_chunks rules p st chunks = push_chunk_with_control rules p st (concat chunks)"
proof (induction chunks arbitrary: st)
  case Nil
  then show ?case by (simp add: push_chunk_between [OF assms])
next
  case (Cons chunk chunks)
  obtain core out where l: "split_loop rules p (cs_core st) chunk = (core, out)" by fastforce
  have d: "CHR ''$'' \<notin> set chunk" "cut_safe chunk" using Cons.prems by auto
  note app = split_loop_append [OF Cons.prems(2) d, of rules p "concat chunks"]
  have core: "between_chunks core" using app l by simp
  have "push_chunks rules p (st\<lparr>cs_core := core\<rparr>) chunks =
      push_chunk_with_control rules p (st\<lparr>cs_core := core\<rparr>) (concat chunks)"
    using Cons.IH [of "st\<lparr>cs_core := core\<rparr>"] Cons.prems core by simp
  then show ?case
    using l app core Cons.prems by (simp add: push_chunk_between [OF assms] split_beta)
qed



text \<open>
  Two scripts the splitter misreads. A dollar quote whose opening tag is cut by a chunk boundary is not
  recognised, so the semicolon inside the literal splits the statement. A block comment that begins with
  \<^verbatim>\<open>/*/\<close> is taken to end there, so a statement that is commented out is handed to the executor.
\<close>

theorem splitter_misreads_cut_tags_and_slash_comments:
  "split_sql_statements_with_options (routine_blocks (\<lambda>_. None)) default_profile ''SELECT $$a;b$$'' = [''SELECT $$a;b$$''] \<and>
   split_chunks (routine_blocks (\<lambda>_. None)) default_profile [''SELECT $'', ''$a;b$$''] = [''SELECT $$a'', ''b$$''] \<and>
   split_sql_statements (\<lambda>_. None) ''SELECT 1 /*/ ; DROP TABLE t; */'' = [''SELECT 1 /*/'', ''DROP TABLE t'', ''*/'']"
proof (intro conjI)
  show "split_sql_statements_with_options (routine_blocks (\<lambda>_. None)) default_profile ''SELECT $$a;b$$'' = [''SELECT $$a;b$$'']"
    by code_simp
  show "split_chunks (routine_blocks (\<lambda>_. None)) default_profile [''SELECT $'', ''$a;b$$''] = [''SELECT $$a'', ''b$$'']"
    by code_simp
  show "split_sql_statements (\<lambda>_. None) ''SELECT 1 /*/ ; DROP TABLE t; */'' = [''SELECT 1 /*/'', ''DROP TABLE t'', ''*/'']"
    by code_simp
qed

end
