(* ===== verification/Sql_Import.thy ===== *)
theory Sql_Import
  imports Sql_Chunks
begin

text \<open>
  Preparing and batching the statements of an imported script (\<^verbatim>\<open>crates/dbx-sql-core/src/sql.rs\<close>): which
  statements of a dump are skipped for a target, and the merging of adjacent single-table inserts. An index
  that runs past the text is the error value \<open>Inl IndexOutOfBounds\<close>.
\<close>

section \<open>Statements of a dump\<close>

datatype rust_panic = IndexOutOfBounds

datatype sql_file_statement_action = Execute string | Skip

definition is_mysql_compatible_import_profile :: "string \<Rightarrow> bool" where
  "is_mysql_compatible_import_profile profile \<longleftrightarrow>
     profile \<in> set [''mariadb'', ''tidb'', ''oceanbase'', ''custom_mysql'', ''doris'', ''starrocks'',
       ''manticoresearch'', ''selectdb'', ''goldendb'']"

definition is_mysql_compatible_import_target :: "database_type \<Rightarrow> string option \<Rightarrow> bool" where
  "is_mysql_compatible_import_target db driver_profile \<longleftrightarrow>
     db \<in> set [''Mysql'', ''Doris'', ''StarRocks'', ''ManticoreSearch'', ''Goldendb''] \<or>
     (case driver_profile of None \<Rightarrow> False
      | Some profile \<Rightarrow> is_mysql_compatible_import_profile (to_ascii_lowercase profile))"

text \<open>\<^verbatim>\<open>leading_mysql_executable_comment_start\<close>; the result is the text from the comment on.\<close>

function leading_mysql_executable_comment_start :: "string \<Rightarrow> rust_panic + string option" where
  "leading_mysql_executable_comment_start s =
     (if s = [] then Inr None
      else
        (case dropWhile is_ascii_whitespace s of
           [] \<Rightarrow> Inl IndexOutOfBounds
         | c # cs \<Rightarrow>
             if c = CHR ''-'' \<and> starts_with ''-'' cs then
               leading_mysql_executable_comment_start (dropWhile (\<lambda>d. d \<noteq> CHR 10) (drop 1 cs))
             else if c = CHR ''#'' then
               leading_mysql_executable_comment_start (dropWhile (\<lambda>d. d \<noteq> CHR 10) cs)
             else if c = CHR ''/'' \<and> starts_with ''*'' cs then
               (if starts_executable_comment (drop 1 cs) then Inr (Some (c # cs))
                else
                  (case find_block_comment_close False 1 (drop 1 cs) of
                     None \<Rightarrow> Inr None
                   | Some n \<Rightarrow> leading_mysql_executable_comment_start (drop (n + 3) cs)))
             else Inr None))"
  by pat_completeness auto
termination
proof (relation "measure length")
  fix s :: string and c :: char and cs :: string and n :: nat
  assume s: "dropWhile is_ascii_whitespace s = c # cs"
  have le: "length (c # cs) \<le> length s" using dropWhile_shorter [of is_ascii_whitespace s] unfolding s .
  have "length (dropWhile (\<lambda>d. d \<noteq> CHR 10) (drop 1 cs)) \<le> length (drop 1 cs)" by (rule dropWhile_shorter)
  then show "(dropWhile (\<lambda>d. d \<noteq> CHR 10) (drop 1 cs), s) \<in> measure length"
    using le unfolding length_drop by (simp add: le_less_trans)
  have "length (dropWhile (\<lambda>d. d \<noteq> CHR 10) cs) \<le> length cs" by (rule dropWhile_shorter)
  then show "(dropWhile (\<lambda>d. d \<noteq> CHR 10) cs, s) \<in> measure length" using le by simp
  show "(drop (n + 3) cs, s) \<in> measure length" using le by simp
qed simp

declare leading_mysql_executable_comment_start.simps [simp del]

definition mysql_executable_comment_body :: "string \<Rightarrow> rust_panic + string option" where
  "mysql_executable_comment_body statement =
     (case leading_mysql_executable_comment_start statement of
        Inl e \<Rightarrow> Inl e
      | Inr None \<Rightarrow> Inr None
      | Inr (Some from_start) \<Rightarrow>
          (let after_marker = (if starts_with ''!'' (drop 2 from_start) then drop 3 from_start else drop 4 from_start);
               body = dropWhile (\<lambda>c. is_ascii_digit c \<or> is_ascii_whitespace c) after_marker
           in
           case find_block_comment_close False 1 body of
             None \<Rightarrow> Inr None
           | Some n \<Rightarrow>
               if has_executable_sql_with_options default_profile (drop (n + 2) body) then Inr None
               else Inr (Some (take n body))))"

definition join_words :: "string \<Rightarrow> string" where
  "join_words s =
     (case split_whitespace s of [] \<Rightarrow> [] | w # ws \<Rightarrow> w @ concat (map (\<lambda>v. CHR '' '' # v) ws))"

definition is_mysql_key_toggle_statement :: "string \<Rightarrow> bool" where
  "is_mysql_key_toggle_statement statement =
     (let upper = to_ascii_uppercase (join_words statement) in
      starts_with ''ALTER TABLE '' upper \<and> (ends_with '' ENABLE KEYS'' upper \<or> ends_with '' DISABLE KEYS'' upper))"

definition is_mysql_lock_table_statement :: "string \<Rightarrow> bool" where
  "is_mysql_lock_table_statement statement =
     (let upper = to_ascii_uppercase (join_words (leading_executable_sql_with_options default_profile statement)) in
      upper = ''UNLOCK TABLES'' \<or> starts_with ''LOCK TABLES '' upper \<and> ends_with '' WRITE'' upper)"

fun trim_set_prefixes :: "nat \<Rightarrow> string \<Rightarrow> string" where
  "trim_set_prefixes fuel s =
     (if fuel > 0 \<and> starts_with ''SET '' s then trim_set_prefixes (fuel - 1) (drop 4 s) else s)"

declare trim_set_prefixes.simps [simp del]

definition is_mysql_session_restore_statement :: "string \<Rightarrow> bool" where
  "is_mysql_session_restore_statement statement =
     (let upper = to_ascii_uppercase (join_words (leading_executable_sql_with_options mysql_compatible_profile statement)) in
      if \<not> starts_with ''SET '' upper then False
      else
        (let assignment = trim (trim_set_prefixes (length upper) upper) in
         if starts_with ''@'' assignment then False
         else str_contains ''= @OLD_'' assignment \<or> str_contains ''=@OLD_'' assignment \<or>
           str_contains ''= @SAVED_'' assignment \<or> str_contains ''=@SAVED_'' assignment))"

definition is_postgres_pg_dump_guard_command :: "string \<Rightarrow> bool" where
  "is_postgres_pg_dump_guard_command line =
     (case split_whitespace line of
        [command, key] \<Rightarrow>
          (command = CHR 92 # ''restrict'' \<or> command = CHR 92 # ''unrestrict'') \<and> list_all is_ascii_alphanumeric key
      | _ \<Rightarrow> False)"

definition strip_postgres_pg_dump_guard_command :: "string \<Rightarrow> string option" where
  "strip_postgres_pg_dump_guard_command statement =
     (let executable = leading_executable_sql_with_options (profile_for_database_type ''Postgres'') statement;
          line = takeWhile (\<lambda>c. c \<noteq> CHR 10) executable
      in
      if \<not> is_postgres_pg_dump_guard_command line then None
      else Some (take (length statement - length executable) statement @ drop (length line + 1) executable))"

definition prepare_sql_file_statement ::
  "string \<Rightarrow> database_type \<Rightarrow> string option \<Rightarrow> rust_panic + sql_file_statement_action" where
  "prepare_sql_file_statement statement0 db driver_profile =
     (let trimmed = trim statement0;
          postgres = (if db = ''Postgres'' then strip_postgres_pg_dump_guard_command trimmed else None);
          statement = trim (case postgres of Some s \<Rightarrow> s | None \<Rightarrow> trimmed)
      in
      if statement = [] \<or> postgres \<noteq> None \<and>
          \<not> has_executable_sql_with_options (profile_for_database_type ''Postgres'') statement
      then Inr Skip
      else
        (let mysql = is_mysql_compatible_import_target db driver_profile in
         if mysql \<and> is_mysql_lock_table_statement statement then Inr Skip
         else
           (case mysql_executable_comment_body statement of
              Inl e \<Rightarrow> Inl e
            | Inr None \<Rightarrow>
                if mysql \<and> is_mysql_session_restore_statement statement then Inr Skip
                else Inr (Execute statement)
            | Inr (Some body0) \<Rightarrow>
                if \<not> mysql then Inr Skip
                else
                  (let body = trim body0 in
                   if body = [] \<or> is_mysql_key_toggle_statement body \<or> is_mysql_session_restore_statement body
                   then Inr Skip else Inr (Execute body)))))"

section \<open>Mergeable inserts\<close>

text \<open>\<^verbatim>\<open>str::len\<close> counts UTF-8 bytes: one for an ASCII character, two for the others of the model.\<close>

definition byte_len :: "string \<Rightarrow> nat" where
  "byte_len s = sum_list (map (\<lambda>c. if is_ascii c then 1 else 2) s)"

text \<open>The scan for \<^verbatim>\<open>VALUES\<close>; the result is the text before and after the keyword.\<close>

fun values_loop :: "string \<Rightarrow> string \<Rightarrow> sql_scanner \<Rightarrow> nat \<Rightarrow> (string \<times> string) option" where
  "values_loop before [] sc depth = None"
| "values_loop before (c # cs) sc depth =
     (let sc' = scanner_step default_profile before c cs sc in
      if scanner_is_masked sc' then values_loop (before @ [c]) cs sc' depth
      else if c = CHR ''('' then values_loop (before @ [c]) cs sc' (depth + 1)
      else if c = CHR '')'' then values_loop (before @ [c]) cs sc' (depth - 1)
      else if depth = 0 \<and> keyword_at before (c # cs) ''values'' then Some (before, drop 6 (c # cs))
      else if depth = 0 \<and> keyword_at before (c # cs) ''value'' then Some (before, drop 5 (c # cs))
      else values_loop (before @ [c]) cs sc' depth)"

definition find_top_level_values_keyword :: "string \<Rightarrow> (string \<times> string) option" where
  "find_top_level_values_keyword sql = values_loop [] sql new_scanner 0"

text \<open>The tuple check; the result says whether a tuple was seen and the parenthesis depth at the end.\<close>

fun tail_loop :: "string \<Rightarrow> string \<Rightarrow> sql_scanner \<Rightarrow> nat \<Rightarrow> bool \<Rightarrow> bool \<Rightarrow> (bool \<times> nat) option" where
  "tail_loop before [] sc depth saw expecting = Some (saw, depth)"
| "tail_loop before (c # cs) sc depth saw expecting =
     (let sc' = scanner_step default_profile before c cs sc;
          continue = tail_loop (before @ [c]) cs sc'
      in
      if scanner_is_masked sc' then continue depth saw expecting
      else if expecting then
        (if is_whitespace c \<or> saw \<and> c = CHR '','' then continue depth saw expecting
         else if c \<noteq> CHR ''('' then None
         else continue 1 True False)
      else if c = CHR ''('' then continue (depth + 1) saw expecting
      else if c = CHR '')'' then
        (if depth = 0 then None else continue (depth - 1) saw (depth - 1 = 0))
      else if c = CHR '','' \<and> depth = 0 then continue depth saw expecting
      else if depth = 0 \<and> \<not> is_whitespace c then None
      else continue depth saw expecting)"

definition parse_insert_values_tail :: "string \<Rightarrow> string option" where
  "parse_insert_values_tail tail0 =
     (let tail = trim (trim_end_matches (CHR '';'') (trim tail0)) in
      if tail = [] then None
      else
        (case tail_loop [] tail new_scanner 0 False True of
           Some (saw, depth) \<Rightarrow> if saw \<and> depth = 0 then Some tail else None
         | None \<Rightarrow> None))"

fun prefix_key_loop :: "string \<Rightarrow> string \<Rightarrow> sql_scanner \<Rightarrow> bool \<Rightarrow> string" where
  "prefix_key_loop before [] sc spaced = []"
| "prefix_key_loop before (c # cs) sc spaced =
     (let sc' = scanner_step default_profile before c cs sc in
      if sc_single_quote sc' \<or> sc_double_quote sc' \<or> sc_backtick sc' \<or> sc_dollar_tag sc' \<noteq> None
      then c # prefix_key_loop (before @ [c]) cs sc' False
      else if is_whitespace c then
        (if spaced then [] else '' '') @ prefix_key_loop (before @ [c]) cs sc' True
      else to_ascii_lowercase [c] @ prefix_key_loop (before @ [c]) cs sc' False)"

definition normalize_insert_prefix_key :: "string \<Rightarrow> string" where
  "normalize_insert_prefix_key pre = trim (prefix_key_loop [] pre new_scanner False)"

record mergeable_insert =
  mi_prefix :: string
  mi_prefix_key :: string
  mi_values :: string
  mi_sql :: string

definition starts_with_sql_keyword :: "string \<Rightarrow> string \<Rightarrow> bool" where
  "starts_with_sql_keyword sql keyword \<longleftrightarrow>
     length keyword \<le> length sql \<and> eq_ignore_ascii_case (take (length keyword) sql) keyword \<and>
     ident_boundary (first_char (drop (length keyword) sql))"

definition parse_mergeable_insert :: "string \<Rightarrow> sql_dialect_profile \<Rightarrow> mergeable_insert option" where
  "parse_mergeable_insert sql p =
     (let executable = trim (trim_end_matches (CHR '';'') (trim (leading_executable_sql_with_options p sql))) in
      if \<not> starts_with_sql_keyword executable ''insert'' then None
      else
        (case find_top_level_values_keyword executable of
           None \<Rightarrow> None
         | Some (before, after) \<Rightarrow>
             (case parse_insert_values_tail (trim after) of
                None \<Rightarrow> None
              | Some values' \<Rightarrow>
                  Some \<lparr>mi_prefix = trim_end before, mi_prefix_key = normalize_insert_prefix_key (trim_end before),
                        mi_values = values', mi_sql = executable\<rparr>)))"

section \<open>Insert batches\<close>

datatype insert_batch_syntax = MultiRowValues | OracleInsertAll

definition insert_batch_syntax_of :: "database_type option \<Rightarrow> insert_batch_syntax" where
  "insert_batch_syntax_of db =
     (if db = Some ''Oracle'' \<or> db = Some ''OceanbaseOracle'' then OracleInsertAll else MultiRowValues)"

definition sql_file_insert_batch_max_statements :: nat where
  "sql_file_insert_batch_max_statements = 500"

definition sql_file_insert_batch_max_bytes :: nat where
  "sql_file_insert_batch_max_bytes = 4 * 1024 * 1024"

record pending_insert_batch =
  pb_prefix :: string
  pb_prefix_key :: string
  pb_values :: "string list"
  pb_source_sqls :: "string list"
  pb_count :: nat
  pb_byte_len :: nat
  pb_syntax :: insert_batch_syntax

definition new_batch :: "mergeable_insert \<Rightarrow> insert_batch_syntax \<Rightarrow> pending_insert_batch" where
  "new_batch ins syntax =
     \<lparr>pb_prefix = mi_prefix ins, pb_prefix_key = mi_prefix_key ins, pb_values = [mi_values ins],
      pb_source_sqls = [mi_sql ins], pb_count = 1,
      pb_byte_len = byte_len (mi_prefix ins) + byte_len (mi_values ins) + 16, pb_syntax = syntax\<rparr>"

definition can_accept :: "pending_insert_batch \<Rightarrow> mergeable_insert \<Rightarrow> nat \<Rightarrow> bool" where
  "can_accept batch ins max_statements \<longleftrightarrow>
     pb_prefix_key batch = mi_prefix_key ins \<and> pb_count batch < max_statements \<and>
     pb_byte_len batch + byte_len (mi_values ins) + 3 \<le> sql_file_insert_batch_max_bytes"

definition push_insert :: "pending_insert_batch \<Rightarrow> mergeable_insert \<Rightarrow> pending_insert_batch" where
  "push_insert batch ins =
     batch\<lparr>pb_byte_len := pb_byte_len batch + byte_len (mi_values ins) + 3,
           pb_values := pb_values batch @ [mi_values ins],
           pb_source_sqls := pb_source_sqls batch @ [mi_sql ins],
           pb_count := pb_count batch + 1\<rparr>"

fun insert_target_loop :: "string \<Rightarrow> string \<Rightarrow> sql_scanner \<Rightarrow> bool \<Rightarrow> string option" where
  "insert_target_loop before [] sc seen = None"
| "insert_target_loop before (c # cs) sc seen =
     (let sc' = scanner_step default_profile before c cs sc in
      if scanner_is_masked sc' then insert_target_loop (before @ [c]) cs sc' seen
      else if \<not> seen then insert_target_loop (before @ [c]) cs sc' (keyword_at before (c # cs) ''insert'')
      else if keyword_at before (c # cs) ''into'' then
        (let target = trim (drop 4 (c # cs)) in if target = [] then None else Some target)
      else insert_target_loop (before @ [c]) cs sc' seen)"

definition oracle_insert_all_target :: "string \<Rightarrow> string option" where
  "oracle_insert_all_target pre = insert_target_loop [] pre new_scanner False"

definition join_lines :: "string \<Rightarrow> string list \<Rightarrow> string" where
  "join_lines separator rows =
     (case rows of [] \<Rightarrow> [] | r # rs \<Rightarrow> r @ concat (map (\<lambda>x. separator @ x) rs))"

definition multi_row_sql :: "pending_insert_batch \<Rightarrow> string" where
  "multi_row_sql batch = pb_prefix batch @ '' VALUES'' @ [CHR 10] @ join_lines ('','' @ [CHR 10]) (pb_values batch)"

definition batch_to_sql :: "pending_insert_batch \<Rightarrow> string" where
  "batch_to_sql batch =
     (if pb_count batch = 1 then (case pb_source_sqls batch of [] \<Rightarrow> [] | s # _ \<Rightarrow> s)
      else if pb_syntax batch = OracleInsertAll then
        (case oracle_insert_all_target (pb_prefix batch) of
           Some target \<Rightarrow>
             ''INSERT ALL'' @ [CHR 10] @
             concat (map (\<lambda>v. ''INTO '' @ target @ '' VALUES '' @ v @ [CHR 10]) (pb_values batch)) @
             ''SELECT 1 FROM dual''
         | None \<Rightarrow> multi_row_sql batch)
      else multi_row_sql batch)"

datatype import_statement_kind = ExecuteKind | SkipKind

record import_statement =
  is_kind :: import_statement_kind
  is_sql :: string
  source_sqls :: "string list"
  source_statement_count :: nat

definition flush_pending_insert :: "pending_insert_batch option \<Rightarrow> import_statement list" where
  "flush_pending_insert pending =
     (case pending of
        None \<Rightarrow> []
      | Some batch \<Rightarrow>
          [\<lparr>is_kind = ExecuteKind, is_sql = batch_to_sql batch, source_sqls = pb_source_sqls batch,
            source_statement_count = pb_count batch\<rparr>])"

definition single_statement :: "import_statement_kind \<Rightarrow> string \<Rightarrow> import_statement" where
  "single_statement kind sql = \<lparr>is_kind = kind, is_sql = sql, source_sqls = [sql], source_statement_count = 1\<rparr>"

definition statement_action ::
  "database_type option \<Rightarrow> string option \<Rightarrow> string \<Rightarrow> rust_panic + sql_file_statement_action" where
  "statement_action db driver_profile statement =
     (case db of
        Some d \<Rightarrow> prepare_sql_file_statement statement d driver_profile
      | None \<Rightarrow> Inr (Execute (trim statement)))"

definition merges_inserts :: "database_type option \<Rightarrow> string option \<Rightarrow> bool" where
  "merges_inserts db driver_profile =
     (case db of None \<Rightarrow> True | Some d \<Rightarrow> \<not> is_mysql_compatible_import_target d driver_profile)"

definition mergeable ::
  "database_type option \<Rightarrow> string option \<Rightarrow> string \<Rightarrow> mergeable_insert option" where
  "mergeable db driver_profile sql =
     (if merges_inserts db driver_profile
      then parse_mergeable_insert sql
             (case db of Some d \<Rightarrow> profile_for_database_type d | None \<Rightarrow> default_profile)
      else None)"

text \<open>One pass of the batching loop: the statements emitted and the batch that stays open.\<close>

definition batch_step ::
  "database_type option \<Rightarrow> string option \<Rightarrow> nat \<Rightarrow> string \<Rightarrow> sql_file_statement_action
     \<Rightarrow> pending_insert_batch option \<Rightarrow> import_statement list \<times> pending_insert_batch option" where
  "batch_step db driver_profile max_statements statement action pending =
     (case action of
        Skip \<Rightarrow> (flush_pending_insert pending @ [single_statement SkipKind (trim statement)], None)
      | Execute sql \<Rightarrow>
          (case mergeable db driver_profile sql of
             Some ins \<Rightarrow>
               (case pending of
                  Some batch \<Rightarrow>
                    if can_accept batch ins max_statements then ([], Some (push_insert batch ins))
                    else (flush_pending_insert pending, Some (new_batch ins (insert_batch_syntax_of db)))
                | None \<Rightarrow> ([], Some (new_batch ins (insert_batch_syntax_of db))))
           | None \<Rightarrow> (flush_pending_insert pending @ [single_statement ExecuteKind sql], None)))"

fun optimize_loop ::
  "database_type option \<Rightarrow> string option \<Rightarrow> nat \<Rightarrow> string list \<Rightarrow> pending_insert_batch option
     \<Rightarrow> rust_panic + import_statement list" where
  "optimize_loop db driver_profile max_statements [] pending = Inr (flush_pending_insert pending)"
| "optimize_loop db driver_profile max_statements (statement # statements) pending =
     (case statement_action db driver_profile statement of
        Inl e \<Rightarrow> Inl e
      | Inr action \<Rightarrow>
          (case batch_step db driver_profile max_statements statement action pending of
             (out, pending') \<Rightarrow>
               map_sum id (\<lambda>rest. out @ rest) (optimize_loop db driver_profile max_statements statements pending')))"

definition optimize_sql_file_import_statements ::
  "string list \<Rightarrow> database_type option \<Rightarrow> string option \<Rightarrow> rust_panic + import_statement list" where
  "optimize_sql_file_import_statements statements db driver_profile =
     optimize_loop db driver_profile sql_file_insert_batch_max_statements statements None"

section \<open>Preparing a statement never panics\<close>

lemma ascii_whitespace_whitespace: "is_ascii_whitespace c \<Longrightarrow> is_whitespace c"
  by (auto simp: is_ascii_whitespace_def is_whitespace_def)

lemma last_dropWhile: "dropWhile P xs \<noteq> [] \<Longrightarrow> last (dropWhile P xs) = last xs"
  by (metis last_appendR takeWhile_dropWhile_id)

lemma leading_comment_no_panic:
  "s = [] \<or> \<not> is_whitespace (last s) \<Longrightarrow> \<exists>r. leading_mysql_executable_comment_start s = Inr r"
proof (induction s rule: leading_mysql_executable_comment_start.induct)
  case (1 s)
  show ?case
  proof (cases "s = []")
    case True
    then show ?thesis by (subst leading_mysql_executable_comment_start.simps) simp
  next
    case False
    then have last: "\<not> is_whitespace (last s)" using "1.prems" by simp
    have "dropWhile is_ascii_whitespace s \<noteq> []"
      using last False ascii_whitespace_whitespace by (metis dropWhile_eq_Nil_conv last_in_set)
    then obtain c cs where d: "dropWhile is_ascii_whitespace s = c # cs" by (meson neq_Nil_conv)
    have lc: "last (c # cs) = last s" using last_dropWhile [of is_ascii_whitespace s] d by simp
    have suffix: "t = [] \<or> \<not> is_whitespace (last t)" if "c # cs = a @ t" for a t
      using that last lc by (metis append_Nil2 last_appendR)
    have lines: "dropWhile P (drop n cs) = [] \<or> \<not> is_whitespace (last (dropWhile P (drop n cs)))" for P n
      by (rule suffix [of "c # take n cs @ takeWhile P (drop n cs)"]) simp
    have line: "dropWhile P cs = [] \<or> \<not> is_whitespace (last (dropWhile P cs))" for P
      by (rule suffix [of "c # takeWhile P cs"]) simp
    have drops: "drop n cs = [] \<or> \<not> is_whitespace (last (drop n cs))" for n
      by (rule suffix [of "c # take n cs"]) simp
    note ih = 1(1-3) [OF False d]
    show ?thesis
      unfolding leading_mysql_executable_comment_start.simps [of s] d list.case if_not_P [OF False]
      using ih(1) [OF _ lines [of _ 1]] ih(2) [OF _ _ line] ih(3) [OF _ _ _ _ _ drops]
      by (auto split: option.split)
  qed
qed

lemma trim_last: "trim s \<noteq> [] \<Longrightarrow> \<not> is_whitespace (last (trim s))"
proof -
  assume "trim s \<noteq> []"
  then have n: "dropWhile is_whitespace (rev (trim_start s)) \<noteq> []" by (simp add: trim_def trim_end_def)
  have "last (trim s) = hd (dropWhile is_whitespace (rev (trim_start s)))"
    by (simp add: trim_def trim_end_def last_rev)
  then show ?thesis using hd_dropWhile [OF n] by simp
qed

lemma comment_body_no_panic:
  assumes "s \<noteq> []" and "\<not> is_whitespace (last s)"
  shows "\<exists>r. mysql_executable_comment_body s = Inr r"
  using leading_comment_no_panic [of s] assms
  by (auto simp: mysql_executable_comment_body_def Let_def split: option.split)

lemma prepare_no_panic: "\<exists>a. prepare_sql_file_statement s db dp = Inr a"
proof -
  let ?t = "trim (case if db = ''Postgres'' then strip_postgres_pg_dump_guard_command (trim s) else None of
     Some s \<Rightarrow> s | None \<Rightarrow> trim s)"
  show ?thesis
  proof (cases "?t = []")
    case True
    then show ?thesis unfolding prepare_sql_file_statement_def Let_def by simp
  next
    case False
    obtain r where r: "mysql_executable_comment_body ?t = Inr r"
      using comment_body_no_panic [OF False trim_last [OF False]] by blast
    then show ?thesis
      unfolding prepare_sql_file_statement_def Let_def r by (cases r) simp_all
  qed
qed

lemma statement_action_no_panic: "\<exists>a. statement_action db dp s = Inr a"
  using prepare_no_panic by (auto simp: statement_action_def split: option.split)

section \<open>Batches keep every statement, in order\<close>

lemma byte_len_append [simp]: "byte_len (a @ b) = byte_len a + byte_len b"
  by (simp add: byte_len_def)

lemma byte_len_Nil [simp]: "byte_len [] = 0"
  by (simp add: byte_len_def)

definition batch_bytes :: "pending_insert_batch \<Rightarrow> nat" where
  "batch_bytes b = byte_len (pb_prefix b) + sum_list (map (\<lambda>v. byte_len v + 3) (pb_values b)) + 13"

definition batch_ok :: "nat \<Rightarrow> insert_batch_syntax \<Rightarrow> pending_insert_batch \<Rightarrow> bool" where
  "batch_ok limit syntax b \<longleftrightarrow>
     length (pb_source_sqls b) = pb_count b \<and> pb_values b \<noteq> [] \<and> 1 \<le> pb_count b \<and> pb_count b \<le> max limit 1 \<and>
     pb_syntax b = syntax \<and> pb_byte_len b = batch_bytes b \<and>
     (pb_count b = 1 \<or> pb_byte_len b \<le> sql_file_insert_batch_max_bytes)"

lemma new_batch_ok: "batch_ok limit syntax (new_batch i syntax)"
  by (simp add: batch_ok_def new_batch_def batch_bytes_def)

lemma push_insert_ok: "batch_ok limit syntax b \<Longrightarrow> can_accept b i limit \<Longrightarrow> batch_ok limit syntax (push_insert b i)"
  by (auto simp: batch_ok_def push_insert_def can_accept_def batch_bytes_def)

lemma join_lines_bytes: "rows \<noteq> [] \<Longrightarrow>
    byte_len (join_lines ('','' @ [CHR 10]) rows) + 3 \<le> sum_list (map (\<lambda>v. byte_len v + 3) rows)"
proof (cases rows)
  case (Cons r rs)
  have "byte_len (concat (map ((@) ('','' @ [CHR 10])) rs)) \<le> sum_list (map (\<lambda>v. byte_len v + 3) rs)"
    by (induction rs) (simp_all add: byte_len_def is_ascii_code)
  then show ?thesis using Cons unfolding join_lines_def by simp
qed simp

lemma multi_row_bytes: "pb_values b \<noteq> [] \<Longrightarrow> byte_len (multi_row_sql b) \<le> batch_bytes b"
  using join_lines_bytes [of "pb_values b"]
  by (simp add: multi_row_sql_def batch_bytes_def) (simp add: byte_len_def is_ascii_code)

text \<open>What a statement of the script becomes: its own text when it is skipped, else the prepared text.\<close>

definition prepared_text :: "database_type option \<Rightarrow> string option \<Rightarrow> string \<Rightarrow> string" where
  "prepared_text db dp statement =
     (case statement_action db dp statement of
        Inr (Execute sql) \<Rightarrow> (case mergeable db dp sql of Some i \<Rightarrow> mi_sql i | None \<Rightarrow> sql)
      | _ \<Rightarrow> trim statement)"

definition statement_ok :: "nat \<Rightarrow> insert_batch_syntax \<Rightarrow> import_statement \<Rightarrow> bool" where
  "statement_ok limit syntax s \<longleftrightarrow>
     source_statement_count s = length (source_sqls s) \<and> 1 \<le> source_statement_count s \<and>
     source_statement_count s \<le> max limit 1 \<and>
     (source_statement_count s > 1 \<and> syntax = MultiRowValues \<longrightarrow> byte_len (is_sql s) \<le> sql_file_insert_batch_max_bytes)"

definition pending_sources :: "pending_insert_batch option \<Rightarrow> string list" where
  "pending_sources pending = (case pending of None \<Rightarrow> [] | Some b \<Rightarrow> pb_source_sqls b)"

definition pending_ok :: "nat \<Rightarrow> insert_batch_syntax \<Rightarrow> pending_insert_batch option \<Rightarrow> bool" where
  "pending_ok limit syntax pending = (case pending of None \<Rightarrow> True | Some b \<Rightarrow> batch_ok limit syntax b)"

lemma flush_ok:
  assumes "pending_ok limit syntax pending"
  shows "list_all (statement_ok limit syntax) (flush_pending_insert pending) \<and>
    concat (map source_sqls (flush_pending_insert pending)) = pending_sources pending"
proof (cases pending)
  case (Some b)
  then have ok: "batch_ok limit syntax b" using assms by (simp add: pending_ok_def)
  have "byte_len (batch_to_sql b) \<le> sql_file_insert_batch_max_bytes" if "pb_count b > 1" "syntax = MultiRowValues"
    using ok multi_row_bytes [of b] that by (auto simp: batch_ok_def batch_to_sql_def)
  then show ?thesis
    using ok Some by (simp add: flush_pending_insert_def statement_ok_def pending_sources_def batch_ok_def)
qed (simp add: flush_pending_insert_def pending_sources_def)

lemma single_ok: "statement_ok limit syntax (single_statement k s)"
  by (simp add: single_statement_def statement_ok_def)

lemma batch_step_ok:
  assumes "pending_ok limit (insert_batch_syntax_of db) pending" and "statement_action db dp statement = Inr action"
    and "batch_step db dp limit statement action pending = (out, pending')"
  shows "pending_ok limit (insert_batch_syntax_of db) pending' \<and>
    list_all (statement_ok limit (insert_batch_syntax_of db)) out \<and>
    concat (map source_sqls out) @ pending_sources pending' = pending_sources pending @ [prepared_text db dp statement]"
proof (cases action)
  case Skip
  then show ?thesis
    using assms flush_ok [OF assms(1)]
    by (auto simp: batch_step_def pending_ok_def pending_sources_def prepared_text_def single_ok)
      (simp add: single_statement_def)
next
  case (Execute sql)
  show ?thesis
  proof (cases "mergeable db dp sql")
    case None
    then show ?thesis
      using assms flush_ok [OF assms(1)] Execute
      by (auto simp: batch_step_def pending_ok_def pending_sources_def prepared_text_def single_ok)
        (simp add: single_statement_def)
  next
    case (Some i)
    have txt_eq: "prepared_text db dp statement = mi_sql i" using assms(2) Execute Some by (simp add: prepared_text_def)
    have start: "pending_sources (Some (new_batch i x)) = [mi_sql i]" for x
      by (simp add: pending_sources_def new_batch_def)
    show ?thesis
    proof (cases pending)
      case None
      then show ?thesis
        using assms(3) Execute Some txt_eq start
        by (auto simp: batch_step_def pending_ok_def new_batch_ok) (simp add: pending_sources_def)
    next
      case (Some b)
      then have b: "batch_ok limit (insert_batch_syntax_of db) b" using assms(1) by (simp add: pending_ok_def)
      show ?thesis
      proof (cases "can_accept b i limit")
        case True
        then have "out = []" "pending' = Some (push_insert b i)"
          using assms(3) Execute \<open>mergeable db dp sql = Some i\<close> Some by (auto simp: batch_step_def)
        then show ?thesis
          using push_insert_ok [OF b True] txt_eq Some
          by (simp add: pending_ok_def pending_sources_def push_insert_def)
      next
        case False
        then have "out = flush_pending_insert pending" "pending' = Some (new_batch i (insert_batch_syntax_of db))"
          using assms(3) Execute \<open>mergeable db dp sql = Some i\<close> Some by (auto simp: batch_step_def)
        then show ?thesis
          using flush_ok [OF assms(1)] txt_eq start by (simp add: pending_ok_def new_batch_ok)
      qed
    qed
  qed
qed

lemma optimize_loop_ok:
  "pending_ok limit (insert_batch_syntax_of db) pending \<Longrightarrow>
     \<exists>out. optimize_loop db dp limit statements pending = Inr out \<and>
       concat (map source_sqls out) = pending_sources pending @ map (prepared_text db dp) statements \<and>
       list_all (statement_ok limit (insert_batch_syntax_of db)) out"
proof (induction statements arbitrary: pending)
  case Nil
  then show ?case using flush_ok by simp
next
  case (Cons s ss)
  obtain action where a: "statement_action db dp s = Inr action" using statement_action_no_panic by blast
  obtain out pending' where b: "batch_step db dp limit s action pending = (out, pending')" by fastforce
  note ok = batch_step_ok [OF Cons.prems a b]
  obtain rest where r: "optimize_loop db dp limit ss pending' = Inr rest"
      "concat (map source_sqls rest) = pending_sources pending' @ map (prepared_text db dp) ss"
      "list_all (statement_ok limit (insert_batch_syntax_of db)) rest"
    using Cons.IH [of pending'] ok by blast
  have "concat (map source_sqls (out @ rest)) = pending_sources pending @ map (prepared_text db dp) (s # ss)"
    using r(2) ok by simp
  then show ?case using a b r ok by auto
qed

lemma optimize_loop_unmerged:
  assumes "\<not> merges_inserts db dp"
  shows "optimize_loop db dp limit statements None = Inr out \<Longrightarrow> length out = length statements"
proof (induction statements arbitrary: out)
  case (Cons s ss)
  obtain action where a: "statement_action db dp s = Inr action" using statement_action_no_panic by blast
  have "\<exists>x. batch_step db dp limit s action None = ([x], None)"
    using assms by (auto simp: batch_step_def mergeable_def flush_pending_insert_def split: sql_file_statement_action.split)
  then obtain x where b: "batch_step db dp limit s action None = ([x], None)" by blast
  obtain rest where "optimize_loop db dp limit ss None = Inr rest" "out = x # rest"
    using Cons.prems a b by (cases "optimize_loop db dp limit ss None") auto
  then show ?case using Cons.IH by simp
qed (simp add: flush_pending_insert_def)

section \<open>What a merged statement is made of\<close>

text \<open>
  A recognised insert is its prefix, a \<^verbatim>\<open>VALUES\<close> keyword and its rows, up to white space between them and
  semicolons after them.
\<close>

definition insert_parts :: "mergeable_insert \<Rightarrow> bool" where
  "insert_parts i \<longleftrightarrow>
     (\<exists>gap keyword gap' rest.
        mi_sql i = mi_prefix i @ gap @ keyword @ gap' @ mi_values i @ rest \<and>
        list_all is_whitespace gap \<and> list_all is_whitespace gap' \<and>
        to_ascii_lowercase keyword \<in> {''values'', ''value''} \<and>
        list_all (\<lambda>c. is_whitespace c \<or> c = CHR '';'') rest)"

lemma trim_gaps: "\<exists>a b. s = a @ trim s @ b \<and> list_all is_whitespace a \<and> list_all is_whitespace b"
proof -
  have "s = takeWhile is_whitespace s @ trim_start s" by (simp add: trim_start_def)
  moreover have "trim_start s = trim s @ rev (takeWhile is_whitespace (rev (trim_start s)))"
    by (metis rev_append rev_rev_ident takeWhile_dropWhile_id trim_def trim_end_def)
  moreover have "list_all is_whitespace (takeWhile is_whitespace s)" for s
    by (auto simp: list_all_iff dest: set_takeWhileD)
  moreover have "list_all is_whitespace (rev (takeWhile is_whitespace s))" for s
    by (auto simp: list_all_iff dest: set_takeWhileD)
  ultimately show ?thesis by (metis append_assoc)
qed

lemma trim_end_gap: "\<exists>b. s = trim_end s @ b \<and> list_all is_whitespace b"
proof -
  have "s = trim_end s @ rev (takeWhile is_whitespace (rev s))"
    by (metis rev_append rev_rev_ident takeWhile_dropWhile_id trim_end_def)
  moreover have "list_all is_whitespace (rev (takeWhile is_whitespace s))" for s
    by (auto simp: list_all_iff dest: set_takeWhileD)
  ultimately show ?thesis by blast
qed

lemma trim_end_matches_gap: "\<exists>b. s = trim_end_matches d s @ b \<and> list_all (\<lambda>c. c = d) b"
proof -
  have "s = trim_end_matches d s @ rev (takeWhile (\<lambda>c. c = d) (rev s))"
    by (metis rev_append rev_rev_ident takeWhile_dropWhile_id trim_end_matches_def)
  moreover have "list_all (\<lambda>c. c = d) (rev (takeWhile (\<lambda>c. c = d) s))" for s
    by (auto simp: list_all_iff dest: set_takeWhileD)
  ultimately show ?thesis by blast
qed

lemma keyword_at_split:
  assumes "keyword_at before rest keyword"
  shows "\<exists>k. rest = k @ drop (length keyword) rest \<and> to_ascii_lowercase k = to_ascii_lowercase keyword"
  using assms append_take_drop_id [of "length keyword" rest]
  by (metis eq_ignore_ascii_case_def keyword_at_def)

lemma values_loop_split:
  "values_loop before s sc depth = Some (a, b) \<Longrightarrow>
     \<exists>k. before @ s = a @ k @ b \<and> to_ascii_lowercase k \<in> {''values'', ''value''}"
proof (induction s arbitrary: before sc depth)
  case (Cons c cs)
  have low: "to_ascii_lowercase ''values'' = ''values''" "to_ascii_lowercase ''value'' = ''value''" by code_simp+
  have found: ?case if "keyword_at before (c # cs) w" "(before, drop n (c # cs)) = (a, b)"
      "w = ''values'' \<and> n = 6 \<or> w = ''value'' \<and> n = 5" for w n
  proof -
    have n: "n = length w" using that(3) by auto
    show ?thesis using keyword_at_split [OF that(1)] that(2,3) low unfolding n by auto
  qed
  let ?sc = "scanner_step default_profile before c cs sc"
  have on: ?case if "values_loop (before @ [c]) cs ?sc d = Some (a, b)" for d
    using Cons.IH [OF that] by simp
  consider d where "values_loop (before @ [c]) cs ?sc d = Some (a, b)"
    | "keyword_at before (c # cs) ''values''" "(before, drop 6 (c # cs)) = (a, b)"
    | "keyword_at before (c # cs) ''value''" "(before, drop 5 (c # cs)) = (a, b)"
    using Cons.prems unfolding values_loop.simps Let_def
    by (simp split: if_split_asm)
  then show ?case
  proof cases
    case 1
    then show ?thesis by (rule on)
  next
    case 2
    then show ?thesis by (rule found) simp
  next
    case 3
    then show ?thesis by (rule found) simp
  qed
qed simp

lemma values_tail_parts:
  assumes "parse_insert_values_tail (trim tail) = Some v"
  shows "\<exists>gap rest. tail = gap @ v @ rest \<and> list_all is_whitespace gap \<and>
    list_all (\<lambda>c. is_whitespace c \<or> c = CHR '';'') rest"
proof -
  let ?t = "trim tail"
  have v: "v = trim (trim_end_matches (CHR '';'') ?t)"
    using assms by (auto simp: parse_insert_values_tail_def Let_def split: if_splits option.splits)
  obtain a b where t: "tail = a @ ?t @ b" "list_all is_whitespace a" "list_all is_whitespace b"
    using trim_gaps by blast
  obtain c where c: "?t = trim_end_matches (CHR '';'') ?t @ c" "list_all (\<lambda>x. x = CHR '';'') c"
    using trim_end_matches_gap by blast
  obtain d e where d: "trim_end_matches (CHR '';'') ?t = d @ v @ e" "list_all is_whitespace d" "list_all is_whitespace e"
    using trim_gaps v by metis
  have "tail = (a @ d) @ v @ (e @ c @ b)" using t(1) c(1) d(1) by (metis append.assoc)
  moreover have "list_all is_whitespace (a @ d)" using t d by simp
  moreover have "list_all (\<lambda>c. is_whitespace c \<or> c = CHR '';'') (e @ c @ b)" using t c d by (auto simp: list_all_iff)
  ultimately show ?thesis by blast
qed

lemma parse_mergeable_insert_parts:
  assumes "parse_mergeable_insert sql p = Some i"
  shows "insert_parts i"
proof -
  define e where "e = trim (trim_end_matches (CHR '';'') (trim (leading_executable_sql_with_options p sql)))"
  obtain before after v where found: "find_top_level_values_keyword e = Some (before, after)"
      and v: "parse_insert_values_tail (trim after) = Some v"
      and i: "i = \<lparr>mi_prefix = trim_end before, mi_prefix_key = normalize_insert_prefix_key (trim_end before),
                   mi_values = v, mi_sql = e\<rparr>"
    using assms unfolding parse_mergeable_insert_def Let_def e_def [symmetric]
    by (auto split: if_splits option.splits)
  obtain k where k: "e = before @ k @ after" "to_ascii_lowercase k \<in> {''values'', ''value''}"
    using values_loop_split [of "[]" e new_scanner 0] found unfolding find_top_level_values_keyword_def by auto
  obtain gap where gap: "before = trim_end before @ gap" "list_all is_whitespace gap" using trim_end_gap by blast
  obtain gap' rest where rest: "after = gap' @ v @ rest" "list_all is_whitespace gap'"
      "list_all (\<lambda>c. is_whitespace c \<or> c = CHR '';'') rest"
    using values_tail_parts [OF v] by blast
  have "e = trim_end before @ gap @ k @ gap' @ v @ rest" using k(1) gap(1) rest(1) by (metis append.assoc)
  with k(2) gap(2) rest(2,3) show ?thesis
    unfolding insert_parts_def i
    by (intro exI [of _ gap] exI [where x = k] exI [where x = gap'] exI [where x = rest]) simp
qed

text \<open>The insert a statement of the script is recognised as, when inserts are merged for the target.\<close>

definition insert_of :: "database_type option \<Rightarrow> string option \<Rightarrow> string \<Rightarrow> mergeable_insert option" where
  "insert_of db dp statement =
     (case statement_action db dp statement of
        Inr (Execute sql) \<Rightarrow> mergeable db dp sql
      | _ \<Rightarrow> None)"

lemma insert_of_parts: "insert_of db dp statement = Some i \<Longrightarrow> insert_parts i"
  by (auto simp: insert_of_def mergeable_def intro: parse_mergeable_insert_parts
      split: sum.splits sql_file_statement_action.splits if_splits)

text \<open>
  The text that stands for a run of inserts: a single one as it is, several as one insert with the rows of
  all of them in order, or, for Oracle, as an \<^verbatim>\<open>INSERT ALL\<close> with one \<^verbatim>\<open>INTO\<close> clause for each.
\<close>

definition all_rows :: "mergeable_insert list \<Rightarrow> string" where
  "all_rows inserts =
     mi_prefix (hd inserts) @ '' VALUES'' @ [CHR 10] @ mi_values (hd inserts) @
     concat (map (\<lambda>i. '','' @ [CHR 10] @ mi_values i) (tl inserts))"

definition merged_text :: "database_type option \<Rightarrow> mergeable_insert list \<Rightarrow> string" where
  "merged_text db inserts =
     (if tl inserts = [] then mi_sql (hd inserts)
      else
        (case (insert_batch_syntax_of db, oracle_insert_all_target (mi_prefix (hd inserts))) of
           (OracleInsertAll, Some target) \<Rightarrow>
             ''INSERT ALL'' @ [CHR 10] @
             concat (map (\<lambda>i. ''INTO '' @ target @ '' VALUES '' @ mi_values i @ [CHR 10]) inserts) @
             ''SELECT 1 FROM dual''
         | _ \<Rightarrow> all_rows inserts))"

text \<open>The result for a run of neighbouring statements of the script.\<close>

definition result_for ::
  "database_type option \<Rightarrow> string option \<Rightarrow> string list \<Rightarrow> import_statement \<Rightarrow> bool" where
  "result_for db dp run s \<longleftrightarrow>
     (\<exists>statement. run = [statement] \<and> insert_of db dp statement = None \<and>
        (statement_action db dp statement = Inr Skip \<and>
           s = \<lparr>is_kind = SkipKind, is_sql = trim statement, source_sqls = [trim statement], source_statement_count = 1\<rparr> \<or>
         (\<exists>sql. statement_action db dp statement = Inr (Execute sql) \<and>
           s = \<lparr>is_kind = ExecuteKind, is_sql = sql, source_sqls = [sql], source_statement_count = 1\<rparr>))) \<or>
     (\<exists>inserts. map (insert_of db dp) run = map Some inserts \<and> inserts \<noteq> [] \<and>
        list_all (\<lambda>i. insert_parts i \<and> mi_prefix_key i = mi_prefix_key (hd inserts)) inserts \<and>
        s = \<lparr>is_kind = ExecuteKind, is_sql = merged_text db inserts, source_sqls = map mi_sql inserts,
             source_statement_count = length inserts\<rparr>)"

definition batch_of :: "database_type option \<Rightarrow> string option \<Rightarrow> string list \<Rightarrow> pending_insert_batch \<Rightarrow> bool" where
  "batch_of db dp run b \<longleftrightarrow>
     (\<exists>inserts. map (insert_of db dp) run = map Some inserts \<and> inserts \<noteq> [] \<and>
        list_all (\<lambda>i. mi_prefix_key i = mi_prefix_key (hd inserts)) inserts \<and>
        pb_prefix b = mi_prefix (hd inserts) \<and> pb_prefix_key b = mi_prefix_key (hd inserts) \<and>
        pb_values b = map mi_values inserts \<and> pb_source_sqls b = map mi_sql inserts \<and>
        pb_count b = length inserts \<and> pb_syntax b = insert_batch_syntax_of db)"

definition pending_of :: "database_type option \<Rightarrow> string option \<Rightarrow> string list \<Rightarrow> pending_insert_batch option \<Rightarrow> bool" where
  "pending_of db dp run pending \<longleftrightarrow> (case pending of None \<Rightarrow> run = [] | Some b \<Rightarrow> batch_of db dp run b)"

lemma batch_of_new:
  "insert_of db dp statement = Some i \<Longrightarrow> batch_of db dp [statement] (new_batch i (insert_batch_syntax_of db))"
  unfolding batch_of_def by (rule exI [of _ "[i]"]) (simp add: new_batch_def)

lemma batch_of_push:
  assumes "batch_of db dp run b" and "insert_of db dp statement = Some i" and "can_accept b i limit"
  shows "batch_of db dp (run @ [statement]) (push_insert b i)"
proof -
  obtain inserts where "map (insert_of db dp) run = map Some inserts" "inserts \<noteq> []"
      "list_all (\<lambda>i. mi_prefix_key i = mi_prefix_key (hd inserts)) inserts"
      "pb_prefix b = mi_prefix (hd inserts)" "pb_prefix_key b = mi_prefix_key (hd inserts)"
      "pb_values b = map mi_values inserts" "pb_source_sqls b = map mi_sql inserts"
      "pb_count b = length inserts" "pb_syntax b = insert_batch_syntax_of db"
    using assms(1) unfolding batch_of_def by blast
  then show ?thesis
    unfolding batch_of_def using assms(2,3)
    by (intro exI [of _ "inserts @ [i]"]) (simp add: push_insert_def can_accept_def)
qed

lemma batch_to_sql_merged:
  assumes "pb_prefix b = mi_prefix (hd inserts)" "pb_values b = map mi_values inserts" "inserts \<noteq> []"
    "pb_source_sqls b = map mi_sql inserts" "pb_count b = length inserts" "pb_syntax b = insert_batch_syntax_of db"
  shows "batch_to_sql b = merged_text db inserts"
proof -
  obtain i rest where i: "inserts = i # rest" using assms(3) by (meson neq_Nil_conv)
  have "multi_row_sql b = all_rows inserts"
    using assms(1,2) by (simp add: i multi_row_sql_def all_rows_def join_lines_def comp_def)
  then show ?thesis
    using assms by (cases rest) (auto simp: i batch_to_sql_def merged_text_def comp_def split: option.split insert_batch_syntax.split)
qed

lemma flush_result:
  assumes "batch_of db dp run b"
  shows "\<exists>s. flush_pending_insert (Some b) = [s] \<and> result_for db dp run s"
proof -
  obtain inserts where ins: "map (insert_of db dp) run = map Some inserts" "inserts \<noteq> []"
      "list_all (\<lambda>i. mi_prefix_key i = mi_prefix_key (hd inserts)) inserts"
      "pb_prefix b = mi_prefix (hd inserts)"
      "pb_values b = map mi_values inserts" "pb_source_sqls b = map mi_sql inserts"
      "pb_count b = length inserts" "pb_syntax b = insert_batch_syntax_of db"
    using assms unfolding batch_of_def by blast
  have "list_all insert_parts inserts"
  proof (unfold list_all_iff, rule ballI)
    fix i assume "i \<in> set inserts"
    then have "Some i \<in> set (map (insert_of db dp) run)" unfolding ins(1) by simp
    then show "insert_parts i" using insert_of_parts by (metis (no_types, lifting) imageE list.set_map)
  qed
  then have "list_all (\<lambda>i. insert_parts i \<and> mi_prefix_key i = mi_prefix_key (hd inserts)) inserts"
    using ins(3) by (simp add: list_all_iff)
  then show ?thesis
    using ins batch_to_sql_merged [OF ins(4,5,2,6-8)] unfolding result_for_def flush_pending_insert_def by auto
qed

lemma flush_groups:
  "pending_of db dp run pending \<Longrightarrow>
     \<exists>runs. concat runs = run \<and> list_all2 (result_for db dp) runs (flush_pending_insert pending)"
proof (cases pending)
  case (Some b)
  assume "pending_of db dp run pending"
  then obtain s where "flush_pending_insert (Some b) = [s]" "result_for db dp run s"
    using flush_result [of db dp run b] Some unfolding pending_of_def by auto
  then show ?thesis using Some by (intro exI [of _ "[run]"]) simp
qed (simp add: pending_of_def flush_pending_insert_def)

lemma batch_step_groups:
  assumes pending: "pending_of db dp run pending" and action: "statement_action db dp statement = Inr action"
    and step: "batch_step db dp limit statement action pending = (out, pending')"
  shows "\<exists>runs run'. run @ [statement] = concat runs @ run' \<and>
    list_all2 (result_for db dp) runs out \<and> pending_of db dp run' pending'"
proof -
  obtain runs where g: "concat runs = run" "list_all2 (result_for db dp) runs (flush_pending_insert pending)"
    using flush_groups [OF pending] by blast
  have alone: ?thesis if "out = flush_pending_insert pending @ [s]" "pending' = None" "result_for db dp [statement] s" for s
    using g that by (intro exI [of _ "runs @ [[statement]]"] exI [of _ "[]"])
      (simp add: pending_of_def list_all2_appendI)
  show ?thesis
  proof (cases "insert_of db dp statement")
    case None
    then have "result_for db dp [statement] (single_statement SkipKind (trim statement))" if "action = Skip"
      using that action unfolding result_for_def single_statement_def by simp
    moreover have "result_for db dp [statement] (single_statement ExecuteKind sql)" if "action = Execute sql" for sql
      using that action None unfolding result_for_def single_statement_def by simp
    ultimately show ?thesis
      using None step alone action
      by (auto simp: batch_step_def insert_of_def split: sql_file_statement_action.splits)
  next
    case (Some i)
    then obtain sql where sql: "action = Execute sql" "mergeable db dp sql = Some i"
      using action by (cases action) (auto simp: insert_of_def)
    have fresh: ?thesis if "out = flush_pending_insert pending"
        "pending' = Some (new_batch i (insert_batch_syntax_of db))"
      using g that batch_of_new [OF Some] by (intro exI [of _ runs] exI [of _ "[statement]"]) (simp add: pending_of_def)
    show ?thesis
    proof (cases pending)
      case None
      then show ?thesis using fresh step sql by (simp add: batch_step_def flush_pending_insert_def)
    next
      case (Some b)
      then have b: "batch_of db dp run b" using pending by (simp add: pending_of_def)
      show ?thesis
      proof (cases "can_accept b i limit")
        case True
        then have "out = []" "pending' = Some (push_insert b i)"
          using step sql Some by (simp_all add: batch_step_def)
        then show ?thesis
          using batch_of_push [OF b \<open>insert_of db dp statement = Some i\<close> True]
          by (intro exI [of _ "[]"] exI [of _ "run @ [statement]"]) (simp add: pending_of_def)
      next
        case False
        then show ?thesis using fresh step sql Some by (simp add: batch_step_def)
      qed
    qed
  qed
qed

lemma optimize_loop_groups:
  "pending_of db dp run pending \<Longrightarrow> optimize_loop db dp limit statements pending = Inr out \<Longrightarrow>
     \<exists>runs. concat runs = run @ statements \<and> list_all2 (result_for db dp) runs out"
proof (induction statements arbitrary: run pending out)
  case Nil
  then show ?case using flush_groups [OF Nil.prems(1)] by simp
next
  case (Cons s ss)
  obtain action where a: "statement_action db dp s = Inr action" using statement_action_no_panic by blast
  obtain o1 pending' where b: "batch_step db dp limit s action pending = (o1, pending')" by fastforce
  obtain runs run' where g: "run @ [s] = concat runs @ run'" "list_all2 (result_for db dp) runs o1"
      "pending_of db dp run' pending'"
    using batch_step_groups [OF Cons.prems(1) a b] by blast
  obtain rest where r: "optimize_loop db dp limit ss pending' = Inr rest" "out = o1 @ rest"
    using Cons.prems(2) a b by (cases "optimize_loop db dp limit ss pending'") auto
  obtain runs' where "concat runs' = run' @ ss" "list_all2 (result_for db dp) runs' rest"
    using Cons.IH [OF g(3) r(1)] by blast
  moreover from this have "concat (runs @ runs') = run @ s # ss"
    using g(1) by (metis append.assoc append_Cons append_Nil concat_append)
  ultimately show ?case
    using list_all2_appendI [OF g(2)] r(2) by blast
qed

text \<open>
  C25. Preparing and batching the statements of a script never runs past the end of a text in the scan for an
  executable comment, and loses nothing. The script is cut into runs of neighbouring statements, one for each
  result, in order. The run of a skipped statement, or of one that is not a recognised insert, is that
  statement alone, and the result carries its prepared text. Any other run is of inserts with the same
  normalised prefix: the result is the insert itself when there is one, and otherwise one insert that carries
  the rows of each of them in order. The sources listed with the results are the prepared texts of the
  script's statements in order. A result stands for at most 500 statements, and a merged multi-row insert
  has at most 4 MiB. For MySQL-compatible targets nothing is merged.
\<close>

theorem import_batches_keep_every_statement:
  "\<exists>out runs. optimize_sql_file_import_statements statements db dp = Inr out \<and>
     concat runs = statements \<and> list_all2 (result_for db dp) runs out \<and>
     concat (map source_sqls out) = map (prepared_text db dp) statements \<and>
     (\<forall>s \<in> set out. source_statement_count s = length (source_sqls s) \<and> 1 \<le> source_statement_count s \<and>
        source_statement_count s \<le> 500 \<and>
        (source_statement_count s > 1 \<and> insert_batch_syntax_of db = MultiRowValues \<longrightarrow> byte_len (is_sql s) \<le> 4194304)) \<and>
     (\<not> merges_inserts db dp \<longrightarrow> length out = length statements)"
proof -
  obtain out where o: "optimize_loop db dp 500 statements None = Inr out"
      "concat (map source_sqls out) = map (prepared_text db dp) statements"
      "list_all (statement_ok 500 (insert_batch_syntax_of db)) out"
    using optimize_loop_ok [of 500 db None dp statements] by (auto simp: pending_ok_def pending_sources_def)
  obtain runs where g: "concat runs = statements" "list_all2 (result_for db dp) runs out"
    using optimize_loop_groups [OF _ o(1), of "[]"] by (auto simp: pending_of_def)
  have l: "length out = length statements" if "\<not> merges_inserts db dp"
    using optimize_loop_unmerged [OF that o(1)] .
  have max: "sql_file_insert_batch_max_bytes = 4194304" by (simp add: sql_file_insert_batch_max_bytes_def)
  have "\<forall>s \<in> set out. source_statement_count s = length (source_sqls s) \<and> 1 \<le> source_statement_count s \<and>
        source_statement_count s \<le> 500 \<and>
        (source_statement_count s > 1 \<and> insert_batch_syntax_of db = MultiRowValues \<longrightarrow> byte_len (is_sql s) \<le> 4194304)"
    using o(3) max by (auto simp: statement_ok_def list_all_iff)
  then show ?thesis
    using o(1,2) g l unfolding optimize_sql_file_import_statements_def sql_file_insert_batch_max_statements_def
    by blast
qed

text \<open>Two inserts into the same table and a skipped guard line, for PostgreSQL.\<close>

theorem import_batches_keep_every_statement_witness:
  "\<exists>out. optimize_sql_file_import_statements
       [''INSERT INTO t VALUES (1);'', ''insert into T values (2)'', CHR 92 # ''restrict k1''] (Some ''Postgres'') None = Inr out \<and>
     concat (map source_sqls out) =
       [''INSERT INTO t VALUES (1)'', ''insert into T values (2)'', CHR 92 # ''restrict k1'']"
proof -
  have "map (prepared_text (Some ''Postgres'') None)
      [''INSERT INTO t VALUES (1);'', ''insert into T values (2)'', CHR 92 # ''restrict k1''] =
      [''INSERT INTO t VALUES (1)'', ''insert into T values (2)'', CHR 92 # ''restrict k1'']"
    by code_simp
  then show ?thesis
    using import_batches_keep_every_statement
      [of "[''INSERT INTO t VALUES (1);'', ''insert into T values (2)'', CHR 92 # ''restrict k1'']" "Some ''Postgres''" None]
    by metis
qed

text \<open>
  An insert that ends in a line comment is merged all the same, and the comma that joins the rows lands
  in the comment: the merged statement lacks it, so an import that would succeed statement by statement fails.
\<close>

theorem trailing_comment_breaks_merged_insert:
  "optimize_sql_file_import_statements [''INSERT INTO t VALUES (1) -- a'', ''INSERT INTO t VALUES (2)''] (Some ''Postgres'') None =
     Inr [\<lparr>is_kind = ExecuteKind,
           is_sql = ''INSERT INTO t VALUES'' @ [CHR 10] @ ''(1) -- a,'' @ [CHR 10] @ ''(2)'',
           source_sqls = [''INSERT INTO t VALUES (1) -- a'', ''INSERT INTO t VALUES (2)''],
           source_statement_count = 2\<rparr>]"
proof -
  let ?s1 = "''INSERT INTO t VALUES (1) -- a''" and ?s2 = "''INSERT INTO t VALUES (2)''"
  let ?i1 = "\<lparr>mi_prefix = ''INSERT INTO t'', mi_prefix_key = ''insert into t'', mi_values = ''(1) -- a'', mi_sql = ?s1\<rparr>"
  let ?i2 = "\<lparr>mi_prefix = ''INSERT INTO t'', mi_prefix_key = ''insert into t'', mi_values = ''(2)'', mi_sql = ?s2\<rparr>"
  have a: "statement_action (Some ''Postgres'') None ?s1 = Inr (Execute ?s1)"
      "statement_action (Some ''Postgres'') None ?s2 = Inr (Execute ?s2)" by code_simp+
  have m: "mergeable (Some ''Postgres'') None ?s1 = Some ?i1" "mergeable (Some ''Postgres'') None ?s2 = Some ?i2"
    by code_simp+
  have syn: "insert_batch_syntax_of (Some ''Postgres'') = MultiRowValues" by code_simp
  have acc: "can_accept (new_batch ?i1 MultiRowValues) ?i2 500"
    by (simp add: can_accept_def new_batch_def byte_len_def is_ascii_code sql_file_insert_batch_max_bytes_def)
  have "flush_pending_insert (Some (push_insert (new_batch ?i1 MultiRowValues) ?i2)) =
      [\<lparr>is_kind = ExecuteKind,
        is_sql = ''INSERT INTO t VALUES'' @ [CHR 10] @ ''(1) -- a,'' @ [CHR 10] @ ''(2)'',
        source_sqls = [?s1, ?s2], source_statement_count = 2\<rparr>]" by code_simp
  then show ?thesis
    unfolding optimize_sql_file_import_statements_def sql_file_insert_batch_max_statements_def
    by (simp only: optimize_loop.simps a sum.case batch_step_def sql_file_statement_action.case m syn option.case
        if_P [OF acc] prod.case map_sum.simps append_Nil)
qed

end
