(* ===== verification/Search_Request.thy ===== *)
theory Search_Request
  imports Sql_Split
begin

text \<open>
  Requests to the HTTP consoles of Elasticsearch, CouchDB and Solr: the risk classes of
  \<^verbatim>\<open>crates/dbx-sql-core/src/query_execution_sql.rs\<close> (\<^verbatim>\<open>classify_search_engine_query_risk\<close> and the functions it
  calls), and the parsers with which the drivers read the same text before they send it
  (\<^verbatim>\<open>parse_elasticsearch_rest_request\<close>, \<^verbatim>\<open>parse_couchdb_rest_request\<close>, \<^verbatim>\<open>parse_solr_rest_request\<close>).

  The gate and the drivers read the request line differently: the gate takes the second word of the line
  for the path, the drivers take everything after the first word. The properties state when the two
  readings agree, and show requests where they, or the gate and HTTP itself, do not. \<^verbatim>\<open>Method::from_bytes\<close> is
  the identity on the five methods the drivers let through, and both its error and the check after it
  give the same message.
\<close>

section \<open>Comments and request lines\<close>

text \<open>The text after the first occurrence of a separator, or nothing.\<close>

definition text_after :: "string \<Rightarrow> string \<Rightarrow> string" where
  "text_after p s = (case split_once p s of None \<Rightarrow> [] | Some (_, remaining) \<Rightarrow> remaining)"

lemma split_once_length: "split_once p s = Some (a, b) \<Longrightarrow> length b \<le> length s"
proof (induction s arbitrary: a)
  case Nil
  then show ?case by (subst (asm) split_once.simps) (simp split: if_splits)
next
  case (Cons c s)
  from Cons.prems show ?case
    by (subst (asm) split_once.simps) (auto split: if_splits dest: Cons.IH intro: le_SucI)
qed

lemma length_text_after: "length (text_after p s) \<le> length s"
  unfolding text_after_def by (auto split: option.split dest: split_once_length)

lemma length_trim_start: "length (trim_start s) \<le> length s"
  by (simp add: trim_start_def length_dropWhile_le)

lemma shorter_after_comment:
  assumes "starts_with (c # cs) (trim_start s)" "0 < n"
  shows "length (text_after p (drop n (trim_start s))) < length s"
proof -
  from assms(1) have "trim_start s \<noteq> []" by auto
  then have "length (drop n (trim_start s)) < length (trim_start s)" using assms(2) by simp
  then show ?thesis using length_text_after [of p "drop n (trim_start s)"] length_trim_start [of s] by linarith
qed

function strip_leading_search_engine_comments :: "string \<Rightarrow> string" where
  "strip_leading_search_engine_comments input =
     (let rest = trim_start input in
      if starts_with ''#'' rest then strip_leading_search_engine_comments (text_after [CHR 10] (drop 1 rest))
      else if starts_with ''//'' rest then strip_leading_search_engine_comments (text_after [CHR 10] (drop 2 rest))
      else if starts_with ''/*'' rest then strip_leading_search_engine_comments (text_after ''*/'' (drop 2 rest))
      else trim rest)"
  by pat_completeness auto
termination by (relation "measure length") (simp_all add: shorter_after_comment)

declare strip_leading_search_engine_comments.simps [simp del]

definition search_request_target :: "string \<Rightarrow> (string \<times> string) option" where
  "search_request_target source =
     (case str_lines (strip_leading_search_engine_comments source) of
        [] \<Rightarrow> None
      | line # _ \<Rightarrow>
          (case split_whitespace (trim line) of
             method # path # _ \<Rightarrow> Some (to_ascii_uppercase method, path)
           | _ \<Rightarrow> None))"

text \<open>The path before the query, and its nonempty segments.\<close>

definition path_segments :: "string \<Rightarrow> string list" where
  "path_segments raw_path =
     filter (\<lambda>segment. segment \<noteq> [])
       (split_on (CHR ''/'') (trim_end_matches (CHR ''/'') (hd (split_on (CHR ''?'') raw_path))))"

section \<open>Risk classes\<close>

datatype search_engine_query_risk = SearchReadOnly | SearchWrite | SearchDangerous

definition has_segment :: "string list \<Rightarrow> string \<Rightarrow> bool" where
  "has_segment segments candidate = list_ex (\<lambda>segment. eq_ignore_ascii_case segment candidate) segments"

text \<open>Whether something follows the first segment of that name.\<close>

fun has_document_id :: "string list \<Rightarrow> string \<Rightarrow> bool" where
  "has_document_id [] candidate = False"
| "has_document_id (segment # segments) candidate =
     (if eq_ignore_ascii_case segment candidate then (case segments of [] \<Rightarrow> False | v # _ \<Rightarrow> v \<noteq> [])
      else has_document_id segments candidate)"

definition elasticsearch_read_endpoints :: "string list" where
  "elasticsearch_read_endpoints =
     [''_search'', ''_count'', ''_sql'', ''_msearch'', ''_field_caps'', ''_terms_enum'', ''_validate'', ''_explain'',
      ''_rank_eval'', ''_search_shards'']"

definition is_read_method :: "string \<Rightarrow> bool" where
  "is_read_method method \<longleftrightarrow> method = ''GET'' \<or> method = ''HEAD'' \<or> method = ''OPTIONS''"

definition elasticsearch_target_risk :: "string \<Rightarrow> string \<Rightarrow> search_engine_query_risk option" where
  "elasticsearch_target_risk method raw_path =
     (let segments = path_segments raw_path in
      if is_read_method method then Some SearchReadOnly
      else if method = ''POST'' \<and> list_ex (has_segment segments) elasticsearch_read_endpoints then Some SearchReadOnly
      else if method = ''POST'' \<and> list_ex (has_segment segments) [''_doc'', ''_create'', ''_update'', ''_bulk'']
      then Some SearchWrite
      else if method = ''PUT'' \<and> (has_document_id segments ''_doc'' \<or> has_document_id segments ''_create'')
      then Some SearchWrite
      else if method = ''DELETE'' \<and> has_document_id segments ''_doc'' then Some SearchWrite
      else if method = ''POST'' \<or> method = ''PUT'' \<or> method = ''PATCH'' \<or> method = ''DELETE'' then Some SearchDangerous
      else None)"

fun has_view_window :: "string list \<Rightarrow> bool" where
  "has_view_window (u # v # w # rest) =
     (eq_ignore_ascii_case u ''_design'' \<and> eq_ignore_ascii_case w ''_view'' \<or> has_view_window (v # w # rest))"
| "has_view_window segments = False"

definition couchdb_target_risk :: "string \<Rightarrow> string \<Rightarrow> search_engine_query_risk option" where
  "couchdb_target_risk method raw_path =
     (let segments = path_segments raw_path in
      if is_read_method method then Some SearchReadOnly
      else if method = ''POST'' \<and> segments \<noteq> [] \<and>
        list_ex (eq_ignore_ascii_case (last segments)) [''_find'', ''_explain'', ''_all_docs'', ''_bulk_get'']
      then Some SearchReadOnly
      else if method = ''POST'' \<and> has_view_window segments then Some SearchReadOnly
      else if method = ''DELETE'' \<and> length segments \<le> 1 then Some SearchDangerous
      else if method = ''DELETE'' then Some SearchWrite
      else if method = ''PUT'' \<and> length segments \<le> 1 then Some SearchDangerous
      else if method = ''PUT'' \<or> method = ''POST'' then Some SearchWrite
      else None)"

definition classify_couchdb_query_risk :: "string \<Rightarrow> search_engine_query_risk option" where
  "classify_couchdb_query_risk source =
     (case search_request_target source of None \<Rightarrow> None | Some (method, raw_path) \<Rightarrow> couchdb_target_risk method raw_path)"

subsection \<open>Solr\<close>

definition solr_read_only_post_endpoints :: "string list" where
  "solr_read_only_post_endpoints =
     [''select'', ''query'', ''get'', ''export'', ''terms'', ''suggest'', ''spell'', ''mlt'', ''sql'', ''graph'', ''clustering'',
      ''tvrh'', ''luke'', ''elevate'', ''browse'', ''debug'']"

text \<open>The text between the first and the second question mark, and the first parameter of that name in it.\<close>

definition second_piece :: "string \<Rightarrow> string option" where
  "second_piece raw_path = (case split_on (CHR ''?'') raw_path of _ # query # _ \<Rightarrow> Some query | _ \<Rightarrow> None)"

fun first_parameter :: "string \<Rightarrow> string list \<Rightarrow> string option" where
  "first_parameter name [] = None"
| "first_parameter name (param # params) =
     (case split_once ''='' param of
        Some (key, v) \<Rightarrow> if eq_ignore_ascii_case key name then Some v else first_parameter name params
      | None \<Rightarrow> first_parameter name params)"

fun has_admin_window :: "string list \<Rightarrow> bool" where
  "has_admin_window (u # v # rest) =
     (eq_ignore_ascii_case u ''admin'' \<and> to_ascii_lowercase v \<in> set [''cores'', ''collections''] \<or>
      has_admin_window (v # rest))"
| "has_admin_window segments = False"

definition solr_admin_request_is_mutation :: "string \<Rightarrow> string list \<Rightarrow> bool" where
  "solr_admin_request_is_mutation raw_path segments =
     (if \<not> has_admin_window segments then False
      else
        (case second_piece raw_path of
           None \<Rightarrow> False
         | Some query \<Rightarrow>
             (case first_parameter ''action'' (split_on (CHR ''&'') query) of
                None \<Rightarrow> False
              | Some action \<Rightarrow> to_ascii_uppercase action \<notin> set [''STATUS'', ''REQUESTSTATUS'', ''LIST''])))"

definition solr_read_only_commands :: "string list" where
  "solr_read_only_commands =
     [''details'', ''restorestatus'', ''filelist'', ''filecontent'', ''filedownload'', ''filemtime'', ''indexversion'',
      ''showversion'']"

definition solr_replication_request_is_mutation :: "string \<Rightarrow> string list \<Rightarrow> bool" where
  "solr_replication_request_is_mutation raw_path segments =
     (if \<not> (segments \<noteq> [] \<and> eq_ignore_ascii_case (last segments) ''replication'') then False
      else
        (case second_piece raw_path of
           None \<Rightarrow> False
         | Some query \<Rightarrow>
             (case first_parameter ''command'' (split_on (CHR ''&'') query) of
                None \<Rightarrow> False
              | Some command \<Rightarrow> \<not> list_ex (\<lambda>readonly. eq_ignore_ascii_case readonly command) solr_read_only_commands)))"

definition solr_target_risk :: "string \<Rightarrow> string \<Rightarrow> search_engine_query_risk option" where
  "solr_target_risk method raw_path =
     (let all_segments = path_segments raw_path;
          segments = (if all_segments \<noteq> [] \<and> eq_ignore_ascii_case (hd all_segments) ''solr'' then tl all_segments
                      else all_segments);
          endpoint = (if segments = [] then [] else last segments);
          is_update_path = list_ex (\<lambda>segment. starts_with ''update'' segment \<or> segment = ''commit'') segments
      in
        if is_update_path then Some SearchWrite
        else if is_read_method method then
          (if solr_admin_request_is_mutation raw_path segments \<or> solr_replication_request_is_mutation raw_path segments
           then Some SearchDangerous else Some SearchReadOnly)
        else if method = ''POST'' \<and> endpoint \<in> set solr_read_only_post_endpoints then Some SearchReadOnly
        else if method = ''POST'' \<or> method = ''PUT'' \<or> method = ''PATCH'' \<or> method = ''DELETE'' then Some SearchDangerous
        else None)"

definition classify_solr_query_risk :: "string \<Rightarrow> search_engine_query_risk option" where
  "classify_solr_query_risk source =
     (case search_request_target source of None \<Rightarrow> None | Some (method, raw_path) \<Rightarrow> solr_target_risk method raw_path)"

definition classify_search_engine_query_risk :: "string \<Rightarrow> database_type \<Rightarrow> search_engine_query_risk option" where
  "classify_search_engine_query_risk source db =
     (if db = ''CouchDb'' then classify_couchdb_query_risk source
      else if db = ''Solr'' then classify_solr_query_risk source
      else if db \<noteq> ''Elasticsearch'' \<and> db \<noteq> ''Easysearch'' then None
      else
        (case search_request_target source of
           None \<Rightarrow> None
         | Some (method, path) \<Rightarrow> elasticsearch_target_risk method path))"

section \<open>The parsers of the drivers\<close>

record rest_request =
  rest_method :: string
  rest_path :: string
  rest_body :: "string option"

definition split_once_whitespace :: "string \<Rightarrow> (string \<times> string) option" where
  "split_once_whitespace s =
     (case dropWhile (\<lambda>c. \<not> is_whitespace c) s of
        [] \<Rightarrow> None
      | _ # rest \<Rightarrow> Some (takeWhile (\<lambda>c. \<not> is_whitespace c) s, rest))"

definition driver_methods :: "string list" where
  "driver_methods = [''GET'', ''POST'', ''PUT'', ''DELETE'', ''HEAD'']"

definition invalid_rest_query :: string where
  "invalid_rest_query = ''Invalid query: expected METHOD /path''"

definition unsupported_http_method :: "string \<Rightarrow> string" where
  "unsupported_http_method method = ''Unsupported HTTP method: '' @ method @ ''. Use GET, POST, PUT, DELETE, or HEAD.''"

text \<open>The common part of the three parsers: request line, body, method, and a path that starts with a slash.\<close>

definition request_line_and_body :: "string \<Rightarrow> string \<times> string option" where
  "request_line_and_body input =
     (case split_once [CHR 10] input of
        None \<Rightarrow> (input, None)
      | Some (line, body) \<Rightarrow> (line, if trim body \<noteq> [] then Some (trim body) else None))"

definition parse_rest_request :: "string \<Rightarrow> rest_request rust_result" where
  "parse_rest_request input =
     (if input = [] then Inl invalid_rest_query
      else
        (case request_line_and_body input of
           (line, body) \<Rightarrow>
             (case split_once_whitespace (trim line) of
                None \<Rightarrow> Inl invalid_rest_query
              | Some (m, p) \<Rightarrow>
                  (let method = to_ascii_uppercase m; path = trim p in
                   if method \<notin> set driver_methods then Inl (unsupported_http_method method)
                   else if path = [] then Inl invalid_rest_query
                   else Inr \<lparr>rest_method = method,
                             rest_path = (if starts_with ''/'' path then path else CHR ''/'' # path),
                             rest_body = body\<rparr>))))"

definition strip_leading_couchdb_comments :: "string \<Rightarrow> string" where
  "strip_leading_couchdb_comments = strip_leading_search_engine_comments"

definition parse_couchdb_rest_request :: "string \<Rightarrow> rest_request rust_result" where
  "parse_couchdb_rest_request input = parse_rest_request (strip_leading_couchdb_comments input)"

definition strip_leading_solr_comments :: "string \<Rightarrow> string" where
  "strip_leading_solr_comments = strip_leading_search_engine_comments"

definition solr_request_path :: "string \<Rightarrow> string" where
  "solr_request_path path =
     (let base = (if path = ''/solr'' then ''/'' else if starts_with ''/solr/'' path then CHR ''/'' # drop 6 path else path);
          has_wt = (case second_piece base of
                      None \<Rightarrow> False
                    | Some query \<Rightarrow> list_ex (\<lambda>p. hd (split_on (CHR ''='') p) = ''wt'') (split_on (CHR ''&'') query))
      in if has_wt then base else base @ [if CHR ''?'' \<in> set base then CHR ''&'' else CHR ''?''] @ ''wt=json'')"

definition parse_solr_rest_request :: "string \<Rightarrow> rest_request rust_result" where
  "parse_solr_rest_request input =
     (case parse_rest_request (strip_leading_solr_comments input) of
        Inl e \<Rightarrow> Inl e
      | Inr r \<Rightarrow> Inr (r\<lparr>rest_path := solr_request_path (rest_path r)\<rparr>))"

subsection \<open>Elasticsearch\<close>

definition date_math_encoding :: "char \<Rightarrow> string" where
  "date_math_encoding c =
     (if c = CHR ''<'' then ''%3C'' else if c = CHR ''>'' then ''%3E'' else if c = CHR ''/'' then ''%2F''
      else if c = CHR ''{'' then ''%7B'' else if c = CHR ''}'' then ''%7D'' else if c = CHR ''|'' then ''%7C''
      else if c = CHR ''+'' then ''%2B'' else if c = CHR '':'' then ''%3A'' else if c = CHR '','' then ''%2C''
      else [c])"

function normalize_path_loop :: "bool \<Rightarrow> string \<Rightarrow> string" where
  "normalize_path_loop in_date_math [] = []"
| "normalize_path_loop in_date_math (c # cs) =
     (if c = CHR ''%'' \<and> 2 \<le> length cs \<and> list_all is_ascii_hexdigit (take 2 cs)
      then c # take 2 cs @ normalize_path_loop in_date_math (drop 2 cs)
      else
        (let inside = in_date_math \<or> c = CHR ''<'' in
         (if inside then date_math_encoding c else [c]) @ normalize_path_loop (inside \<and> c \<noteq> CHR ''>'') cs))"
  by pat_completeness auto
termination by (relation "measure (length \<circ> snd)") auto

definition normalize_elasticsearch_rest_path :: "string \<Rightarrow> string" where
  "normalize_elasticsearch_rest_path path =
     (case split_once ''?'' path of
        None \<Rightarrow> normalize_path_loop False path
      | Some (path_part, query) \<Rightarrow> normalize_path_loop False path_part @ CHR ''?'' # query)"

datatype elasticsearch_rest_body_kind = JsonBody | NdjsonBody

definition is_elasticsearch_ndjson_path :: "string \<Rightarrow> bool" where
  "is_elasticsearch_ndjson_path raw_path =
     (let path = trim_end_matches (CHR ''/'') (hd (split_on (CHR ''?'') raw_path)) in
      path = ''/_bulk'' \<or> ends_with ''/_bulk'' path \<or> path = ''/_msearch'' \<or> ends_with ''/_msearch'' path \<or>
      path = ''/_msearch/template'' \<or> ends_with ''/_msearch/template'' path)"

record elasticsearch_rest_request = rest_request +
  rest_body_kind :: elasticsearch_rest_body_kind

definition strip_leading_elasticsearch_comments :: "string \<Rightarrow> string" where
  "strip_leading_elasticsearch_comments = strip_leading_search_engine_comments"

definition parse_elasticsearch_rest_request :: "string \<Rightarrow> elasticsearch_rest_request rust_result" where
  "parse_elasticsearch_rest_request input =
     (case parse_rest_request (strip_leading_elasticsearch_comments input) of
        Inl e \<Rightarrow> Inl e
      | Inr r \<Rightarrow>
          (let path = normalize_elasticsearch_rest_path (rest_path r) in
           Inr \<lparr>rest_method = rest_method r, rest_path = path, rest_body = rest_body r,
                rest_body_kind = (if is_elasticsearch_ndjson_path path then NdjsonBody else JsonBody)\<rparr>))"

section \<open>Lemmas\<close>

lemma split_on_split_once:
  "split_on d s = (case split_once [d] s of None \<Rightarrow> [s] | Some (a, b) \<Rightarrow> a # split_on d b)"
proof (induction s)
  case Nil
  then show ?case by (simp add: split_once.simps)
next
  case (Cons c s)
  show ?case
  proof (cases "c = d")
    case True
    then show ?thesis by (simp add: split_once.simps [of _ "d # s"])
  next
    case False
    then show ?thesis using Cons.IH by (cases "split_once [d] s") (auto simp: split_once.simps [of _ "c # s"])
  qed
qed

lemma trim_end_snoc: "is_whitespace c \<Longrightarrow> trim_end (s @ [c]) = trim_end s"
  by (simp add: trim_end_def)

lemma trim_snoc:
  assumes "is_whitespace c"
  shows "trim (s @ [c]) = trim s"
proof (cases "list_all is_whitespace s")
  case True
  then have "trim (s @ [c]) = []" "trim s = []" using assms by (simp_all add: trim_Nil_iff)
  then show ?thesis by simp
next
  case False
  then have "trim_start (s @ [c]) = trim_start s @ [c]"
    unfolding trim_start_def by (auto simp: dropWhile_append1 list_all_iff)
  then show ?thesis unfolding trim_def by (simp add: trim_end_snoc assms)
qed

lemma trim_strip_cr: "trim (strip_cr s) = trim s"
proof (cases "s \<noteq> [] \<and> last s = CHR 13")
  case True
  have "is_whitespace (CHR 13)" by (simp add: is_whitespace_def char_code_def)
  from trim_snoc [OF this, of "butlast s"] have "trim (butlast s @ [last s]) = trim (butlast s)" using True by simp
  then show ?thesis using True unfolding append_butlast_last_id [OF conjunct1 [OF True]] by (simp add: strip_cr_def)
qed (auto simp: strip_cr_def)

text \<open>The gate and the drivers cut off the same request line.\<close>

lemma first_line:
  assumes "s \<noteq> []"
  obtains line rest where "str_lines s = line # rest" "trim line = trim (fst (request_line_and_body s))"
proof (cases "split_once [CHR 10] s")
  case None
  then have "split_on (CHR 10) s = [s]" by (subst split_on_split_once) simp
  then have "str_lines s = [s]" using assms by (simp add: str_lines_def)
  then show ?thesis using that None by (simp add: request_line_and_body_def)
next
  case (Some ab)
  obtain a b where ab: "ab = (a, b)" by (cases ab)
  have "split_on (CHR 10) s = a # split_on (CHR 10) b" using Some ab by (subst split_on_split_once) simp
  then have "str_lines s = strip_cr a # tl (str_lines s)" by (simp add: str_lines_def)
  then show ?thesis using that [of "strip_cr a" "tl (str_lines s)"] Some ab by (simp add: request_line_and_body_def trim_strip_cr)
qed

lemma split_pred_not_Nil [simp]: "split_pred P s \<noteq> []"
  by (induction s) (auto split: list.split)

lemma split_pred_append:
  "list_all (\<lambda>c. \<not> P c) a \<Longrightarrow> split_pred P (a @ b) = (a @ hd (split_pred P b)) # tl (split_pred P b)"
  by (induction a) (auto split: list.split)

lemma split_pred_none: "list_all (\<lambda>c. \<not> P c) a \<Longrightarrow> split_pred P a = [a]"
  using split_pred_append [of P a "[]"] by simp

lemma split_whitespace_start: "split_whitespace (trim_start s) = split_whitespace s"
  unfolding trim_start_def by (induction s) (simp_all add: split_whitespace_def)

lemma split_pred_snoc:
  "split_pred P (s @ [c]) = (if P c then split_pred P s @ [[]] else butlast (split_pred P s) @ [last (split_pred P s) @ [c]])"
proof (induction s)
  case (Cons d s)
  obtain p ps where split: "split_pred P s = p # ps" by (cases "split_pred P s") auto
  show ?case using Cons.IH by (auto simp: split)
qed simp

lemma split_whitespace_end: "split_whitespace (trim_end s) = split_whitespace s"
proof (induction s rule: rev_induct)
  case (snoc c s)
  show ?case
  proof (cases "is_whitespace c")
    case True
    then show ?thesis using snoc by (simp add: trim_end_snoc split_whitespace_def split_pred_snoc)
  qed (simp add: trim_end_def)
qed (simp add: trim_end_def)

lemma split_whitespace_trim: "split_whitespace (trim s) = split_whitespace s"
  by (simp add: trim_def split_whitespace_end split_whitespace_start)

lemma split_whitespace_once:
  assumes "split_once_whitespace s = Some (m, p)" "s = [] \<or> \<not> is_whitespace (hd s)"
  shows "split_whitespace s = m # split_whitespace p"
proof -
  let ?nws = "\<lambda>c. \<not> is_whitespace c"
  obtain c where drop: "dropWhile ?nws s = c # p" and m: "m = takeWhile ?nws s"
    using assms(1) by (auto simp: split_once_whitespace_def split: list.splits)
  have c: "is_whitespace c" using hd_dropWhile [of ?nws s] drop by simp
  have s: "s = m @ c # p" using takeWhile_dropWhile_id [of ?nws s] drop m by simp
  have all: "list_all ?nws m" unfolding m by (auto simp: list_all_iff dest: set_takeWhileD)
  have "s \<noteq> []" using drop by auto
  then have "m \<noteq> []" using assms(2) m by (cases s) auto
  then show ?thesis unfolding s by (simp add: split_whitespace_def split_pred_append [OF all] c)
qed

lemma split_whitespace_word: "s \<noteq> [] \<Longrightarrow> list_all (\<lambda>c. \<not> is_whitespace c) s \<Longrightarrow> split_whitespace s = [s]"
  by (simp add: split_whitespace_def split_pred_none)

text \<open>The gate's reading of a request the drivers accept, when the path has no blank in it.\<close>

lemma parse_rest_requestD:
  assumes "parse_rest_request input = Inr r"
  obtains m p where "input \<noteq> []" "split_once_whitespace (trim (fst (request_line_and_body input))) = Some (m, p)"
    "rest_method r = to_ascii_uppercase m" "trim p \<noteq> []"
    "rest_path r = (if starts_with ''/'' (trim p) then trim p else CHR ''/'' # trim p)"
    "rest_method r \<in> set driver_methods"
proof -
  obtain line body where lb: "request_line_and_body input = (line, body)" by (cases "request_line_and_body input")
  have input: "input \<noteq> []" using assms by (auto simp: parse_rest_request_def)
  obtain m p where once: "split_once_whitespace (trim line) = Some (m, p)"
    using assms input by (cases "split_once_whitespace (trim line)") (auto simp: parse_rest_request_def lb)
  have "to_ascii_uppercase m \<in> set driver_methods \<and> trim p \<noteq> [] \<and>
      r = \<lparr>rest_method = to_ascii_uppercase m,
           rest_path = (if starts_with ''/'' (trim p) then trim p else CHR ''/'' # trim p), rest_body = body\<rparr>"
    using assms input by (simp add: parse_rest_request_def lb once Let_def split: if_split_asm)
  then show ?thesis using that [of m p] input once lb by simp
qed

lemma search_request_target_of_driver:
  assumes "parse_rest_request (strip_leading_search_engine_comments source) = Inr r"
    and "list_all (\<lambda>c. \<not> is_whitespace c) (rest_path r)"
  obtains p where "search_request_target source = Some (rest_method r, p)" "rest_path r = p \<or> rest_path r = CHR ''/'' # p"
proof -
  let ?input = "strip_leading_search_engine_comments source"
  from assms(1) obtain m p where input: "?input \<noteq> []"
    and once: "split_once_whitespace (trim (fst (request_line_and_body ?input))) = Some (m, p)"
    and meth: "rest_method r = to_ascii_uppercase m" and p: "trim p \<noteq> []"
    and path: "rest_path r = (if starts_with ''/'' (trim p) then trim p else CHR ''/'' # trim p)"
    by (rule parse_rest_requestD)
  obtain line rest where lines: "str_lines ?input = line # rest"
    and line: "trim line = trim (fst (request_line_and_body ?input))" using first_line [OF input] .
  have "list_all (\<lambda>c. \<not> is_whitespace c) (trim p)" using assms(2) path by (auto split: if_splits)
  then have "split_whitespace p = [trim p]" using split_whitespace_word [OF p] split_whitespace_trim by metis
  then have "split_whitespace (trim line) = [m, trim p]"
    using split_whitespace_once [OF once hd_trim] unfolding line by simp
  then have "search_request_target source = Some (rest_method r, trim p)"
    by (simp add: search_request_target_def lines meth)
  then show ?thesis using that path by auto
qed

lemma hd_split_on_Cons: "c \<noteq> d \<Longrightarrow> hd (split_on d (c # s)) = c # hd (split_on d s)"
  by (auto split: list.split simp: neq_Nil_conv)

lemma trim_end_matches_Cons: "trim_end_matches d (c # s) =
    (if trim_end_matches d s = [] \<and> c = d then [] else c # trim_end_matches d s)"
  unfolding trim_end_matches_def by (auto simp: dropWhile_append)

lemma path_segments_slash: "path_segments (CHR ''/'' # p) = path_segments p"
proof -
  let ?q = "hd (split_on (CHR ''?'') p)"
  have "path_segments (CHR ''/'' # p) =
      filter (\<lambda>segment. segment \<noteq> []) (split_on (CHR ''/'') (trim_end_matches (CHR ''/'') (CHR ''/'' # ?q)))"
    unfolding path_segments_def by (subst hd_split_on_Cons) simp_all
  also have "\<dots> = path_segments p"
    unfolding path_segments_def trim_end_matches_Cons by (cases "trim_end_matches (CHR ''/'') ?q = []") simp_all
  finally show ?thesis .
qed

lemma second_piece_slash: "second_piece (CHR ''/'' # p) = second_piece p"
proof -
  obtain x xs where split: "split_on (CHR ''?'') p = x # xs" by (cases "split_on (CHR ''?'') p") auto
  then have "split_on (CHR ''?'') (CHR ''/'' # p) = (CHR ''/'' # x) # xs" by simp
  then show ?thesis using split by (simp add: second_piece_def)
qed

lemma target_risk_slash:
  "couchdb_target_risk m (CHR ''/'' # p) = couchdb_target_risk m p"
  "elasticsearch_target_risk m (CHR ''/'' # p) = elasticsearch_target_risk m p"
  "solr_target_risk m (CHR ''/'' # p) = solr_target_risk m p"
proof -
  show "couchdb_target_risk m (CHR ''/'' # p) = couchdb_target_risk m p"
    "elasticsearch_target_risk m (CHR ''/'' # p) = elasticsearch_target_risk m p"
    by (simp_all add: couchdb_target_risk_def elasticsearch_target_risk_def path_segments_slash)
  have "solr_admin_request_is_mutation (CHR ''/'' # p) = solr_admin_request_is_mutation p"
    "solr_replication_request_is_mutation (CHR ''/'' # p) = solr_replication_request_is_mutation p"
    by (simp_all add: fun_eq_iff solr_admin_request_is_mutation_def solr_replication_request_is_mutation_def second_piece_slash)
  then show "solr_target_risk m (CHR ''/'' # p) = solr_target_risk m p"
    unfolding solr_target_risk_def path_segments_slash by (simp only:)
qed

lemma target_risk_known:
  assumes "m \<in> set driver_methods"
  shows "couchdb_target_risk m p \<noteq> None" "elasticsearch_target_risk m p \<noteq> None" "solr_target_risk m p \<noteq> None"
proof -
  have m: "is_read_method m \<or> m = ''POST'' \<or> m = ''PUT'' \<or> m = ''DELETE''"
    using assms unfolding driver_methods_def is_read_method_def by (simp only: list.set insert_iff empty_iff) blast
  have chain: "((if a then u else v) \<noteq> None) = (if a then u \<noteq> None else v \<noteq> None)"
    for a and u v :: "search_engine_query_risk option" by simp
  have some: "(Some u \<noteq> None) = True" for u :: search_engine_query_risk by simp
  show "couchdb_target_risk m p \<noteq> None"
    unfolding couchdb_target_risk_def Let_def chain some using m by argo
  show "elasticsearch_target_risk m p \<noteq> None"
    unfolding elasticsearch_target_risk_def Let_def chain some using m by argo
  show "solr_target_risk m p \<noteq> None"
    unfolding solr_target_risk_def Let_def chain some using m by argo
qed

lemma normalize_path_loop_id: "CHR ''<'' \<notin> set s \<Longrightarrow> normalize_path_loop False s = s"
proof (induction s rule: length_induct)
  case (1 s)
  show ?case
  proof (cases s)
    case (Cons c cs)
    have "CHR ''<'' \<notin> set (drop 2 cs)" using 1(2) Cons by (auto dest: in_set_dropD)
    then have "normalize_path_loop False (drop 2 cs) = drop 2 cs" "normalize_path_loop False cs = cs"
      using 1 Cons by simp_all
    moreover have "c \<noteq> CHR ''<''" using 1(2) Cons by auto
    ultimately show ?thesis unfolding Cons normalize_path_loop.simps by (auto simp: Let_def)
  qed simp
qed

lemma split_once_append: "split_once p s = Some (a, b) \<Longrightarrow> s = a @ p @ b"
proof (induction s arbitrary: a)
  case Nil
  then show ?case by (subst (asm) split_once.simps) (auto simp: starts_with_iff split: if_splits)
next
  case (Cons c s)
  from Cons.prems show ?case
    by (subst (asm) split_once.simps) (auto simp: starts_with_iff split: if_splits dest: Cons.IH)
qed

text \<open>A path that was not rewritten is one whose encoded form has no \<^verbatim>\<open>%3C\<close>.\<close>

lemma str_contains_append: "str_contains p t \<Longrightarrow> str_contains p (a @ t)"
  unfolding str_contains_iff by (metis append.assoc)

lemma str_contains_append_left: "str_contains p t \<Longrightarrow> str_contains p (t @ b)"
  unfolding str_contains_iff by (metis append.assoc)

lemma date_math_is_encoded: "CHR ''<'' \<in> set s \<Longrightarrow> str_contains ''%3C'' (normalize_path_loop d s)"
proof (induction d s rule: normalize_path_loop.induct)
  case (2 d c cs)
  show ?case
  proof (cases "c = CHR ''%'' \<and> 2 \<le> length cs \<and> list_all is_ascii_hexdigit (take 2 cs)")
    case True
    have "CHR ''<'' \<notin> set (take 2 cs)"
    proof
      assume "CHR ''<'' \<in> set (take 2 cs)"
      then have "is_ascii_hexdigit (CHR ''<'')" using True by (auto simp: list_all_iff)
      then show False by (simp add: is_ascii_hexdigit_def is_ascii_digit_def char_code_def)
    qed
    moreover have "set cs = set (take 2 cs) \<union> set (drop 2 cs)" by (metis append_take_drop_id set_append)
    ultimately have "CHR ''<'' \<in> set (drop 2 cs)" using 2(3) True by auto
    then have "str_contains ''%3C'' (normalize_path_loop d (drop 2 cs))" by (rule 2(1) [OF True])
    then show ?thesis using True str_contains_append [of _ _ "c # take 2 cs"] by simp
  next
    case False
    show ?thesis
    proof (cases "c = CHR ''<''")
      case True
      then show ?thesis using False by (auto simp: Let_def date_math_encoding_def str_contains_iff intro: exI [of _ "[]"])
    next
      case c: False
      then have "CHR ''<'' \<in> set cs" using 2(3) by simp
      from 2(2) [OF False refl this] show ?thesis
        unfolding normalize_path_loop.simps if_not_P [OF False] Let_def by (rule str_contains_append)
    qed
  qed
qed simp

lemma normalize_elasticsearch_rest_path_id:
  assumes "\<not> str_contains ''%3C'' (normalize_elasticsearch_rest_path path)"
  shows "normalize_elasticsearch_rest_path path = path"
proof (cases "split_once ''?'' path")
  case None
  then have "CHR ''<'' \<notin> set path"
    using assms date_math_is_encoded [of path False] by (auto simp: normalize_elasticsearch_rest_path_def)
  then show ?thesis using None by (simp add: normalize_elasticsearch_rest_path_def normalize_path_loop_id)
next
  case (Some ab)
  obtain a b where ab: "ab = (a, b)" by (cases ab)
  then have path: "path = a @ ''?'' @ b" using split_once_append [of "''?''" path a b] Some by simp
  have "\<not> str_contains ''%3C'' (normalize_path_loop False a)"
    using assms Some ab str_contains_append_left by (auto simp: normalize_elasticsearch_rest_path_def)
  then have "normalize_path_loop False a = a" using normalize_path_loop_id date_math_is_encoded by blast
  then show ?thesis using Some ab path by (simp add: normalize_elasticsearch_rest_path_def)
qed

text \<open>The drivers.\<close>

lemma couchdb_gate_and_driver:
  assumes r: "parse_couchdb_rest_request source = Inr r" and blank: "list_all (\<lambda>c. \<not> is_whitespace c) (rest_path r)"
  shows "classify_search_engine_query_risk source ''CouchDb'' = couchdb_target_risk (rest_method r) (rest_path r)"
    and "classify_search_engine_query_risk source ''CouchDb'' \<noteq> None"
proof -
  have parsed: "parse_rest_request (strip_leading_search_engine_comments source) = Inr r"
    using r by (simp add: parse_couchdb_rest_request_def strip_leading_couchdb_comments_def)
  obtain p where "search_request_target source = Some (rest_method r, p)" "rest_path r = p \<or> rest_path r = CHR ''/'' # p"
    using search_request_target_of_driver [OF parsed blank] .
  then show risk: "classify_search_engine_query_risk source ''CouchDb'' = couchdb_target_risk (rest_method r) (rest_path r)"
    by (auto simp: classify_search_engine_query_risk_def classify_couchdb_query_risk_def target_risk_slash)
  from parsed have "rest_method r \<in> set driver_methods" by (rule parse_rest_requestD)
  then show "classify_search_engine_query_risk source ''CouchDb'' \<noteq> None" unfolding risk by (rule target_risk_known)
qed

lemma elasticsearch_gate_and_driver:
  assumes q: "parse_elasticsearch_rest_request source = Inr q" and blank: "list_all (\<lambda>c. \<not> is_whitespace c) (rest_path q)"
    and encoded: "\<not> str_contains ''%3C'' (rest_path q)"
  shows "classify_search_engine_query_risk source ''Elasticsearch'' = elasticsearch_target_risk (rest_method q) (rest_path q)"
    and "classify_search_engine_query_risk source ''Elasticsearch'' \<noteq> None"
proof -
  obtain r where parsed: "parse_rest_request (strip_leading_search_engine_comments source) = Inr r"
    and path: "rest_path q = normalize_elasticsearch_rest_path (rest_path r)" and meth: "rest_method q = rest_method r"
    using q by (auto simp: parse_elasticsearch_rest_request_def strip_leading_elasticsearch_comments_def Let_def split: sum.splits)
  have same: "rest_path q = rest_path r" using encoded unfolding path by (rule normalize_elasticsearch_rest_path_id)
  have "list_all (\<lambda>c. \<not> is_whitespace c) (rest_path r)" using blank unfolding same .
  then obtain p where "search_request_target source = Some (rest_method r, p)" "rest_path r = p \<or> rest_path r = CHR ''/'' # p"
    using search_request_target_of_driver [OF parsed] by metis
  then show risk: "classify_search_engine_query_risk source ''Elasticsearch'' = elasticsearch_target_risk (rest_method q) (rest_path q)"
    unfolding same meth by (auto simp: classify_search_engine_query_risk_def target_risk_slash)
  from parsed have "rest_method r \<in> set driver_methods" by (rule parse_rest_requestD)
  then show "classify_search_engine_query_risk source ''Elasticsearch'' \<noteq> None" unfolding risk meth by (rule target_risk_known)
qed

lemma solr_request_path_blank:
  assumes "list_all (\<lambda>c. \<not> is_whitespace c) (solr_request_path path)"
  shows "list_all (\<lambda>c. \<not> is_whitespace c) path"
proof -
  define base where
    "base = (if path = ''/solr'' then ''/'' else if starts_with ''/solr/'' path then CHR ''/'' # drop 6 path else path)"
  have "list_all (\<lambda>c. \<not> is_whitespace c) base"
    using assms by (simp add: solr_request_path_def base_def [symmetric] Let_def split: if_split_asm)
  moreover have "list_all (\<lambda>c. \<not> is_whitespace c) ''/solr/''" "list_all (\<lambda>c. \<not> is_whitespace c) ''/solr''" by code_simp+
  ultimately show ?thesis
  proof (cases "starts_with ''/solr/'' path")
    case True
    then obtain rest where "path = ''/solr/'' @ rest" by (auto simp: starts_with_iff)
    then show ?thesis
      using \<open>list_all _ base\<close> \<open>list_all _ ''/solr/''\<close> by (simp add: base_def)
  qed (auto simp: base_def split: if_splits)
qed

lemma solr_gate_and_driver:
  assumes t: "parse_solr_rest_request source = Inr t" and blank: "list_all (\<lambda>c. \<not> is_whitespace c) (rest_path t)"
  shows "\<exists>path. rest_path t = solr_request_path path \<and>
     classify_search_engine_query_risk source ''Solr'' = solr_target_risk (rest_method t) path \<and>
     classify_search_engine_query_risk source ''Solr'' \<noteq> None"
proof -
  obtain r where parsed: "parse_rest_request (strip_leading_search_engine_comments source) = Inr r"
    and path: "rest_path t = solr_request_path (rest_path r)" and meth: "rest_method t = rest_method r"
    using t by (auto simp: parse_solr_rest_request_def strip_leading_solr_comments_def split: sum.splits)
  have "list_all (\<lambda>c. \<not> is_whitespace c) (rest_path r)" using blank unfolding path by (rule solr_request_path_blank)
  then obtain p where "search_request_target source = Some (rest_method r, p)" "rest_path r = p \<or> rest_path r = CHR ''/'' # p"
    using search_request_target_of_driver [OF parsed] by metis
  then have risk: "classify_search_engine_query_risk source ''Solr'' = solr_target_risk (rest_method t) (rest_path r)"
    unfolding meth by (auto simp: classify_search_engine_query_risk_def classify_solr_query_risk_def target_risk_slash)
  from parsed have "rest_method r \<in> set driver_methods" by (rule parse_rest_requestD)
  then have "classify_search_engine_query_risk source ''Solr'' \<noteq> None" unfolding risk meth by (rule target_risk_known)
  then show ?thesis using path risk by blast
qed

section \<open>Properties\<close>

text \<open>
  C22. A request that the CouchDB, the Elasticsearch or the Solr driver accepts, whose path has no blank in it,
  gets a risk class, and it is the class of exactly the method and path that the driver parses from the same
  text. Comments before the request, the case of the method, a missing leading slash and the line ending make
  no difference. For Elasticsearch, paths with a date expression in angle brackets, which the driver encodes
  with \<^verbatim>\<open>%3C\<close>, are left aside. For Solr the class is that of the path before the driver cuts off a leading
  \<^verbatim>\<open>/solr\<close> and adds the parameter \<^verbatim>\<open>wt=json\<close>.
\<close>

theorem gate_classifies_the_request_that_is_sent:
  "(parse_couchdb_rest_request source = Inr r \<and> list_all (\<lambda>c. \<not> is_whitespace c) (rest_path r) \<longrightarrow>
      classify_search_engine_query_risk source ''CouchDb'' = couchdb_target_risk (rest_method r) (rest_path r) \<and>
      classify_search_engine_query_risk source ''CouchDb'' \<noteq> None) \<and>
   (parse_elasticsearch_rest_request source = Inr q \<and> list_all (\<lambda>c. \<not> is_whitespace c) (rest_path q) \<and>
      \<not> str_contains ''%3C'' (rest_path q) \<longrightarrow>
      classify_search_engine_query_risk source ''Elasticsearch'' = elasticsearch_target_risk (rest_method q) (rest_path q) \<and>
      classify_search_engine_query_risk source ''Elasticsearch'' \<noteq> None) \<and>
   (parse_solr_rest_request source = Inr t \<and> list_all (\<lambda>c. \<not> is_whitespace c) (rest_path t) \<longrightarrow>
      (\<exists>path. rest_path t = solr_request_path path \<and>
         classify_search_engine_query_risk source ''Solr'' = solr_target_risk (rest_method t) path \<and>
         classify_search_engine_query_risk source ''Solr'' \<noteq> None))"
  using couchdb_gate_and_driver [of source r] elasticsearch_gate_and_driver [of source q] solr_gate_and_driver [of source t]
  by blast

theorem gate_classifies_the_request_that_is_sent_witness:
  "classify_search_engine_query_risk (''# note'' @ CHR 10 # ''delete users/1'') ''CouchDb'' = Some SearchWrite \<and>
   classify_search_engine_query_risk ''POST users/_search'' ''Elasticsearch'' = Some SearchReadOnly"
proof
  let ?couch = "\<lparr>rest_method = ''DELETE'', rest_path = ''/users/1'', rest_body = None\<rparr>"
  let ?es = "\<lparr>rest_method = ''POST'', rest_path = ''/users/_search'', rest_body = None, rest_body_kind = JsonBody\<rparr>"
  have couch: "parse_couchdb_rest_request (''# note'' @ CHR 10 # ''delete users/1'') = Inr ?couch" by code_simp
  have es: "parse_elasticsearch_rest_request ''POST users/_search'' = Inr ?es" by code_simp
  have blank: "list_all (\<lambda>c. \<not> is_whitespace c) ''/users/1''" "list_all (\<lambda>c. \<not> is_whitespace c) ''/users/_search''"
    "\<not> str_contains ''%3C'' ''/users/_search''" by code_simp+
  have risk: "couchdb_target_risk ''DELETE'' ''/users/1'' = Some SearchWrite"
    "elasticsearch_target_risk ''POST'' ''/users/_search'' = Some SearchReadOnly" by code_simp+
  show "classify_search_engine_query_risk (''# note'' @ CHR 10 # ''delete users/1'') ''CouchDb'' = Some SearchWrite"
    using conjunct1 [OF gate_classifies_the_request_that_is_sent [of "''# note'' @ CHR 10 # ''delete users/1''" ?couch]]
      couch blank risk by simp
  show "classify_search_engine_query_risk ''POST users/_search'' ''Elasticsearch'' = Some SearchReadOnly"
    using conjunct1 [OF conjunct2 [OF gate_classifies_the_request_that_is_sent [of "''POST users/_search''" _ ?es]]]
      es blank risk by simp
qed

text \<open>
  Requests that change data and pass for reads: an Elasticsearch update of the document with the id
  \<^verbatim>\<open>_search\<close>; a path after a blank, which the driver sends and the gate does not look at; a Solr core
  unloaded behind a second question mark, or with a percent-encoded parameter name.
\<close>

theorem writes_that_pass_for_reads:
  "classify_search_engine_query_risk ''POST /users/_update/_search'' ''Elasticsearch'' = Some SearchReadOnly \<and>
   classify_search_engine_query_risk ''POST /_search /../users/_doc'' ''Elasticsearch'' = Some SearchReadOnly \<and>
   map_sum id rest_path (parse_elasticsearch_rest_request ''POST /_search /../users/_doc'') = Inr ''/_search /../users/_doc'' \<and>
   classify_search_engine_query_risk ''GET /admin/cores?a=?&action=UNLOAD&core=x'' ''Solr'' = Some SearchReadOnly \<and>
   map_sum id rest_path (parse_solr_rest_request ''GET /admin/cores?a=?&action=UNLOAD&core=x'') =
     Inr ''/admin/cores?a=?&action=UNLOAD&core=x&wt=json'' \<and>
   classify_search_engine_query_risk ''GET /admin/cores?%61ction=UNLOAD&core=x'' ''Solr'' = Some SearchReadOnly \<and>
   classify_search_engine_query_risk ''GET /admin/cores?action=UNLOAD&core=x'' ''Solr'' = Some SearchDangerous"
  by (intro conjI) code_simp+

end
