(* ===== verification/Cypher_Read_Only.thy ===== *)
theory Cypher_Read_Only
  imports Dbx_Prelude
begin

text \<open>
  The read-only proof for Cypher of \<^verbatim>\<open>crates/dbx-sql-core/src/cypher_read_only.rs\<close>: a scanner that skips
  comments, collapses quoted text to one token and splits the words of a script into statements, and the
  test that every statement starts with a reading clause and names no writing one.

  A script is scanned once from left to right. \<open>cypher_scan\<close> returns the words of each statement, or
  \<^const>\<open>None\<close> where the code returns \<^verbatim>\<open>false\<close> from inside the loop: a nested or unclosed block comment, an
  unclosed literal. The property at the end is about where a word stands in the source text: a writing
  clause at the start of a line of code refuses the script, whatever surrounds it.
\<close>

section \<open>Scanner\<close>

definition unsafe_words :: "string list" where
  "unsafe_words =
     [''CREATE'', ''INSERT'', ''MERGE'', ''SET'', ''REMOVE'', ''DELETE'', ''DETACH'', ''DROP'', ''ALTER'', ''RENAME'',
      ''GRANT'', ''REVOKE'', ''DENY'', ''CALL'', ''FOREACH'', ''LOAD'', ''START'', ''STOP'', ''TERMINATE'']"

text \<open>The text after a line comment, a block comment and a literal; the latter two may fail to close.\<close>

definition cypher_line_comment :: "string \<Rightarrow> string" where
  "cypher_line_comment s = dropWhile (\<lambda>c. c \<noteq> CHR 10 \<and> c \<noteq> CHR 13) s"

fun cypher_block_comment :: "string \<Rightarrow> string option" where
  "cypher_block_comment (c # d # rest) =
     (if c = CHR ''/'' \<and> d = CHR ''*'' then None
      else if c = CHR ''*'' \<and> d = CHR ''/'' then Some rest
      else cypher_block_comment (d # rest))"
| "cypher_block_comment s = None"

fun cypher_quoted :: "char \<Rightarrow> string \<Rightarrow> string option" where
  "cypher_quoted q [] = None"
| "cypher_quoted q [c] = (if c \<noteq> CHR 92 \<and> c = q then Some [] else None)"
| "cypher_quoted q (c # d # rest) =
     (if c = CHR 92 then cypher_quoted q rest
      else if c = q then (if d = q then cypher_quoted q rest else Some (d # rest))
      else cypher_quoted q (d # rest))"

definition is_cypher_word_char :: "char \<Rightarrow> bool" where
  "is_cypher_word_char c \<longleftrightarrow> is_alphanumeric c \<or> c = CHR ''_''"

definition push_word :: "string \<Rightarrow> string list list \<Rightarrow> string list list" where
  "push_word w statements = (case statements of [] \<Rightarrow> [[w]] | s # ss \<Rightarrow> (w # s) # ss)"

text \<open>One turn of the loop: what is pushed, and the text that is left.\<close>

datatype cypher_event = Skipped | Pushed string | NextStatement

definition cypher_step :: "char \<Rightarrow> string \<Rightarrow> (cypher_event \<times> string) option" where
  "cypher_step c rest =
     (if c = CHR ''/'' \<and> starts_with ''/'' rest then Some (Skipped, cypher_line_comment (tl rest))
      else if c = CHR ''/'' \<and> starts_with ''*'' rest then map_option (Pair Skipped) (cypher_block_comment (tl rest))
      else if c = CHR 39 \<or> c = CHR 34 \<or> c = CHR 96 then map_option (Pair (Pushed ''<quoted>'')) (cypher_quoted c rest)
      else if c = CHR '';'' then Some (NextStatement, rest)
      else if is_ascii_alphabetic c \<or> c = CHR ''_'' then
        Some (Pushed (to_ascii_uppercase (c # takeWhile is_cypher_word_char rest)), dropWhile is_cypher_word_char rest)
      else if c = CHR ''.'' \<or> c = CHR '':'' \<or> c = CHR ''$'' then Some (Pushed [c], rest)
      else if \<not> is_whitespace c then Some (Pushed ''<symbol>'', rest)
      else Some (Skipped, rest))"

definition add_event :: "cypher_event \<Rightarrow> string list list \<Rightarrow> string list list" where
  "add_event e statements =
     (case e of Skipped \<Rightarrow> statements | Pushed w \<Rightarrow> push_word w statements | NextStatement \<Rightarrow> [] # statements)"

lemma length_cypher_block_comment: "cypher_block_comment s = Some r \<Longrightarrow> length r < length s"
  by (induction s rule: cypher_block_comment.induct) (auto split: if_splits)

lemma length_cypher_quoted: "cypher_quoted q s = Some r \<Longrightarrow> length r < length s"
  by (induction q s rule: cypher_quoted.induct) (auto split: if_splits)

lemma length_cypher_line_comment: "length (cypher_line_comment s) \<le> length s"
  by (simp add: cypher_line_comment_def length_dropWhile_le)

lemma length_cypher_step:
  assumes "cypher_step c rest = Some (e, r)"
  shows "length r \<le> length rest"
proof (cases "c = CHR ''/'' \<and> (starts_with ''/'' rest \<or> starts_with ''*'' rest)")
  case True
  have "r = cypher_line_comment (tl rest) \<or> cypher_block_comment (tl rest) = Some r"
    using assms True unfolding cypher_step_def by (auto split: if_split_asm)
  then have "length r \<le> length (tl rest)"
    using length_cypher_line_comment length_cypher_block_comment less_imp_le by blast
  then show ?thesis by simp
next
  case False
  then have "r = rest \<or> r = dropWhile is_cypher_word_char rest \<or> cypher_quoted c rest = Some r"
    using assms unfolding cypher_step_def by (auto split: if_split_asm)
  then show ?thesis using length_cypher_quoted length_dropWhile_le less_imp_le by blast
qed

function cypher_scan :: "string \<Rightarrow> string list list option" where
  "cypher_scan [] = Some [[]]"
| "cypher_scan (c # rest) =
     (case cypher_step c rest of
        None \<Rightarrow> None
      | Some (e, r) \<Rightarrow> map_option (add_event e) (cypher_scan r))"
  by pat_completeness auto
termination by (relation "measure length") (auto dest: length_cypher_step)

section \<open>The verdict\<close>

definition reading_clauses :: "string list" where
  "reading_clauses = [''MATCH'', ''OPTIONAL'', ''RETURN'', ''WITH'', ''UNWIND'', ''SHOW'', ''EXPLAIN'', ''PROFILE'']"

text \<open>An unsafe word that is not a property, label or parameter name, nor the key of a map.\<close>

definition is_name_marker :: "string \<Rightarrow> bool" where
  "is_name_marker w \<longleftrightarrow> w = ''.'' \<or> w = '':'' \<or> w = ''$''"

fun names_unsafe_clause :: "string option \<Rightarrow> string list \<Rightarrow> bool" where
  "names_unsafe_clause before [] = False"
| "names_unsafe_clause before (w # ws) =
     ((w \<in> set unsafe_words \<and> \<not> (case before of None \<Rightarrow> False | Some b \<Rightarrow> is_name_marker b) \<and>
       (case ws of [] \<Rightarrow> True | v # _ \<Rightarrow> v \<noteq> '':'')) \<or>
      names_unsafe_clause (Some w) ws)"

definition statement_reads :: "string list \<Rightarrow> bool" where
  "statement_reads words =
     (case words of
        [] \<Rightarrow> False
      | w # _ \<Rightarrow> w \<in> set reading_clauses \<and> (w = ''SHOW'' \<or> ''RETURN'' \<in> set words) \<and> \<not> names_unsafe_clause None words)"

definition is_proven_read_only_cypher :: "string \<Rightarrow> bool" where
  "is_proven_read_only_cypher source =
     (if str_contains (CHR 92 # ''u'') source then False
      else
        (case cypher_scan source of
           None \<Rightarrow> False
         | Some all_statements \<Rightarrow>
             (let statements = filter (\<lambda>words. words \<noteq> []) all_statements in
              statements \<noteq> [] \<and> list_all statement_reads statements)))"

section \<open>Scanning in two parts\<close>

text \<open>\<open>glue\<close> continues the last statement of a scanned text with the first one of the text after it.\<close>

fun glue :: "string list list \<Rightarrow> string list list \<Rightarrow> string list list" where
  "glue [] ts = ts"
| "glue [s] [] = [s]"
| "glue [s] (t # ts) = (s @ t) # ts"
| "glue (s # s' # ss) ts = s # glue (s' # ss) ts"

lemma glue_push_word: "ss \<noteq> [] \<Longrightarrow> glue (push_word w ss) ts = push_word w (glue ss ts)"
  unfolding push_word_def by (induction ss ts rule: glue.induct) auto

lemma glue_nonempty: "ss \<noteq> [] \<Longrightarrow> glue ss ts \<noteq> []"
  by (induction ss ts rule: glue.induct) auto

lemma glue_NextStatement: "ss \<noteq> [] \<Longrightarrow> glue ([] # ss) ts = [] # glue ss ts"
  by (cases ss) auto

lemma glue_add_event: "ss \<noteq> [] \<Longrightarrow> glue (add_event e ss) ts = add_event e (glue ss ts)"
  by (cases e) (simp_all add: add_event_def glue_push_word glue_NextStatement)

lemma push_word_nonempty [simp]: "push_word w ss \<noteq> []"
  by (simp add: push_word_def split: list.split)

lemma add_event_nonempty: "ss \<noteq> [] \<Longrightarrow> add_event e ss \<noteq> []"
  by (cases e) (simp_all add: add_event_def)

lemma cypher_scan_nonempty: "cypher_scan s = Some ss \<Longrightarrow> ss \<noteq> []"
proof (induction s arbitrary: ss rule: cypher_scan.induct)
  case (2 c rest)
  obtain e r where step: "cypher_step c rest = Some (e, r)" using 2(2) by (cases "cypher_step c rest") auto
  from 2(2) obtain tt where tt: "cypher_scan r = Some tt" and ss: "ss = add_event e tt" by (auto simp: step)
  show ?case unfolding ss by (rule add_event_nonempty [OF 2(1) [OF step refl tt]])
qed auto

lemma glue_last: "ss \<noteq> [] \<Longrightarrow> glue ss (t # ts) = butlast ss @ (last ss @ t) # ts"
  by (induction ss "t # ts" rule: glue.induct) auto

lemma cypher_block_comment_append: "cypher_block_comment s = Some r \<Longrightarrow> cypher_block_comment (s @ x) = Some (r @ x)"
  by (induction s rule: cypher_block_comment.induct) (auto split: if_splits)

lemma cypher_quoted_append:
  "cypher_quoted q s = Some r \<Longrightarrow> r \<noteq> [] \<Longrightarrow> cypher_quoted q (s @ x) = Some (r @ x)"
  by (induction q s rule: cypher_quoted.induct) (auto split: if_splits)

text \<open>Text that ends with a newline leaves no word, line comment or doubled quote open.\<close>

definition complete_line :: "string \<Rightarrow> bool" where
  "complete_line s \<longleftrightarrow> s \<noteq> [] \<and> last s = CHR 10"

lemma complete_line_Cons: "complete_line (c # s) \<longleftrightarrow> (if s = [] then c = CHR 10 else complete_line s)"
  by (simp add: complete_line_def)

lemma complete_line_dropWhile:
  "complete_line s \<Longrightarrow> \<not> P (CHR 10) \<Longrightarrow> dropWhile P (s @ x) = dropWhile P s @ x \<and> complete_line (dropWhile P s)"
proof (induction s)
  case (Cons c s)
  then show ?case by (cases "s = []") (auto simp: complete_line_Cons)
qed (simp add: complete_line_def)

lemma complete_line_takeWhile:
  "complete_line s \<Longrightarrow> \<not> P (CHR 10) \<Longrightarrow> takeWhile P (s @ x) = takeWhile P s"
proof (induction s)
  case (Cons c s)
  then show ?case by (cases "s = []") (auto simp: complete_line_Cons)
qed (simp add: complete_line_def)

lemma cypher_block_comment_complete: "cypher_block_comment s = Some r \<Longrightarrow> complete_line s \<Longrightarrow> complete_line r"
  by (induction s rule: cypher_block_comment.induct) (auto simp: complete_line_def split: if_splits)

lemma cypher_quoted_complete:
  "cypher_quoted q s = Some r \<Longrightarrow> q \<noteq> CHR 10 \<Longrightarrow> complete_line s \<Longrightarrow> complete_line r"
proof (induction q s rule: cypher_quoted.induct)
  case (3 q c d rest)
  have "cypher_quoted q rest = Some r \<Longrightarrow> rest \<noteq> []" by auto
  with 3 show ?case by (auto simp: complete_line_Cons split: if_splits)
qed (auto simp: complete_line_def split: if_splits)

lemma newline_is_no_word_char: "\<not> is_cypher_word_char (CHR 10)"
  by (simp add: is_cypher_word_char_def is_alphanumeric_def is_ascii_alphanumeric_def is_ascii_alphabetic_def
      is_ascii_upper_def is_ascii_lower_def is_ascii_digit_def char_code_def)

lemma cypher_step_cases:
  "c = CHR ''/'' \<Longrightarrow> starts_with ''/'' rest \<Longrightarrow> cypher_step c rest = Some (Skipped, cypher_line_comment (tl rest))"
  "c = CHR ''/'' \<Longrightarrow> starts_with ''*'' rest \<Longrightarrow> cypher_step c rest = map_option (Pair Skipped) (cypher_block_comment (tl rest))"
  "c = CHR 39 \<or> c = CHR 34 \<or> c = CHR 96 \<Longrightarrow> cypher_step c rest = map_option (Pair (Pushed ''<quoted>'')) (cypher_quoted c rest)"
  by (cases rest; auto simp: cypher_step_def)+

lemma cypher_step_word:
  "is_ascii_alphabetic c \<or> c = CHR ''_'' \<Longrightarrow> cypher_step c rest =
     Some (Pushed (to_ascii_uppercase (c # takeWhile is_cypher_word_char rest)), dropWhile is_cypher_word_char rest)"
  by (auto simp: cypher_step_def is_ascii_alphabetic_def is_ascii_upper_def is_ascii_lower_def char_code_def)

lemma cypher_step_single:
  assumes "\<not> (c = CHR ''/'' \<and> (starts_with ''/'' rest \<or> starts_with ''*'' rest))"
    "\<not> (c = CHR 39 \<or> c = CHR 34 \<or> c = CHR 96)" "\<not> (is_ascii_alphabetic c \<or> c = CHR ''_'')"
  shows "cypher_step c rest =
     Some (if c = CHR '';'' then NextStatement
           else if c = CHR ''.'' \<or> c = CHR '':'' \<or> c = CHR ''$'' then Pushed [c]
           else if \<not> is_whitespace c then Pushed ''<symbol>'' else Skipped, rest)"
  unfolding cypher_step_def using assms by presburger

lemma cypher_step_append:
  assumes step: "cypher_step c rest = Some (e, r)" and complete: "complete_line rest"
  shows "cypher_step c (rest @ x) = Some (e, r @ x) \<and> complete_line r"
proof -
  have rest: "rest \<noteq> []" using complete by (auto simp: complete_line_def)
  then have sw: "starts_with [d] (rest @ x) = starts_with [d] rest" for d by (cases rest) auto
  have tl: "tl (rest @ x) = tl rest @ x" using rest by simp
  have complete_tl: "complete_line (tl rest)" if "starts_with [d] rest" "d \<noteq> CHR 10" for d
    using complete that by (cases rest) (auto simp: complete_line_Cons split: if_splits)
  consider (line) "c = CHR ''/''" "starts_with ''/'' rest" | (block) "c = CHR ''/''" "starts_with ''*'' rest"
    | (quoted) "c = CHR 39 \<or> c = CHR 34 \<or> c = CHR 96" | (word) "is_ascii_alphabetic c \<or> c = CHR ''_''"
    | (single) "\<not> (c = CHR ''/'' \<and> (starts_with ''/'' rest \<or> starts_with ''*'' rest))"
        "\<not> (c = CHR 39 \<or> c = CHR 34 \<or> c = CHR 96)" "\<not> (is_ascii_alphabetic c \<or> c = CHR ''_'')"
    by blast
  then show ?thesis
  proof cases
    case line
    have "cypher_line_comment (tl rest @ x) = cypher_line_comment (tl rest) @ x \<and> complete_line (cypher_line_comment (tl rest))"
      unfolding cypher_line_comment_def by (rule complete_line_dropWhile [OF complete_tl [OF line(2)]]) simp_all
    then show ?thesis using step cypher_step_cases(1) [OF line] cypher_step_cases(1) [of c "rest @ x"] line sw tl by simp
  next
    case block
    then have r: "cypher_block_comment (tl rest) = Some r" and e: "e = Skipped" using step by (auto simp: cypher_step_cases(2))
    have "complete_line r" by (rule cypher_block_comment_complete [OF r complete_tl [OF block(2)]]) simp
    then show ?thesis using cypher_block_comment_append [OF r] cypher_step_cases(2) [of c "rest @ x"] block sw tl e by simp
  next
    case quoted
    then have r: "cypher_quoted c rest = Some r" and e: "e = Pushed ''<quoted>''" using step by (auto simp: cypher_step_cases(3))
    have "complete_line r" by (rule cypher_quoted_complete [OF r _ complete]) (use quoted in auto)
    moreover from this have "cypher_quoted c (rest @ x) = Some (r @ x)"
      using cypher_quoted_append [OF r] by (simp add: complete_line_def)
    ultimately show ?thesis using cypher_step_cases(3) [OF quoted] e by simp
  next
    case word
    from step have "e = Pushed (to_ascii_uppercase (c # takeWhile is_cypher_word_char rest))"
      "r = dropWhile is_cypher_word_char rest" by (simp_all add: cypher_step_word [OF word])
    with complete_line_dropWhile [of rest is_cypher_word_char x, OF complete newline_is_no_word_char]
      complete_line_takeWhile [of rest is_cypher_word_char x, OF complete newline_is_no_word_char]
    show ?thesis by (simp add: cypher_step_word [OF word])
  next
    case single
    from step have "r = rest" unfolding cypher_step_single [OF single] by (simp only: option.inject prod.inject)
    moreover have "cypher_step c (rest @ x) = map_option (\<lambda>(e, r). (e, r @ x)) (cypher_step c rest)"
      unfolding cypher_step_single [OF single]
      by (subst cypher_step_single) (use single sw in \<open>simp_all only: option.map prod.case simp_thms\<close>)
    ultimately show ?thesis using step complete by simp
  qed
qed

lemma cypher_scan_append:
  "cypher_scan a = Some ss \<Longrightarrow> complete_line a \<Longrightarrow> cypher_scan (a @ x) = map_option (glue ss) (cypher_scan x)"
proof (induction a arbitrary: ss rule: cypher_scan.induct)
  case (2 c rest)
  obtain e r where step: "cypher_step c rest = Some (e, r)" using 2(2) by (cases "cypher_step c rest") auto
  from 2(2) obtain tt where tt: "cypher_scan r = Some tt" and ss: "ss = add_event e tt" by (auto simp: step)
  have glue: "glue ss = add_event e \<circ> glue tt" unfolding ss using glue_add_event cypher_scan_nonempty [OF tt] by auto
  show ?case
  proof (cases "rest = []")
    case True
    then have "c = CHR 10" using 2(3) by (simp add: complete_line_def)
    then have here: "cypher_step c y = Some (Skipped, y)" for y
      by (simp add: cypher_step_def is_ascii_alphabetic_def is_ascii_upper_def is_ascii_lower_def is_whitespace_def char_code_def)
    have "glue [[]] = (\<lambda>ts. if ts = [] then [[]] else ts)" by (auto simp: fun_eq_iff neq_Nil_conv)
    then show ?thesis using True step tt here cypher_scan_nonempty [of x] unfolding glue
      by (cases "cypher_scan x") (auto simp: add_event_def)
  next
    case False
    then have "complete_line rest" using 2(3) by (simp add: complete_line_Cons)
    from cypher_step_append [OF step this] have "cypher_step c (rest @ x) = Some (e, r @ x)" and r: "complete_line r" by auto
    with 2(1) [OF step refl tt r] show ?thesis unfolding glue by (simp add: option.map_comp comp_def)
  qed
qed (simp add: complete_line_def)

lemma names_unsafe_clause_here:
  assumes "w \<in> set unsafe_words" "ws = [] \<or> hd ws \<noteq> '':''" "\<forall>b. before = Some b \<longrightarrow> \<not> is_name_marker b"
  shows "names_unsafe_clause before (w # ws)"
  using assms by (cases ws; cases before) simp_all

lemma names_unsafe_clause_append:
  assumes "w \<in> set unsafe_words" "ws = [] \<or> hd ws \<noteq> '':''"
  shows "\<not> is_name_marker (last (b # xs)) \<Longrightarrow> names_unsafe_clause (Some b) (xs @ w # ws)"
proof (induction xs arbitrary: b)
  case Nil
  then show ?case unfolding append_Nil by (intro names_unsafe_clause_here [OF assms]) simp
next
  case (Cons v xs)
  then have "names_unsafe_clause (Some v) (xs @ w # ws)" by simp
  then show ?case by (simp only: append_Cons names_unsafe_clause.simps simp_thms)
qed

lemma names_unsafe_clause_within:
  assumes "w \<in> set unsafe_words" "ws = [] \<or> hd ws \<noteq> '':''" "xs = [] \<or> \<not> is_name_marker (last xs)"
  shows "names_unsafe_clause None (xs @ w # ws)"
proof (cases xs)
  case Nil
  then show ?thesis using names_unsafe_clause_here [OF assms(1,2), of None] by simp
next
  case (Cons v vs)
  then have "names_unsafe_clause (Some v) (vs @ w # ws)"
    using names_unsafe_clause_append [OF assms(1,2), of v vs] assms(3) by simp
  then show ?thesis unfolding Cons by (simp only: append_Cons names_unsafe_clause.simps simp_thms)
qed

lemma unsafe_words_alphabetic: "list_all (\<lambda>w. w \<noteq> [] \<and> list_all is_ascii_upper w) unsafe_words"
  by code_simp

lemma ascii_upper_alphabetic: "is_ascii_upper (if is_ascii_lower c then char_of (char_code c - 32) else c) \<Longrightarrow> is_ascii_alphabetic c"
  by (auto simp: is_ascii_alphabetic_def)

lemma unsafe_word_chars:
  assumes "to_ascii_uppercase w \<in> set unsafe_words"
  shows "w \<noteq> [] \<and> list_all is_ascii_alphabetic w"
proof -
  have "to_ascii_uppercase w \<noteq> []" "list_all is_ascii_upper (to_ascii_uppercase w)"
    using assms unsafe_words_alphabetic by (auto simp: list_all_iff)
  then show ?thesis using ascii_upper_alphabetic by (auto simp: to_ascii_uppercase_def list_all_iff)
qed

lemma cypher_scan_word:
  assumes "w \<noteq> []" "list_all is_ascii_alphabetic w" "x = [] \<or> \<not> is_cypher_word_char (hd x)"
  shows "cypher_scan (w @ x) = map_option (push_word (to_ascii_uppercase w)) (cypher_scan x)"
proof -
  obtain c cs where w: "w = c # cs" using assms(1) by (cases w) auto
  have c: "is_ascii_alphabetic c" and cs: "\<forall>d\<in>set cs. is_cypher_word_char d"
    using assms(2) unfolding w by (auto simp: list_all_iff is_cypher_word_char_def is_alphanumeric_def is_ascii_alphanumeric_def)
  have drop: "takeWhile is_cypher_word_char (cs @ x) = cs" "dropWhile is_cypher_word_char (cs @ x) = x"
    using cs assms(3) by (cases x; simp add: takeWhile_append2 dropWhile_append2)+
  have push: "add_event (Pushed v) = push_word v" for v by (simp add: add_event_def fun_eq_iff)
  show ?thesis unfolding w using c drop by (simp add: cypher_step_word push)
qed

section \<open>Properties\<close>

text \<open>
  C21. A script in which a line of code, outside every literal and comment, starts with a writing clause
  (CREATE, SET, CALL, ... in any case) is never taken for a read, whatever comes before and after it: the
  word would have to continue a name after a dot, colon or dollar sign, or be the key of a map.
\<close>

theorem writing_clause_at_line_start_is_refused:
  assumes "cypher_scan (a @ [CHR 10]) = Some before"
    and "to_ascii_uppercase w \<in> set unsafe_words"
    and "x = [] \<or> \<not> is_cypher_word_char (hd x)"
    and "last before = [] \<or> \<not> is_name_marker (last (last before))"
    and "\<forall>after. cypher_scan x = Some after \<longrightarrow> hd after = [] \<or> hd (hd after) \<noteq> '':''"
  shows "\<not> is_proven_read_only_cypher (a @ CHR 10 # w @ x)"
proof -
  let ?w = "to_ascii_uppercase w"
  note chars = unsafe_word_chars [OF assms(2)]
  have word: "cypher_scan (w @ x) = map_option (push_word ?w) (cypher_scan x)"
    by (rule cypher_scan_word [OF conjunct1 [OF chars] conjunct2 [OF chars] assms(3)])
  have whole: "cypher_scan (a @ CHR 10 # w @ x) = map_option (glue before) (cypher_scan (w @ x))"
    using cypher_scan_append [OF assms(1), of "w @ x"] by (simp add: complete_line_def)
  show ?thesis
  proof (cases "cypher_scan x")
    case None
    then show ?thesis by (simp add: is_proven_read_only_cypher_def whole word)
  next
    case (Some after)
    then obtain t ts where after: "after = t # ts" using cypher_scan_nonempty by (cases after) auto
    have scan: "cypher_scan (a @ CHR 10 # w @ x) = Some (butlast before @ (last before @ ?w # t) # ts)"
      unfolding whole word Some after by (simp add: push_word_def glue_last [OF cypher_scan_nonempty [OF assms(1)]])
    have "names_unsafe_clause None (last before @ ?w # t)"
      by (rule names_unsafe_clause_within [OF assms(2)]) (use assms(4,5) Some in \<open>simp_all add: after\<close>)
    then have "\<not> statement_reads (last before @ ?w # t)"
      by (cases "last before @ ?w # t") (simp_all only: statement_reads_def list.case simp_thms)
    then show ?thesis by (simp add: is_proven_read_only_cypher_def scan Let_def)
  qed
qed

theorem writing_clause_at_line_start_is_refused_witness:
  "\<not> is_proven_read_only_cypher (''MATCH (n) // SET'' @ CHR 10 # ''Set'' @ '' n.x = 1 RETURN n'') \<and>
   is_proven_read_only_cypher ''MATCH (n:SET) RETURN n.set''"
proof
  have scan: "cypher_scan (''MATCH (n) // SET'' @ [CHR 10]) = Some [[''MATCH'', ''<symbol>'', ''N'', ''<symbol>'']]"
    by code_simp
  have after: "cypher_scan '' n.x = 1 RETURN n'' = Some [[''N'', ''.'', ''X'', ''<symbol>'', ''<symbol>'', ''RETURN'', ''N'']]"
    by code_simp
  have upper: "to_ascii_uppercase ''Set'' \<in> set unsafe_words" by code_simp
  have space: "\<not> is_cypher_word_char (CHR '' '')" by code_simp
  show "\<not> is_proven_read_only_cypher (''MATCH (n) // SET'' @ CHR 10 # ''Set'' @ '' n.x = 1 RETURN n'')"
    by (rule writing_clause_at_line_start_is_refused [OF scan upper])
      (use after space in \<open>simp_all add: is_name_marker_def\<close>)
  show "is_proven_read_only_cypher ''MATCH (n:SET) RETURN n.set''" by code_simp
qed

end
