(* ===== verification/Write_Unlock.thy ===== *)
theory Write_Unlock
  imports Dbx_Prelude
begin

text \<open>
  Temporary write windows on read-only connections (\<^verbatim>\<open>crates/dbx-core/src/safety/write_unlock.rs\<close>). A window
  belongs to an owner scope and a connection, lasts one or five minutes, and ends early when it is locked.
  A reader that finds an expired window removes it, but under a second lock acquisition: between the look
  and the removal other tasks may run. The operations come first as the code has them, then as the events
  of an interleaving, with the removal as an event of its own.

  Instants are counted in nanoseconds; \<^verbatim>\<open>Instant::now()\<close> and the owner of the current task are arguments.
\<close>

section \<open>Operations\<close>

definition write_unlock_one_minute_secs :: nat where
  "write_unlock_one_minute_secs = 60"

definition write_unlock_five_minutes_secs :: nat where
  "write_unlock_five_minutes_secs = 300"

record write_unlock_key =
  unlock_owner_scope :: string
  unlock_connection_id :: string

type_synonym write_unlock_windows = "(write_unlock_key, instant) hmap"

definition current_unlock_key :: "string option \<Rightarrow> string \<Rightarrow> write_unlock_key" where
  "current_unlock_key owner connection_id =
     \<lparr>unlock_owner_scope = (case owner of Some scope \<Rightarrow> scope | None \<Rightarrow> []), unlock_connection_id = connection_id\<rparr>"

definition parse_duration_secs :: "nat \<Rightarrow> duration rust_result" where
  "parse_duration_secs secs =
     (if secs = write_unlock_one_minute_secs then Inr (from_secs write_unlock_one_minute_secs)
      else if secs = write_unlock_five_minutes_secs then Inr (from_secs write_unlock_five_minutes_secs)
      else Inl ''Write unlock duration must be 1 minute or 5 minutes.'')"

definition unlock_window ::
  "instant \<Rightarrow> string option \<Rightarrow> string \<Rightarrow> nat \<Rightarrow> write_unlock_windows \<Rightarrow> nat rust_result \<times> write_unlock_windows" where
  "unlock_window now owner connection_id duration_secs w =
     (if trim connection_id = [] then (Inl ''Connection id is required.'', w)
      else
        (case parse_duration_secs duration_secs of
           Inl e \<Rightarrow> (Inl e, w)
         | Inr d \<Rightarrow> (Inr (as_millis d mod 2 ^ 64), hm_insert (current_unlock_key owner connection_id) (now + d) w)))"

definition lock_window :: "string option \<Rightarrow> string \<Rightarrow> write_unlock_windows \<Rightarrow> write_unlock_windows" where
  "lock_window owner connection_id w = hm_remove (current_unlock_key owner connection_id) w"

text \<open>What is left of a window that was looked up, and whether the reader goes on to remove it.\<close>

definition remaining_ms_from :: "instant \<Rightarrow> instant \<Rightarrow> nat \<times> bool" where
  "remaining_ms_from expires_at now =
     (if expires_at \<le> now then (0, True) else (as_millis (expires_at - now) mod 2 ^ 64, False))"

definition remaining_ms ::
  "instant \<Rightarrow> string option \<Rightarrow> string \<Rightarrow> write_unlock_windows \<Rightarrow> nat \<times> write_unlock_windows" where
  "remaining_ms now owner connection_id w =
     (let key = current_unlock_key owner connection_id in
      case hm_get w key of
        None \<Rightarrow> (0, w)
      | Some expires_at \<Rightarrow>
          (case remaining_ms_from expires_at now of
             (ms, remove) \<Rightarrow> (ms, if remove then hm_remove key w else w)))"

definition window_is_active ::
  "instant \<Rightarrow> string option \<Rightarrow> string \<Rightarrow> write_unlock_windows \<Rightarrow> bool \<times> write_unlock_windows" where
  "window_is_active now owner connection_id w =
     (case remaining_ms now owner connection_id w of (ms, w') \<Rightarrow> (0 < ms, w'))"

section \<open>Interleaving\<close>

text \<open>
  \<open>Observe\<close> is the first half of \<^const>\<open>remaining_ms\<close>, under the read lock; when it finds the window expired, the
  key joins the removals that are still to come. \<open>Remove\<close> is the second half, under the write lock.
\<close>

datatype unlock_event =
    Unlock instant "string option" string nat
  | Lock "string option" string
  | Observe instant "string option" string
  | Remove write_unlock_key

record unlock_state =
  windows :: write_unlock_windows
  pending_removals :: "write_unlock_key list"

definition unlock_init :: unlock_state where
  "unlock_init = \<lparr>windows = [], pending_removals = []\<rparr>"

fun unlock_step :: "unlock_event \<Rightarrow> unlock_state \<Rightarrow> unlock_state option" where
  "unlock_step (Unlock now owner connection_id secs) s =
     Some (s\<lparr>windows := snd (unlock_window now owner connection_id secs (windows s))\<rparr>)"
| "unlock_step (Lock owner connection_id) s = Some (s\<lparr>windows := lock_window owner connection_id (windows s)\<rparr>)"
| "unlock_step (Observe now owner connection_id) s =
     (let key = current_unlock_key owner connection_id in
      case hm_get (windows s) key of
        None \<Rightarrow> Some s
      | Some expires_at \<Rightarrow>
          Some (if snd (remaining_ms_from expires_at now)
                then s\<lparr>pending_removals := key # pending_removals s\<rparr> else s))"
| "unlock_step (Remove key) s =
     (if key \<in> set (pending_removals s)
      then Some (s\<lparr>windows := hm_remove key (windows s), pending_removals := remove1 key (pending_removals s)\<rparr>)
      else None)"

fun unlock_run :: "unlock_event list \<Rightarrow> unlock_state \<Rightarrow> unlock_state option" where
  "unlock_run [] s = Some s"
| "unlock_run (e # es) s = Option.bind (unlock_step e s) (unlock_run es)"

text \<open>
  The specification: only accepted unlocks and locks count. \<open>granted_until es\<close> is the end of the window the
  last of them left for a key.
\<close>

fun grant :: "unlock_event \<Rightarrow> write_unlock_key \<Rightarrow> instant option \<Rightarrow> instant option" where
  "grant (Unlock now owner connection_id secs) key g =
     (if key = current_unlock_key owner connection_id \<and> trim connection_id \<noteq> [] \<and> (secs = 60 \<or> secs = 300)
      then Some (now + from_secs secs) else g)"
| "grant (Lock owner connection_id) key g = (if key = current_unlock_key owner connection_id then None else g)"
| "grant _ key g = g"

definition granted_until :: "unlock_event list \<Rightarrow> write_unlock_key \<Rightarrow> instant option" where
  "granted_until es key = foldl (\<lambda>g e. grant e key g) None es"

section \<open>Lemmas\<close>

lemma remaining_then_remove:
  "remaining_ms now owner cid w =
     (case hm_get w (current_unlock_key owner cid) of
        None \<Rightarrow> (0, w)
      | Some e \<Rightarrow> if e \<le> now then (0, hm_remove (current_unlock_key owner cid) w)
                  else (as_millis (e - now) mod 2 ^ 64, w))"
  by (simp add: remaining_ms_def remaining_ms_from_def Let_def split: option.split)

text \<open>Without other tasks in between, the two halves are the operation of the code.\<close>

lemma observe_then_remove:
  assumes "windows s = w" "pending_removals s = []"
  shows "\<exists>es. unlock_run (Observe now owner cid # es) s =
      Some (s\<lparr>windows := snd (window_is_active now owner cid w)\<rparr>) \<and>
      (es = [] \<or> es = [Remove (current_unlock_key owner cid)])"
proof (cases "hm_get w (current_unlock_key owner cid)")
  case None
  then have "unlock_run [Observe now owner cid] s = Some (s\<lparr>windows := snd (window_is_active now owner cid w)\<rparr>)"
    using assms by (simp add: window_is_active_def remaining_then_remove Let_def)
  then show ?thesis by blast
next
  case (Some e)
  show ?thesis
  proof (cases "e \<le> now")
    case True
    then have "unlock_run [Observe now owner cid, Remove (current_unlock_key owner cid)] s =
        Some (s\<lparr>windows := snd (window_is_active now owner cid w)\<rparr>)"
      using assms Some by (simp add: window_is_active_def remaining_then_remove remaining_ms_from_def Let_def)
    then show ?thesis by blast
  next
    case False
    then have "unlock_run [Observe now owner cid] s = Some (s\<lparr>windows := snd (window_is_active now owner cid w)\<rparr>)"
      using assms Some by (simp add: window_is_active_def remaining_then_remove remaining_ms_from_def Let_def)
    then show ?thesis by blast
  qed
qed

lemma unlock_run_append: "unlock_run (xs @ ys) s = Option.bind (unlock_run xs s) (unlock_run ys)"
  by (induction xs arbitrary: s) (auto split: Option.bind_splits)

lemma granted_until_snoc: "granted_until (es @ [e]) key = grant e key (granted_until es key)"
  by (simp add: granted_until_def)

lemma get_unlock_window:
  "hm_get (snd (unlock_window now owner cid secs w)) key =
     (if key = current_unlock_key owner cid \<and> trim cid \<noteq> [] \<and> (secs = 60 \<or> secs = 300)
      then Some (now + from_secs secs) else hm_get w key)"
  by (simp add: unlock_window_def parse_duration_secs_def write_unlock_one_minute_secs_def
      write_unlock_five_minutes_secs_def store_laws)

lemma step_within_grant:
  assumes "unlock_step e s = Some t" "\<And>x. hm_get (windows s) key = Some x \<Longrightarrow> g = Some x"
    and "hm_get (windows t) key = Some x"
  shows "grant e key g = Some x"
proof (cases e)
  case (Unlock now owner cid secs)
  then have "windows t = snd (unlock_window now owner cid secs (windows s))" using assms(1) by auto
  then show ?thesis using assms(2,3) Unlock by (auto simp: get_unlock_window split: if_splits)
next
  case (Lock owner cid)
  then have "windows t = lock_window owner cid (windows s)" using assms(1) by auto
  then show ?thesis using assms(2,3) Lock by (simp add: lock_window_def store_laws split: if_splits)
next
  case (Observe now owner cid)
  then have "windows t = windows s" using assms(1) by (auto simp: Let_def split: option.splits if_splits)
  then show ?thesis using assms(2,3) Observe by simp
next
  case (Remove k)
  then have "windows t = hm_remove k (windows s)" using assms(1) by (auto split: if_splits)
  then show ?thesis using assms(2,3) Remove by (simp add: store_laws split: if_splits)
qed

text \<open>Whatever the interleaving, a window that is stored is one that was granted.\<close>

lemma stored_within_granted:
  "unlock_run es unlock_init = Some s \<Longrightarrow> hm_get (windows s) key = Some x \<Longrightarrow> granted_until es key = Some x"
proof (induction es arbitrary: s x rule: rev_induct)
  case Nil
  then show ?case by (auto simp: unlock_init_def)
next
  case (snoc e es)
  from snoc.prems(1) obtain t where t: "unlock_run es unlock_init = Some t" and e: "unlock_step e t = Some s"
    by (auto simp: unlock_run_append split: Option.bind_splits)
  show ?case unfolding granted_until_snoc
    by (rule step_within_grant [OF e _ snoc.prems(2)]) (use snoc.IH [OF t] in auto)
qed

lemma active_has_window:
  assumes "fst (window_is_active now owner cid w)"
  shows "\<exists>x. hm_get w (current_unlock_key owner cid) = Some x \<and> now < x"
  using assms unfolding window_is_active_def remaining_then_remove
  by (cases "hm_get w (current_unlock_key owner cid)") (auto split: if_splits)

lemma active_was_granted:
  assumes "unlock_run es unlock_init = Some s" "fst (window_is_active now owner cid (windows s))"
  shows "\<exists>x. granted_until es (current_unlock_key owner cid) = Some x \<and> now < x"
  using active_has_window [OF assms(2)] stored_within_granted [OF assms(1)] by blast

section \<open>Properties\<close>

text \<open>
  A window can be lost while it is open: a reader that saw the old window expired removes the new one
  that was granted in between. The owner's unlock succeeded, and the next look finds the connection locked.
\<close>

theorem stale_removal_drops_a_fresh_window:
  "let key = current_unlock_key None ''prod'';
       es = [Unlock 0 None ''prod'' 60, Observe (from_secs 60) None ''prod'', Unlock (from_secs 60) None ''prod'' 300, Remove key]
   in granted_until es key = Some (from_secs 360) \<and>
      (\<exists>s. unlock_run es unlock_init = Some s \<and> \<not> fst (window_is_active (from_secs 61) None ''prod'' (windows s)))"
  by (simp add: granted_until_def unlock_init_def unlock_window_def parse_duration_secs_def
      write_unlock_one_minute_secs_def write_unlock_five_minutes_secs_def current_unlock_key_def trim_def trim_start_def
      trim_end_def is_whitespace_def char_code_def remaining_ms_from_def window_is_active_def remaining_ms_def
      from_secs_def Let_def store_laws)

end
