(* ===== verification/Write_Gate.thy ===== *)
theory Write_Gate
  imports Sql_Blocks Search_Request Cypher_Read_Only Write_Unlock
begin

text \<open>
  The read-only gate as the connections use it: the dispatch on the database type
  (\<^verbatim>\<open>is_write_sql\<close>, \<^verbatim>\<open>is_write_sql_for_database\<close>, \<^verbatim>\<open>check_read_only\<close> in
  \<^verbatim>\<open>crates/dbx-sql-core/src/query_execution_sql.rs\<close>) over the statement splitter, the statement scan, the
  Cypher proof and the request classes, and the check of a pool key against the connection's configuration
  and its write window (\<^verbatim>\<open>check_read_only_for_connection\<close> in \<^verbatim>\<open>crates/dbx-core/src/query/mod.rs\<close>).

  Three arguments stand for third-party code: \<open>tok\<close> for the tokenizer, \<open>into\<close> for
  \<^verbatim>\<open>contains_unquoted_keyword(sql, dialect, "INTO")\<close>, \<open>json_from_str\<close> for \<^verbatim>\<open>serde_json::from_str\<close>.
\<close>

section \<open>Scripts\<close>

definition sql_execution_plan_for_database :: "tokenizer \<Rightarrow> string \<Rightarrow> database_type \<Rightarrow> sql_execution_plan" where
  "sql_execution_plan_for_database tok sql db =
     sql_execution_plan_with_options (routine_blocks tok) (profile_for_database_type db) sql"

definition split_sql_statements_for_database :: "tokenizer \<Rightarrow> string \<Rightarrow> database_type \<Rightarrow> string list" where
  "split_sql_statements_for_database tok sql db = plan_statements (sql_execution_plan_for_database tok sql db)"

definition sql_execution_plan_for_database_with_compatibility ::
  "tokenizer \<Rightarrow> string \<Rightarrow> database_type \<Rightarrow> string option \<Rightarrow> sql_execution_plan" where
  "sql_execution_plan_for_database_with_compatibility tok sql db mode =
     sql_execution_plan_with_options (routine_blocks tok) (profile_for_compatibility db mode) sql"

definition split_sql_statements_for_database_with_compatibility ::
  "tokenizer \<Rightarrow> string \<Rightarrow> database_type \<Rightarrow> string option \<Rightarrow> string list" where
  "split_sql_statements_for_database_with_compatibility tok sql db mode =
     plan_statements (sql_execution_plan_for_database_with_compatibility tok sql db mode)"

definition has_dialect_specific_write ::
  "tokenizer \<Rightarrow> (database_type \<Rightarrow> string \<Rightarrow> bool) \<Rightarrow> string \<Rightarrow> database_type \<Rightarrow> bool" where
  "has_dialect_specific_write tok into sql db =
     list_ex (\<lambda>statement. has_dialect_specific_write_statement into statement db)
       (split_sql_statements_for_database tok sql db)"

definition is_write_sql_with_database_type ::
  "tokenizer \<Rightarrow> (database_type \<Rightarrow> string \<Rightarrow> bool) \<Rightarrow> string \<Rightarrow> database_type option \<Rightarrow> bool" where
  "is_write_sql_with_database_type tok into sql database =
     (if database = Some ''SqlServer'' \<and> is_sqlserver_plan_capture_set sql then False
      else if (case database of None \<Rightarrow> False | Some db \<Rightarrow> has_dialect_specific_write tok into sql db) then True
      else
        (let detect_mysql_executable_comments = (database = None);
             detect_select_into = (database = None);
             statements = (case database of
                             Some db \<Rightarrow> split_sql_statements_for_database tok sql db
                           | None \<Rightarrow> split_sql_statements tok sql);
             allow_mysql_checksum = (database = Some ''Mysql'')
         in list_ex (\<lambda>statement. is_write_sql_statement statement detect_mysql_executable_comments
              detect_select_into allow_mysql_checksum) statements))"

definition is_write_sql :: "tokenizer \<Rightarrow> (database_type \<Rightarrow> string \<Rightarrow> bool) \<Rightarrow> string \<Rightarrow> bool" where
  "is_write_sql tok into sql = is_write_sql_with_database_type tok into sql None"

definition is_write_sql_for_database ::
  "tokenizer \<Rightarrow> (database_type \<Rightarrow> string \<Rightarrow> bool) \<Rightarrow> (string \<Rightarrow> json option) \<Rightarrow> string \<Rightarrow> database_type \<Rightarrow> bool" where
  "is_write_sql_for_database tok into json_from_str sql db =
     (if db = ''Neo4j'' then \<not> is_proven_read_only_cypher sql
      else if db = ''VictoriaMetrics'' then False
      else
        (case (if db = ''DynamoDb'' then classify_dynamodb_statement_write sql else None) of
           Some is_write \<Rightarrow> is_write
         | None \<Rightarrow>
             if db = ''Salesforce'' then classify_salesforce_statement_risk json_from_str sql \<noteq> SfRead
             else
               (case classify_search_engine_query_risk sql db of
                  Some risk \<Rightarrow> risk \<noteq> SearchReadOnly
                | None \<Rightarrow> is_write_sql_with_database_type tok into sql (Some db))))"

definition check_read_only ::
  "tokenizer \<Rightarrow> (database_type \<Rightarrow> string \<Rightarrow> bool) \<Rightarrow> (string \<Rightarrow> json option) \<Rightarrow> string \<Rightarrow> string \<Rightarrow> database_type \<Rightarrow> unit rust_result" where
  "check_read_only tok into json_from_str sql connection_name db =
     (if is_write_sql_for_database tok into json_from_str sql db
      then Inl (''Read-only mode: connection '' @ [CHR 39] @ connection_name @ [CHR 39] @
                '' has read-only protection enabled. Write operation (including stored procedure calls) blocked.'')
      else Inr ())"

section \<open>Connections\<close>

text \<open>The fields of \<^verbatim>\<open>ConnectionConfig\<close> that the check reads.\<close>

record connection_config =
  config_id :: string
  config_name :: string
  config_db_type :: database_type
  config_read_only :: bool

definition pool_key_belongs_to_connection :: "string \<Rightarrow> string \<Rightarrow> bool" where
  "pool_key_belongs_to_connection pool_key connection_id =
     (starts_with connection_id pool_key \<and>
      (let rest = drop (length connection_id) pool_key in rest = [] \<or> starts_with '':'' rest))"

text \<open>\<^verbatim>\<open>Iterator::max_by_key\<close> returns the last of the greatest elements.\<close>

fun longest_entry :: "(string \<times> 'c) list \<Rightarrow> (string \<times> 'c) option \<Rightarrow> (string \<times> 'c) option" where
  "longest_entry [] best = best"
| "longest_entry (e # es) best =
     longest_entry es
       (case best of None \<Rightarrow> Some e | Some b \<Rightarrow> if length (fst b) \<le> length (fst e) then Some e else Some b)"

definition config_for_pool_key :: "string \<Rightarrow> (string, connection_config) hmap \<Rightarrow> connection_config option" where
  "config_for_pool_key pool_key configs =
     map_option snd (longest_entry (filter (\<lambda>(connection_id, _). pool_key_belongs_to_connection pool_key connection_id) configs) None)"

text \<open>The gate state: the configurations and the write windows of the application.\<close>

record gate_state =
  configs :: "(string, connection_config) hmap"
  write_windows :: write_unlock_windows

text \<open>The first failing check of a list of statements.\<close>

fun check_statements :: "(string \<Rightarrow> unit rust_result) \<Rightarrow> string list \<Rightarrow> unit rust_result" where
  "check_statements check [] = Inr ()"
| "check_statements check (sql # rest) = (case check sql of Inl e \<Rightarrow> Inl e | Inr _ \<Rightarrow> check_statements check rest)"

definition check_read_only_for_connection_multi ::
  "tokenizer \<Rightarrow> (database_type \<Rightarrow> string \<Rightarrow> bool) \<Rightarrow> (string \<Rightarrow> json option) \<Rightarrow> instant \<Rightarrow> string option \<Rightarrow>
   gate_state \<Rightarrow> string \<Rightarrow> string list \<Rightarrow> unit rust_result \<times> gate_state" where
  "check_read_only_for_connection_multi tok into json_from_str now owner g pool_key statements =
     (case config_for_pool_key pool_key (configs g) of
        None \<Rightarrow> (Inr (), g)
      | Some config \<Rightarrow>
          if \<not> config_read_only config then (Inr (), g)
          else
            (case window_is_active now owner (config_id config) (write_windows g) of
               (active, w) \<Rightarrow>
                 (if active then Inr ()
                  else check_statements
                    (\<lambda>sql. check_read_only tok into json_from_str sql (config_name config) (config_db_type config)) statements,
                  g\<lparr>write_windows := w\<rparr>)))"

definition check_read_only_for_connection ::
  "tokenizer \<Rightarrow> (database_type \<Rightarrow> string \<Rightarrow> bool) \<Rightarrow> (string \<Rightarrow> json option) \<Rightarrow> instant \<Rightarrow> string option \<Rightarrow>
   gate_state \<Rightarrow> string \<Rightarrow> string \<Rightarrow> unit rust_result \<times> gate_state" where
  "check_read_only_for_connection tok into json_from_str now owner g pool_key sql =
     (case config_for_pool_key pool_key (configs g) of
        None \<Rightarrow> (Inr (), g)
      | Some config \<Rightarrow>
          if \<not> config_read_only config then (Inr (), g)
          else
            (case window_is_active now owner (config_id config) (write_windows g) of
               (active, w) \<Rightarrow>
                 (if active then Inr ()
                  else check_read_only tok into json_from_str sql (config_name config) (config_db_type config),
                  g\<lparr>write_windows := w\<rparr>)))"

definition connection_readonly_name ::
  "instant \<Rightarrow> string option \<Rightarrow> gate_state \<Rightarrow> string \<Rightarrow> string option \<times> gate_state" where
  "connection_readonly_name now owner g connection_id =
     (case hm_get (configs g) connection_id of
        None \<Rightarrow> (None, g)
      | Some config \<Rightarrow>
          if \<not> config_read_only config then (None, g)
          else
            (case window_is_active now owner connection_id (write_windows g) of
               (active, w) \<Rightarrow> (if active then None else Some (config_name config), g\<lparr>write_windows := w\<rparr>)))"

section \<open>Lemmas\<close>

lemma check_statements_ok: "check_statements check sqls = Inr () \<longleftrightarrow> list_all (\<lambda>sql. check sql = Inr ()) sqls"
  by (induction sqls) (auto split: sum.split)

lemma check_read_only_ok:
  "check_read_only tok into jf sql name db = Inr () \<longleftrightarrow> \<not> is_write_sql_for_database tok into jf sql db"
  by (simp add: check_read_only_def)

text \<open>A configuration that is found belongs to the longest connection id the pool key starts with.\<close>

lemma longest_entry_greatest:
  assumes "longest_entry es best = Some e"
  shows "(e \<in> set es \<or> best = Some e) \<and> (\<forall>x\<in>set es. length (fst x) \<le> length (fst e)) \<and>
     (\<forall>b. best = Some b \<longrightarrow> length (fst b) \<le> length (fst e))"
  using assms
proof (induction es arbitrary: best)
  case (Cons x es)
  show ?case
  proof (cases best)
    case None
    then show ?thesis using Cons.IH [of "Some x"] Cons.prems by auto
  next
    case (Some b)
    show ?thesis
    proof (cases "length (fst b) \<le> length (fst x)")
      case True
      then show ?thesis using Cons.IH [of "Some x"] Cons.prems Some by fastforce
    next
      case False
      then show ?thesis using Cons.IH [of "Some b"] Cons.prems Some by fastforce
    qed
  qed
qed simp

text \<open>The databases whose scripts reach the SQL scan.\<close>

definition scans_sql :: "database_type \<Rightarrow> bool" where
  "scans_sql db \<longleftrightarrow> db \<notin> set [''Neo4j'', ''VictoriaMetrics'', ''DynamoDb'', ''Salesforce'', ''CouchDb'', ''Solr'',
     ''Elasticsearch'', ''Easysearch'']"

lemma is_write_scans_sql:
  "scans_sql db \<Longrightarrow> is_write_sql_for_database tok into jf sql db = is_write_sql_with_database_type tok into sql (Some db)"
  by (simp add: scans_sql_def is_write_sql_for_database_def classify_search_engine_query_risk_def)

text \<open>What the scan of a statement of a typed connection finds when it lets the statement through.\<close>

definition scan_clean :: "bool \<Rightarrow> string \<Rightarrow> bool" where
  "scan_clean checksum sql =
     (let cleaned = strip_sql_comments_and_literals sql; upper = to_uppercase (trim_start cleaned) in
      trim_start cleaned = [] \<or> starts_with_show_create upper \<or>
      starts_with_keyword upper ''PRAGMA'' \<and> is_safe_read_pragma upper \<or>
      (list_ex (starts_with_keyword upper) read_sql_keywords \<or>
         checksum \<and> starts_with_keyword upper ''CHECKSUM TABLE'') \<and>
      list_all (\<lambda>verb. \<not> whole_verb verb (to_lowercase cleaned)) dangerous_sql_keywords)"

lemma scan_clean_iff: "scan_clean checksum sql \<longleftrightarrow> \<not> is_write_sql_statement sql False False checksum"
  using statement_scan_iff [of sql False False checksum] undetected [of sql] by (simp add: scan_clean_def)

lemma check_scans_statements:
  assumes "scans_sql db"
  shows "check_read_only tok into json_from_str sql name db = Inr () \<longleftrightarrow>
     db = ''SqlServer'' \<and> is_sqlserver_plan_capture_set sql \<or>
     list_all (\<lambda>statement. \<not> is_write_sql_statement statement False False (db = ''Mysql'') \<and>
         \<not> has_dialect_specific_write_statement into statement db)
       (split_sql_statements_for_database tok sql db)"
  using assms
  by (auto simp: check_read_only_ok is_write_scans_sql is_write_sql_with_database_type_def has_dialect_specific_write_def
      list_ex_iff list_all_iff)

section \<open>Properties\<close>



text \<open>
  C24. On the PostgreSQL family, where \<^verbatim>\<open>#\<close> is an operator, the scan takes it for the start of a comment: a script
  that is one statement with a \<^verbatim>\<open>#\<close> after pieces of code, literals and comments, and no line break after it,
  passes the read-only check exactly when the text before the \<^verbatim>\<open>#\<close> does. Whatever follows, a DELETE included,
  is not looked at, except for an unquoted INTO.
\<close>

theorem hash_operator_hides_the_rest_of_the_line:
  assumes "is_postgresql_family_database db" and "sql_pieces_ok ps" and "CHR 10 \<notin> set rest"
    and "split_sql_statements_for_database tok (pieces_text ps @ CHR ''#'' # rest) db = [pieces_text ps @ CHR ''#'' # rest]"
    and "\<not> into db (pieces_text ps @ CHR ''#'' # rest)"
  shows "check_read_only tok into json_from_str (pieces_text ps @ CHR ''#'' # rest) name db = Inr () \<longleftrightarrow>
     \<not> is_write_sql_statement (pieces_text ps) False False False"
proof -
  have db: "scans_sql db" "db \<noteq> ''SqlServer''" "db \<noteq> ''Mysql''" "\<not> is_mysql_compatible_database db"
    using assms(1) by (auto simp: is_postgresql_family_database_def scans_sql_def is_mysql_compatible_database_def)
  show ?thesis
    using assms(1,5) db hash_ends_the_scan [OF assms(2,3), of False False]
    by (simp add: check_scans_statements assms(4) has_dialect_specific_write_statement_def)
qed

theorem hash_operator_hides_the_rest_of_the_line_witness:
  "check_read_only (\<lambda>_. None) (\<lambda>_ _. False) (\<lambda>_. None) ''WITH x AS (SELECT 1 # 2) DELETE FROM t'' ''db'' ''Postgres'' = Inr ()"
proof -
  let ?ps = "[CodePiece ''WITH x AS (SELECT 1 '']" and ?rest = "'' 2) DELETE FROM t''"
  have joined: "pieces_text ?ps @ CHR ''#'' # ?rest = ''WITH x AS (SELECT 1 # 2) DELETE FROM t''"
    by (simp add: pieces_text_def)
  have db: "is_postgresql_family_database ''Postgres''" and ok: "sql_pieces_ok ?ps" by code_simp+
  have split: "split_sql_statements_for_database (\<lambda>_. None) (pieces_text ?ps @ CHR ''#'' # ?rest) ''Postgres'' =
      [pieces_text ?ps @ CHR ''#'' # ?rest]" by code_simp
  have "\<not> is_write_sql_statement (pieces_text ?ps) False False False" by code_simp
  then show ?thesis
    using hash_operator_hides_the_rest_of_the_line [OF db ok _ split, of "\<lambda>_ _. False" "\<lambda>_. None" "''db''"]
    unfolding joined by simp
qed

text \<open>
  C3. On a read-only connection a batch with a write in it passes only while a write window is open: whatever
  the interleaving of unlocks, locks and readers, the current owner was granted a window on this very
  connection, it has not been locked since, and it has not run out. Nothing else opens the gate: not
  another owner's window, not a window on another connection, not a batch position.
\<close>

theorem write_passes_only_in_a_granted_window:
  assumes "unlock_run es unlock_init = Some s" and "write_windows g = windows s"
    and "config_for_pool_key pool_key (configs g) = Some config" and "config_read_only config"
    and "fst (check_read_only_for_connection_multi tok into json_from_str now owner g pool_key statements) = Inr ()"
    and "sql \<in> set statements" and "is_write_sql_for_database tok into json_from_str sql (config_db_type config)"
  shows "\<exists>x. granted_until es (current_unlock_key owner (config_id config)) = Some x \<and> now < x"
proof (rule active_was_granted [OF assms(1)], rule ccontr)
  obtain active w where window: "window_is_active now owner (config_id config) (windows s) = (active, w)" by fastforce
  assume "\<not> fst (window_is_active now owner (config_id config) (windows s))"
  then have "\<not> active" by (simp add: window)
  then have "check_statements (\<lambda>sql. check_read_only tok into json_from_str sql (config_name config) (config_db_type config))
      statements = Inr ()"
    using assms(5) by (simp add: check_read_only_for_connection_multi_def assms(2-4) window)
  then show False using assms(6,7) by (auto simp: check_statements_ok check_read_only_ok list_all_iff)
qed

theorem write_passes_only_in_a_granted_window_witness:
  "\<exists>x. granted_until [Unlock 0 None ''prod'' 60] (current_unlock_key None ''prod'') = Some x \<and> from_secs 1 < x"
proof -
  let ?config = "\<lparr>config_id = ''prod'', config_name = ''db'', config_db_type = ''Sqlite'', config_read_only = True\<rparr>"
  let ?key = "current_unlock_key None ''prod''"
  let ?g = "\<lparr>configs = [(''prod'', ?config)], write_windows = [(?key, from_secs 60)]\<rparr>"
  have named: "trim ''prod'' \<noteq> []" by code_simp
  have run: "unlock_run [Unlock 0 None ''prod'' 60] unlock_init = Some \<lparr>windows = [(?key, from_secs 60)], pending_removals = []\<rparr>"
    using named by (simp add: unlock_init_def unlock_window_def parse_duration_secs_def write_unlock_one_minute_secs_def hm_insert_def)
  have config: "config_for_pool_key ''prod:app'' (configs ?g) = Some ?config"
    by (simp add: config_for_pool_key_def pool_key_belongs_to_connection_def)
  have active: "fst (window_is_active (from_secs 1) None ''prod'' [(?key, from_secs 60)])"
    by (simp add: window_is_active_def remaining_then_remove hm_get_def from_secs_def as_millis_def)
  then have ok: "fst (check_read_only_for_connection_multi (\<lambda>_. None) (\<lambda>_ _. False) (\<lambda>_. None) (from_secs 1) None ?g
      ''prod:app'' [''DELETE FROM t'']) = Inr ()"
    using config by (simp add: check_read_only_for_connection_multi_def split_beta)
  have is_write: "is_write_sql_for_database (\<lambda>_. None) (\<lambda>_ _. False) (\<lambda>_. None) ''DELETE FROM t'' (config_db_type ?config)"
    by code_simp
  show ?thesis
    using write_passes_only_in_a_granted_window [OF run _ config _ ok _ is_write] by simp
qed

end
