(* ===== verification/Agent_Errors.thy ===== *)
theory Agent_Errors
  imports Json_Value "HOL-Library.Monad_Syntax"
begin

text \<open>
  Failures of the out-of-process database agent (\<^verbatim>\<open>crates/dbx-driver-agent/src/agent_driver.rs\<close>, the
  error part) and the recovery decisions taken on them (\<^verbatim>\<open>agent_recovery.rs\<close>). A failure is a typed
  value inside the agent corridor, is flattened to a string at the boundary with older code
  (\<open>into_legacy_string\<close>) and is decoded again on the other side (\<open>agent_error_from_legacy\<close>). The
  deserialisers that serde derives for the data of an error are written out from the attributes of
  the types; the printer and the streaming parser of JSON text are the two fields of an argument of
  type \<open>agent_codec\<close>.
\<close>

section \<open>Data\<close>

datatype agent_session_disposition = DispKeep | DispQuarantine | DispReplaceRuntime

definition disposition_as_str :: "agent_session_disposition \<Rightarrow> string" where
  "disposition_as_str d =
     (case d of DispKeep \<Rightarrow> ''keep'' | DispQuarantine \<Rightarrow> ''quarantine'' | DispReplaceRuntime \<Rightarrow> ''replace_runtime'')"

datatype agent_error_category = CatConnection | CatSql | CatResource | CatProtocol | CatTimeout | CatCanceled

datatype agent_error_stage =
  StRequest | StCheckout | StConnect | StValidate | StExecute | StFetch | StCancel | StClose

datatype agent_operation_outcome = NotStarted | OutcomeUnknown

record agent_error_context =
  contract_version :: nat
  category :: agent_error_category
  retryable :: bool
  session_disposition :: agent_session_disposition
  stage :: agent_error_stage
  operation_outcome :: agent_operation_outcome
  agent_session_id :: "string option"
  sql_state :: "string option"
  vendor_code :: "int option"
  exception_class :: "string option"

record legacy_agent_hints =
  hint_category :: "agent_error_category option"
  hint_retryable :: "bool option"
  hint_session_disposition :: "agent_session_disposition option"
  hint_stage :: "agent_error_stage option"
  hint_operation_outcome :: "agent_operation_outcome option"
  hint_agent_session_id :: "string option"

definition default_hints :: legacy_agent_hints where
  "default_hints = \<lparr>hint_category = None, hint_retryable = None, hint_session_disposition = None,
     hint_stage = None, hint_operation_outcome = None, hint_agent_session_id = None\<rparr>"

datatype contract_violation_reason =
    MissingContractVersion | UnsupportedContractVersion | InvalidDataShape | InvalidSessionId
  | InvalidCombination | MissingResultOrError | InvalidResult

datatype agent_call_error =
    Structured int string agent_error_context
  | LegacyError "int option" string legacy_agent_hints
  | ContractViolation "int option" string contract_violation_reason
  | TransportError string
  | CallTimeout agent_error_stage agent_operation_outcome
  | CallCanceled agent_error_stage agent_operation_outcome

record agent_codec =
  json_text :: "json \<Rightarrow> string"
  json_prefix :: "string \<Rightarrow> (json \<times> string) option"

section \<open>Names\<close>

definition category_name :: "agent_error_category \<Rightarrow> string" where
  "category_name c =
     (case c of CatConnection \<Rightarrow> ''connection'' | CatSql \<Rightarrow> ''sql'' | CatResource \<Rightarrow> ''resource''
      | CatProtocol \<Rightarrow> ''protocol'' | CatTimeout \<Rightarrow> ''timeout'' | CatCanceled \<Rightarrow> ''canceled'')"

definition stage_name :: "agent_error_stage \<Rightarrow> string" where
  "stage_name s =
     (case s of StRequest \<Rightarrow> ''request'' | StCheckout \<Rightarrow> ''checkout'' | StConnect \<Rightarrow> ''connect''
      | StValidate \<Rightarrow> ''validate'' | StExecute \<Rightarrow> ''execute'' | StFetch \<Rightarrow> ''fetch''
      | StCancel \<Rightarrow> ''cancel'' | StClose \<Rightarrow> ''close'')"

definition outcome_name :: "agent_operation_outcome \<Rightarrow> string" where
  "outcome_name outc = (case outc of NotStarted \<Rightarrow> ''not_started'' | OutcomeUnknown \<Rightarrow> ''unknown'')"

section \<open>Derived deserialisers\<close>

text \<open>
  A unit variant is read from its name, renamed to snake case, or from an object whose only entry
  maps the name to \<^verbatim>\<open>null\<close>.
\<close>

definition enum_from_value :: "(string \<times> 'a) list \<Rightarrow> json \<Rightarrow> 'a option" where
  "enum_from_value variants v =
     (case v of
        JString s \<Rightarrow> map_of variants s
      | JObject [(s, JNull)] \<Rightarrow> map_of variants s
      | _ \<Rightarrow> None)"

definition disposition_from_value :: "json \<Rightarrow> agent_session_disposition option" where
  "disposition_from_value = enum_from_value
     [(''keep'', DispKeep), (''quarantine'', DispQuarantine), (''replace_runtime'', DispReplaceRuntime)]"

definition category_from_value :: "json \<Rightarrow> agent_error_category option" where
  "category_from_value = enum_from_value
     [(''connection'', CatConnection), (''sql'', CatSql), (''resource'', CatResource),
      (''protocol'', CatProtocol), (''timeout'', CatTimeout), (''canceled'', CatCanceled)]"

definition stage_from_value :: "json \<Rightarrow> agent_error_stage option" where
  "stage_from_value = enum_from_value
     [(''request'', StRequest), (''checkout'', StCheckout), (''connect'', StConnect),
      (''validate'', StValidate), (''execute'', StExecute), (''fetch'', StFetch),
      (''cancel'', StCancel), (''close'', StClose)]"

definition outcome_from_value :: "json \<Rightarrow> agent_operation_outcome option" where
  "outcome_from_value = enum_from_value [(''not_started'', NotStarted), (''unknown'', OutcomeUnknown)]"

text \<open>
  A field of the object: required, or optional with \<^verbatim>\<open>null\<close> and absence both read as \<^verbatim>\<open>None\<close>. Numbers
  are parsed at the width of the field. Other entries of the object are ignored. The only caller
  has found the key \<^verbatim>\<open>contractVersion\<close> in the value, so the form of a struct as an array does not
  occur.
\<close>

definition required_field :: "(json \<Rightarrow> 'a option) \<Rightarrow> string \<Rightarrow> json \<Rightarrow> 'a option" where
  "required_field from_value key v = Option.bind (json_get key v) from_value"

definition default_field :: "(json \<Rightarrow> 'a option) \<Rightarrow> string \<Rightarrow> json \<Rightarrow> 'a option option" where
  "default_field from_value key v =
     (case json_get key v of
        None \<Rightarrow> Some None
      | Some JNull \<Rightarrow> Some None
      | Some x \<Rightarrow> map_option Some (from_value x))"

definition json_u8 :: "json \<Rightarrow> nat option" where
  "json_u8 v = (case v of JNumber s \<Rightarrow> parse_unsigned (2 ^ 8) s | _ \<Rightarrow> None)"

definition json_i32 :: "json \<Rightarrow> int option" where
  "json_i32 v = (case v of JNumber s \<Rightarrow> parse_signed (2 ^ 31) s | _ \<Rightarrow> None)"

definition context_from_value :: "json \<Rightarrow> agent_error_context option" where
  "context_from_value v =
     (if \<not> json_is_object v then None
      else do {
        version \<leftarrow> required_field json_u8 ''contractVersion'' v;
        cat \<leftarrow> required_field category_from_value ''category'' v;
        retry \<leftarrow> required_field json_as_bool ''retryable'' v;
        disposition \<leftarrow> required_field disposition_from_value ''sessionDisposition'' v;
        st \<leftarrow> required_field stage_from_value ''stage'' v;
        result \<leftarrow> required_field outcome_from_value ''operationOutcome'' v;
        session \<leftarrow> default_field json_as_str ''agentSessionId'' v;
        state \<leftarrow> default_field json_as_str ''sqlState'' v;
        vendor \<leftarrow> default_field json_i32 ''vendorCode'' v;
        ex_class \<leftarrow> default_field json_as_str ''exceptionClass'' v;
        Some \<lparr>contract_version = version, category = cat, retryable = retry,
          session_disposition = disposition, stage = st, operation_outcome = result,
          agent_session_id = session, sql_state = state, vendor_code = vendor,
          exception_class = ex_class\<rparr>
      })"

section \<open>Stages\<close>

text \<open>The stage an RPC method fails in, and whether the operation can have started by then.\<close>

definition agent_error_stage_of :: "string \<Rightarrow> agent_error_stage" where
  "agent_error_stage_of m =
     (if m = ''handshake'' then StRequest
      else if m \<in> set [''connect'', ''open_session'', ''test_connection''] then StConnect
      else if m \<in> set [''validate_connection'', ''validate_session''] then StValidate
      else if m = ''cancel_session'' then StCancel
      else if m \<in> set [''close_session'', ''disconnect'', ''shutdown'', ''close_query_session'',
                       ''close_table_read_session''] then StClose
      else if m \<in> set [''fetch_query_page'', ''fetch_table_read_page''] then StFetch
      else StExecute)"

definition agent_operation_outcome_of :: "string \<Rightarrow> agent_operation_outcome" where
  "agent_operation_outcome_of m =
     (if agent_error_stage_of m \<in> set [StRequest, StCheckout, StConnect, StValidate]
      then NotStarted else OutcomeUnknown)"

section \<open>The contract of structured errors\<close>

definition is_ascii_graphic :: "char \<Rightarrow> bool" where
  "is_ascii_graphic c \<longleftrightarrow> 33 \<le> char_code c \<and> char_code c \<le> 126"

definition valid_ascii_diagnostic :: "string option \<Rightarrow> nat \<Rightarrow> bool" where
  "valid_ascii_diagnostic v max_length =
     (case v of None \<Rightarrow> True
      | Some s \<Rightarrow> s \<noteq> [] \<and> length s \<le> max_length \<and> list_all is_ascii_graphic s)"

definition valid_ascii_identifier :: "string \<Rightarrow> bool" where
  "valid_ascii_identifier s \<longleftrightarrow> s \<noteq> [] \<and> list_all is_ascii_graphic s"

definition valid_agent_error_combination :: "agent_error_context \<Rightarrow> bool" where
  "valid_agent_error_combination c \<longleftrightarrow>
     operation_outcome c =
       (if stage c \<in> set [StRequest, StCheckout, StConnect, StValidate] then NotStarted else OutcomeUnknown) \<and>
     (case category c of
        CatConnection \<Rightarrow> session_disposition c \<noteq> DispReplaceRuntime
      | CatSql \<Rightarrow> stage c \<in> set [StExecute, StFetch, StCancel, StClose] \<and>
                  session_disposition c \<noteq> DispReplaceRuntime
      | CatResource \<Rightarrow> session_disposition c = DispReplaceRuntime \<or> operation_outcome c = NotStarted
      | CatProtocol \<Rightarrow> session_disposition c \<noteq> DispReplaceRuntime \<or> operation_outcome c = OutcomeUnknown
      | _ \<Rightarrow> session_disposition c = DispQuarantine) \<and>
     valid_ascii_diagnostic (sql_state c) 16 \<and>
     valid_ascii_diagnostic (exception_class c) 160 \<and>
     (case agent_session_id c of None \<Rightarrow> True | Some i \<Rightarrow> valid_ascii_identifier i)"

definition parse_structured_error_context ::
  "json \<Rightarrow> string option \<Rightarrow> contract_violation_reason + agent_error_context" where
  "parse_structured_error_context data expected =
     (case json_get ''contractVersion'' data of
        None \<Rightarrow> Inl MissingContractVersion
      | Some v \<Rightarrow>
          (case json_as_u64 v of
             None \<Rightarrow> Inl InvalidDataShape
           | Some n \<Rightarrow>
               if n \<noteq> 1 then Inl UnsupportedContractVersion
               else
                 (case context_from_value data of
                    None \<Rightarrow> Inl InvalidDataShape
                  | Some c \<Rightarrow>
                      if contract_version c \<noteq> 1 then Inl UnsupportedContractVersion
                      else if expected \<noteq> None \<and> agent_session_id c \<noteq> expected then Inl InvalidSessionId
                      else if \<not> valid_agent_error_combination c then Inl InvalidCombination
                      else Inr c)))"

definition legacy_agent_hints_of :: "json \<Rightarrow> legacy_agent_hints" where
  "legacy_agent_hints_of data =
     \<lparr>hint_category = Option.bind (json_get ''category'' data) category_from_value,
      hint_retryable = Option.bind (json_get ''retryable'' data) json_as_bool,
      hint_session_disposition =
        (case Option.bind (json_get ''sessionDisposition'' data) json_as_str of
           None \<Rightarrow> None
         | Some s \<Rightarrow>
             if s = ''keep'' then Some DispKeep
             else if s = ''quarantine'' then Some DispQuarantine
             else if s = ''replace_runtime'' then Some DispReplaceRuntime
             else None),
      hint_stage = Option.bind (json_get ''stage'' data) stage_from_value,
      hint_operation_outcome = Option.bind (json_get ''operationOutcome'' data) outcome_from_value,
      hint_agent_session_id = Option.bind (json_get ''agentSessionId'' data) json_as_str\<rparr>"

definition parse_agent_call_error :: "json \<Rightarrow> bool \<Rightarrow> string option \<Rightarrow> agent_call_error" where
  "parse_agent_call_error error strict expected =
     (let rpc_code = Option.bind (json_get ''code'' error) json_as_i64;
          message = (case Option.bind (json_get ''message'' error) json_as_str of
                       Some m \<Rightarrow> m | None \<Rightarrow> ''Unknown agent error'');
          data = json_get ''data'' error
      in
      if \<not> strict then
        LegacyError rpc_code message
          (case data of None \<Rightarrow> default_hints | Some d \<Rightarrow> legacy_agent_hints_of d)
      else
        (case data of
           None \<Rightarrow> ContractViolation rpc_code message MissingContractVersion
         | Some d \<Rightarrow>
             if \<not> json_is_object d then ContractViolation rpc_code message MissingContractVersion
             else
               (case parse_structured_error_context d expected of
                  Inr c \<Rightarrow> Structured (case rpc_code of Some n \<Rightarrow> n | None \<Rightarrow> - 1) message c
                | Inl reason \<Rightarrow> ContractViolation rpc_code message reason)))"

section \<open>The legacy string form\<close>

definition agent_rpc_error_data_marker :: string where
  "agent_rpc_error_data_marker = CHR 10 # ''DBX_AGENT_ERROR_DATA:''"

definition format_agent_rpc_error_parts :: "agent_codec \<Rightarrow> int \<Rightarrow> string \<Rightarrow> json option \<Rightarrow> string" where
  "format_agent_rpc_error_parts codec rpc_code message data =
     ''Agent RPC error ('' @ show_int rpc_code @ ''): '' @ message @
     (case data of None \<Rightarrow> [] | Some d \<Rightarrow> agent_rpc_error_data_marker @ json_text codec d)"

text \<open>The two \<^verbatim>\<open>json!\<close> values of \<^verbatim>\<open>into_legacy_string\<close>.\<close>

definition context_json :: "agent_error_context \<Rightarrow> json" where
  "context_json c = JObject
     [(''contractVersion'', JNumber (show_nat (contract_version c))),
      (''category'', JString (category_name (category c))),
      (''retryable'', JBool (retryable c)),
      (''sessionDisposition'', JString (disposition_as_str (session_disposition c))),
      (''stage'', JString (stage_name (stage c))),
      (''operationOutcome'', JString (outcome_name (operation_outcome c))),
      (''agentSessionId'', json_opt JString (agent_session_id c)),
      (''sqlState'', json_opt JString (sql_state c)),
      (''vendorCode'', json_opt (JNumber \<circ> show_int) (vendor_code c)),
      (''exceptionClass'', json_opt JString (exception_class c))]"

definition hints_json :: "legacy_agent_hints \<Rightarrow> json" where
  "hints_json h = JObject
     [(''category'', json_opt (JString \<circ> category_name) (hint_category h)),
      (''retryable'', json_opt JBool (hint_retryable h)),
      (''sessionDisposition'', json_opt (JString \<circ> disposition_as_str) (hint_session_disposition h)),
      (''stage'', json_opt (JString \<circ> stage_name) (hint_stage h)),
      (''operationOutcome'', json_opt (JString \<circ> outcome_name) (hint_operation_outcome h)),
      (''agentSessionId'', json_opt JString (hint_agent_session_id h))]"

definition into_legacy_string :: "agent_codec \<Rightarrow> agent_call_error \<Rightarrow> string" where
  "into_legacy_string codec e =
     (case e of
        Structured rpc_code message c \<Rightarrow>
          format_agent_rpc_error_parts codec rpc_code message (Some (context_json c))
      | LegacyError rpc_code message h \<Rightarrow>
          format_agent_rpc_error_parts codec (case rpc_code of Some n \<Rightarrow> n | None \<Rightarrow> - 1) message
            (Some (hints_json h))
      | ContractViolation rpc_code message _ \<Rightarrow>
          format_agent_rpc_error_parts codec (case rpc_code of Some n \<Rightarrow> n | None \<Rightarrow> - 1) message
            (Some (JObject [(''contractVersion'', JNumber ''1'')]))
      | TransportError message \<Rightarrow> message
      | CallTimeout st _ \<Rightarrow> ''Agent RPC call timed out at '' @ stage_name st
      | CallCanceled _ _ \<Rightarrow> ''Query canceled'')"

text \<open>
  The markers of \<^verbatim>\<open>is_legacy_connection_message\<close> that lie in the modelled character range; the four
  Chinese markers of the source cannot occur in a modelled string.
\<close>

definition is_legacy_connection_message :: "string \<Rightarrow> bool" where
  "is_legacy_connection_message message =
     list_ex (\<lambda>marker. str_contains marker (to_ascii_lowercase message))
       [''connection lost'', ''connection reset'', ''broken pipe'', ''communications link failure'',
        ''sqlrecoverableexception'', ''sqlnontransientconnectionexception'',
        ''sqltransientconnectionexception'', ''network communication'', ''not connected'',
        ''end of stream'', ''end-of-file'']"

definition is_agent_rpc_response_error :: "string \<Rightarrow> bool" where
  "is_agent_rpc_response_error message = starts_with ''Agent RPC error ('' (trim_start message)"

definition parse_agent_rpc_error_header :: "string \<Rightarrow> int option \<times> string" where
  "parse_agent_rpc_error_header header =
     (let p = ''Agent RPC error ('' in
      if \<not> starts_with p header then (None, header)
      else (case split_once ''): '' (drop (length p) header) of
              None \<Rightarrow> (None, header)
            | Some (rpc_code, message) \<Rightarrow> (parse_signed (2 ^ 63) rpc_code, message)))"

definition with_legacy_session_id :: "agent_call_error \<Rightarrow> string option \<Rightarrow> agent_call_error" where
  "with_legacy_session_id e i =
     (case (e, i) of
        (LegacyError n m h, Some s) \<Rightarrow>
          LegacyError n m (h\<lparr>hint_agent_session_id :=
             (case hint_agent_session_id h of None \<Rightarrow> Some s | Some t \<Rightarrow> Some t)\<rparr>)
      | _ \<Rightarrow> e)"

definition legacy_agent_call_error :: "agent_codec \<Rightarrow> string \<Rightarrow> string option \<Rightarrow> agent_call_error" where
  "legacy_agent_call_error codec error session =
     (if \<not> is_agent_rpc_response_error error then TransportError error
      else
        (let (header, data, suffix) =
           (case rsplit_once agent_rpc_error_data_marker error of
              None \<Rightarrow> (error, None, [])
            | Some (header, text) \<Rightarrow>
                (case json_prefix codec text of
                   Some (v, suffix) \<Rightarrow> (header, Some v, suffix)
                 | None \<Rightarrow> (header, None, [])));
           (rpc_code, message) = parse_agent_rpc_error_header (header @ suffix)
         in
         case (case data of Some d \<Rightarrow> if json_get ''contractVersion'' d \<noteq> None then Some d else None
               | None \<Rightarrow> None) of
           Some d \<Rightarrow>
             (case parse_structured_error_context d session of
                Inr c \<Rightarrow> Structured (case rpc_code of Some n \<Rightarrow> n | None \<Rightarrow> - 1) message c
              | Inl reason \<Rightarrow> ContractViolation rpc_code message reason)
         | None \<Rightarrow>
             (let hints = (case data of None \<Rightarrow> default_hints | Some d \<Rightarrow> legacy_agent_hints_of d);
                  hints' =
                    (if hint_category hints = None \<and> is_legacy_connection_message message
                     then hints\<lparr>hint_category := Some CatConnection,
                            hint_session_disposition :=
                              (case hint_session_disposition hints of
                                 None \<Rightarrow> Some DispQuarantine | Some d \<Rightarrow> Some d)\<rparr>
                     else hints)
              in with_legacy_session_id (LegacyError rpc_code message hints') session)))"

definition agent_error_from_legacy :: "agent_codec \<Rightarrow> string \<Rightarrow> string option \<Rightarrow> agent_call_error" where
  "agent_error_from_legacy codec error expected =
     (if error = ''Query canceled'' then CallCanceled StCancel OutcomeUnknown
      else if starts_with ''agent rpc call timed out'' (to_ascii_lowercase error)
      then CallTimeout StExecute OutcomeUnknown
      else legacy_agent_call_error codec error expected)"

definition try_agent_error_from_legacy :: "agent_codec \<Rightarrow> string \<Rightarrow> agent_call_error option" where
  "try_agent_error_from_legacy codec error =
     (let lower = to_ascii_lowercase error;
          is_local_agent_failure =
            error = ''Query canceled'' \<or> starts_with ''agent rpc call timed out'' lower \<or>
            list_ex (\<lambda>m. str_contains m lower)
              [''agent stdin not available'', ''agent stdout not available'', ''agent runtime terminated'',
               ''agent runtime is unavailable'', ''agent runtime unavailable'',
               ''failed to write to agent stdin'', ''failed to flush agent stdin'', ''agent rpc task failed'']
      in if is_agent_rpc_response_error error \<or> is_local_agent_failure
         then Some (agent_error_from_legacy codec error None) else None)"

definition append_legacy_error_context :: "string \<Rightarrow> string \<Rightarrow> string" where
  "append_legacy_error_context error context_text =
     (if str_contains context_text error then error
      else (case rsplit_once agent_rpc_error_data_marker error of
              Some (header, data) \<Rightarrow>
                header @ CHR 10 # context_text @ agent_rpc_error_data_marker @ data
            | None \<Rightarrow> error @ CHR 10 # context_text))"

definition append_legacy_agent_session_id :: "agent_codec \<Rightarrow> string \<Rightarrow> string \<Rightarrow> string" where
  "append_legacy_agent_session_id codec error i =
     (let fallback = error @ agent_rpc_error_data_marker @ json_text codec (JObject [(''agentSessionId'', JString i)])
      in case rsplit_once agent_rpc_error_data_marker error of
           None \<Rightarrow> fallback
         | Some (header, text) \<Rightarrow>
             (case json_prefix codec text of
                Some (JObject es, suffix) \<Rightarrow>
                  header @ agent_rpc_error_data_marker @
                  json_text codec (JObject (AList.update ''agentSessionId'' (JString i) es)) @ suffix
              | _ \<Rightarrow> fallback))"

section \<open>Accessors and recovery\<close>

definition session_id :: "agent_call_error \<Rightarrow> string option" where
  "session_id e = (case e of Structured _ _ c \<Rightarrow> agent_session_id c
     | LegacyError _ _ h \<Rightarrow> hint_agent_session_id h | _ \<Rightarrow> None)"

definition error_disposition :: "agent_call_error \<Rightarrow> agent_session_disposition option" where
  "error_disposition e = (case e of Structured _ _ c \<Rightarrow> Some (session_disposition c)
     | LegacyError _ _ h \<Rightarrow> hint_session_disposition h | _ \<Rightarrow> None)"

definition error_category :: "agent_call_error \<Rightarrow> agent_error_category option" where
  "error_category e = (case e of Structured _ _ c \<Rightarrow> Some (category c)
     | LegacyError _ _ h \<Rightarrow> hint_category h | CallTimeout _ _ \<Rightarrow> Some CatTimeout
     | CallCanceled _ _ \<Rightarrow> Some CatCanceled | _ \<Rightarrow> None)"

definition error_operation_outcome :: "agent_call_error \<Rightarrow> agent_operation_outcome" where
  "error_operation_outcome e = (case e of Structured _ _ c \<Rightarrow> operation_outcome c
     | LegacyError _ _ h \<Rightarrow> (case hint_operation_outcome h of Some r \<Rightarrow> r | None \<Rightarrow> OutcomeUnknown)
     | CallTimeout _ r \<Rightarrow> r | CallCanceled _ r \<Rightarrow> r | _ \<Rightarrow> OutcomeUnknown)"

definition into_legacy_string_with_session_id ::
  "agent_codec \<Rightarrow> agent_call_error \<Rightarrow> string option \<Rightarrow> string" where
  "into_legacy_string_with_session_id codec e i =
     (let message = into_legacy_string codec e in
      case (session_id e, i) of
        (None, Some s) \<Rightarrow> append_legacy_agent_session_id codec message s
      | _ \<Rightarrow> message)"

datatype recovery_scope = UserOperation | ReadOnlyMetadata bool | Keepalive | ConnectionOpen

datatype recovery_decision = KeepSession | RetryReadOnlyMetadata | QuarantineSession | ReplaceRuntime

definition discards_session :: "recovery_decision \<Rightarrow> bool" where
  "discards_session d \<longleftrightarrow> d \<noteq> KeepSession"

definition replaces_runtime :: "recovery_decision \<Rightarrow> bool" where
  "replaces_runtime d \<longleftrightarrow> d = ReplaceRuntime"

definition from_disposition ::
  "agent_session_disposition option \<Rightarrow> agent_error_category option \<Rightarrow> recovery_scope \<Rightarrow> recovery_decision" where
  "from_disposition d cat scope =
     (case d of
        Some DispReplaceRuntime \<Rightarrow> ReplaceRuntime
      | Some DispQuarantine \<Rightarrow>
          if cat = Some CatConnection \<and> scope = ReadOnlyMetadata False
          then RetryReadOnlyMetadata else QuarantineSession
      | Some DispKeep \<Rightarrow> KeepSession
      | None \<Rightarrow> KeepSession)"

definition decide :: "agent_call_error \<Rightarrow> recovery_scope \<Rightarrow> recovery_decision" where
  "decide e scope =
     (case e of
        ContractViolation _ _ _ \<Rightarrow> QuarantineSession
      | TransportError _ \<Rightarrow> ReplaceRuntime
      | CallTimeout _ _ \<Rightarrow> QuarantineSession
      | CallCanceled _ _ \<Rightarrow> QuarantineSession
      | Structured _ _ c \<Rightarrow>
          if category c = CatTimeout \<or> category c = CatCanceled then QuarantineSession
          else from_disposition (Some (session_disposition c)) (Some (category c)) scope
      | LegacyError _ _ h \<Rightarrow> from_disposition (hint_session_disposition h) (hint_category h) scope)"

definition agent_recovery_decision :: "agent_codec \<Rightarrow> string \<Rightarrow> recovery_scope \<Rightarrow> recovery_decision" where
  "agent_recovery_decision codec error scope = decide (agent_error_from_legacy codec error None) scope"

section \<open>Lemmas\<close>

text \<open>What the round trip needs of the JSON library at a value: it reads back, and is on one line.\<close>

definition codec_faithful :: "agent_codec \<Rightarrow> json \<Rightarrow> bool" where
  "codec_faithful codec v \<longleftrightarrow>
     json_prefix codec (json_text codec v) = Some (v, []) \<and> CHR 10 \<notin> set (json_text codec v)"

lemma not_local_failure:
  "agent_error_from_legacy codec (''Agent RPC error ('' @ rest) expected =
     legacy_agent_call_error codec (''Agent RPC error ('' @ rest) expected"
  by (simp add: agent_error_from_legacy_def to_ascii_lowercase_def is_ascii_upper_def char_code_def)

lemma is_rpc_error: "is_agent_rpc_response_error (''Agent RPC error ('' @ rest)"
  by (simp add: is_agent_rpc_response_error_def trim_start_def is_whitespace_def char_code_def)

lemma parse_header:
  assumes "- (2 ^ 63) \<le> n" and "n < 2 ^ 63"
  shows "parse_agent_rpc_error_header (''Agent RPC error ('' @ show_int n @ ''): '' @ message) = (Some n, message)"
proof -
  have "split_once ''): '' (show_int n @ ''): '' @ message) = Some (show_int n, message)"
    using show_int_chars [of "CHR '')''" n]
    by (intro split_once_here) (auto simp: is_ascii_digit_def char_code_def)
  then show ?thesis using assms by (simp add: parse_agent_rpc_error_header_def Let_def)
qed

lemma rsplit_marker:
  "CHR 10 \<notin> set data \<Longrightarrow> rsplit_once agent_rpc_error_data_marker (header @ agent_rpc_error_data_marker @ data)
     = Some (header, data)"
  by (rule rsplit_once_last) (auto simp: agent_rpc_error_data_marker_def)

lemma format_parts_append:
  "format_agent_rpc_error_parts codec n message (Some d) =
     ''Agent RPC error ('' @ (show_int n @ ''): '' @ message) @ agent_rpc_error_data_marker @ json_text codec d"
  by (simp add: format_agent_rpc_error_parts_def)

text \<open>The vendor code of a context is an \<^verbatim>\<open>i32\<close>.\<close>

definition context_in_range :: "agent_error_context \<Rightarrow> bool" where
  "context_in_range c \<longleftrightarrow>
     contract_version c < 2 ^ 8 \<and>
     (case vendor_code c of None \<Rightarrow> True | Some v \<Rightarrow> - (2 ^ 31) \<le> v \<and> v < 2 ^ 31)"

lemma category_round_trip [simp]: "category_from_value (JString (category_name x)) = Some x"
  by (cases x) (simp_all add: category_from_value_def enum_from_value_def category_name_def)

lemma stage_round_trip [simp]: "stage_from_value (JString (stage_name x)) = Some x"
  by (cases x) (simp_all add: stage_from_value_def enum_from_value_def stage_name_def)

lemma outcome_round_trip [simp]: "outcome_from_value (JString (outcome_name x)) = Some x"
  by (cases x) (simp_all add: outcome_from_value_def enum_from_value_def outcome_name_def)

lemma disposition_round_trip [simp]: "disposition_from_value (JString (disposition_as_str x)) = Some x"
  by (cases x) (simp_all add: disposition_from_value_def enum_from_value_def disposition_as_str_def)

lemma required_field_get:
  "json_get key v = Some x \<Longrightarrow> required_field f key v = f x"
  by (simp add: required_field_def)

lemma default_field_get:
  "json_get key v = Some (json_opt g x) \<Longrightarrow> (\<And>y. x = Some y \<Longrightarrow> g y \<noteq> JNull \<and> f (g y) = Some y) \<Longrightarrow>
   default_field f key v = Some x"
  by (cases x) (auto simp: default_field_def json_opt_def split: json.splits)

lemma context_round_trip:
  assumes "context_in_range c"
  shows "context_from_value (context_json c) = Some c"
proof -
  let ?v = "context_json c"
  note get = context_json_def json_get_def
  have "default_field json_as_str ''agentSessionId'' ?v = Some (agent_session_id c)"
       "default_field json_as_str ''sqlState'' ?v = Some (sql_state c)"
       "default_field json_as_str ''exceptionClass'' ?v = Some (exception_class c)"
    by (rule default_field_get [where g = JString]; simp add: get json_as_str_def)+
  moreover have "default_field json_i32 ''vendorCode'' ?v = Some (vendor_code c)"
    using assms
    by (intro default_field_get [where g = "JNumber \<circ> show_int"])
      (auto simp: get json_i32_def context_in_range_def)
  moreover have "required_field json_u8 ''contractVersion'' ?v = Some (contract_version c)"
    using assms by (simp add: required_field_def get json_u8_def context_in_range_def)
  ultimately show ?thesis
    by (simp add: context_from_value_def required_field_def)
       (simp add: get json_is_object_def json_as_bool_def)
qed

lemma decode_structured:
  assumes codec: "codec_faithful codec (context_json c)" and range: "context_in_range c"
    and c: "contract_version c = 1" "valid_agent_error_combination c"
    and expected: "expected = None \<or> expected = agent_session_id c"
    and n: "- (2 ^ 63) \<le> n" "n < 2 ^ 63"
  shows "agent_error_from_legacy codec (format_agent_rpc_error_parts codec n message (Some (context_json c))) expected
           = Structured n message c"
proof -
  let ?s = "format_agent_rpc_error_parts codec n message (Some (context_json c))"
  have version: "json_get ''contractVersion'' (context_json c) = Some (JNumber (show_nat 1))"
    using c(1) by (simp add: context_json_def json_get_def)
  have context_ok: "parse_structured_error_context (context_json c) expected = Inr c"
    using context_round_trip [OF range] c expected
    by (auto simp: parse_structured_error_context_def version json_as_u64_def)
  have split: "rsplit_once agent_rpc_error_data_marker ?s =
      Some (''Agent RPC error ('' @ show_int n @ ''): '' @ message, json_text codec (context_json c))"
    using codec rsplit_marker [of _ "''Agent RPC error ('' @ show_int n @ ''): '' @ message"]
    by (simp add: format_agent_rpc_error_parts_def codec_faithful_def)
  have rpc: "is_agent_rpc_response_error ?s"
    unfolding format_agent_rpc_error_parts_def by (rule is_rpc_error)
  have "agent_error_from_legacy codec ?s expected = legacy_agent_call_error codec ?s expected"
    unfolding format_agent_rpc_error_parts_def by (rule not_local_failure)
  also have "\<dots> = Structured n message c"
    using codec parse_header [OF n, of message]
    by (simp add: legacy_agent_call_error_def rpc split codec_faithful_def version context_ok)
  finally show ?thesis .
qed

lemma append_context_parts:
  assumes "CHR 10 \<notin> set (json_text codec d)"
    and "\<not> str_contains t (format_agent_rpc_error_parts codec n message (Some d))"
  shows "append_legacy_error_context (format_agent_rpc_error_parts codec n message (Some d)) t =
           format_agent_rpc_error_parts codec n (message @ CHR 10 # t) (Some d)"
  using assms rsplit_marker [OF assms(1), of "''Agent RPC error ('' @ show_int n @ ''): '' @ message"]
  by (simp add: append_legacy_error_context_def format_agent_rpc_error_parts_def)

section \<open>Properties\<close>

text \<open>
  C15. A structured agent error survives the flattening to a string: decoding what
  \<open>into_legacy_string\<close> wrote gives the same code, message and context, whatever the message contains
  (even the data marker itself), and a context line appended on the way ends up in the message and
  leaves the structured part intact. The derived deserialiser of the context is part of the model;
  of the JSON library it is assumed that the text it prints for the context has no line break and
  is read back as the same value. The error has contract version 1, a combination of fields that
  the contract allows, a code in the range of \<^verbatim>\<open>i64\<close> and a vendor code in the range of \<^verbatim>\<open>i32\<close>, and
  the session expected by the reader, if any, is that of the error.
\<close>

theorem structured_error_survives_the_string_boundary:
  assumes "codec_faithful codec (context_json c)" and "context_in_range c"
    and "contract_version c = 1" and "valid_agent_error_combination c"
    and "expected = None \<or> expected = agent_session_id c"
    and "- (2 ^ 63) \<le> n" and "n < 2 ^ 63"
  shows "agent_error_from_legacy codec (into_legacy_string codec (Structured n message c)) expected
           = Structured n message c \<and>
         (\<not> str_contains t (into_legacy_string codec (Structured n message c)) \<longrightarrow>
          agent_error_from_legacy codec
            (append_legacy_error_context (into_legacy_string codec (Structured n message c)) t) expected
              = Structured n (message @ CHR 10 # t) c)"
  using assms decode_structured [OF assms] by (simp add: into_legacy_string_def append_context_parts codec_faithful_def)

definition sample_context :: agent_error_context where
  "sample_context = \<lparr>contract_version = 1, category = CatSql, retryable = False,
     session_disposition = DispKeep, stage = StExecute, operation_outcome = OutcomeUnknown,
     agent_session_id = Some ''s1'', sql_state = Some ''42000'', vendor_code = Some (- 7),
     exception_class = None\<rparr>"

text \<open>A compact JSON printer and a parser for it, for the examples.\<close>

definition print_string :: "string \<Rightarrow> string" where
  "print_string s = CHR 34 # concat (map (\<lambda>c. if c = CHR 34 \<or> c = CHR 92 then [CHR 92, c]
     else if c = CHR 10 then [CHR 92, CHR ''n''] else [c]) s) @ [CHR 34]"

fun print_json :: "json \<Rightarrow> string" where
  "print_json JNull = ''null''"
| "print_json (JBool b) = (if b then ''true'' else ''false'')"
| "print_json (JNumber n) = n"
| "print_json (JString s) = print_string s"
| "print_json (JArray vs) = ''['' @ concat (map (\<lambda>v. print_json v @ '','') vs) @ '']''"
| "print_json (JObject es) = CHR 123 # concat (map (\<lambda>(k, v). print_string k @ '':'' @ print_json v @ '','') es) @ [CHR 125]"

fun read_string :: "string \<Rightarrow> (string \<times> string) option" where
  "read_string [] = None"
| "read_string (c # cs) =
     (if c = CHR 34 then Some ([], cs)
      else if c = CHR 92 then
        (case cs of [] \<Rightarrow> None
         | d # ds \<Rightarrow> map_option (\<lambda>(s, rest). ((if d = CHR ''n'' then CHR 10 else d) # s, rest)) (read_string ds))
      else map_option (\<lambda>(s, rest). (c # s, rest)) (read_string cs))"

fun read_json :: "nat \<Rightarrow> string \<Rightarrow> (json \<times> string) option"
  and read_entries :: "nat \<Rightarrow> string \<Rightarrow> ((string \<times> json) list \<times> string) option" where
  "read_json 0 _ = None"
| "read_json (Suc n) cs =
     (if starts_with ''null'' cs then Some (JNull, drop 4 cs)
      else if starts_with ''true'' cs then Some (JBool True, drop 4 cs)
      else if starts_with ''false'' cs then Some (JBool False, drop 5 cs)
      else (case cs of
        [] \<Rightarrow> None
      | c # ds \<Rightarrow>
          if c = CHR 34 then map_option (\<lambda>(s, rest). (JString s, rest)) (read_string ds)
          else if c = CHR 123 then map_option (\<lambda>(es, rest). (JObject es, rest)) (read_entries n ds)
          else (let digits = takeWhile (\<lambda>d. is_ascii_digit d \<or> d = CHR ''-'') cs in
                if digits = [] then None else Some (JNumber digits, drop (length digits) cs))))"
| "read_entries 0 _ = None"
| "read_entries (Suc n) cs =
     (case cs of
        [] \<Rightarrow> None
      | c # ds \<Rightarrow>
          if c = CHR 125 then Some ([], ds)
          else (case read_string ds of
             None \<Rightarrow> None
           | Some (key, rest) \<Rightarrow>
               (case read_json n (drop 1 rest) of
                  None \<Rightarrow> None
                | Some (v, rest') \<Rightarrow>
                    map_option (\<lambda>(es, rest''). ((key, v) # es, rest'')) (read_entries n (drop 1 rest')))))"

definition sample_codec :: agent_codec where
  "sample_codec = \<lparr>json_text = print_json, json_prefix = (\<lambda>s. read_json (length s) s)\<rparr>"

lemma sample_codec_faithful: "codec_faithful sample_codec (context_json sample_context)"
  by code_simp

theorem structured_error_survives_the_string_boundary_witness:
  "agent_error_from_legacy sample_codec
     (into_legacy_string sample_codec (Structured (- 32001) ''boom'' sample_context)) (Some ''s1'')
     = Structured (- 32001) ''boom'' sample_context"
proof (rule structured_error_survives_the_string_boundary [THEN conjunct1])
  show "codec_faithful sample_codec (context_json sample_context)" by (rule sample_codec_faithful)
  show "valid_agent_error_combination sample_context" by code_simp
qed (simp_all add: context_in_range_def sample_context_def)

text \<open>
  C18. Recovery never repeats work that may have had an effect. The decision to retry is taken exactly
  for a connection failure with a quarantined session of a structured or legacy error, inside a
  read-only metadata request that has not been retried; so a user operation is never retried, no
  request is retried twice, and timeouts, cancellations, contract violations and transport failures
  never lead to a retry and never keep the session.
\<close>

theorem retry_only_unretried_metadata:
  "(decide e scope = RetryReadOnlyMetadata \<longleftrightarrow>
      scope = ReadOnlyMetadata False \<and> error_category e = Some CatConnection \<and>
      error_disposition e = Some DispQuarantine) \<and>
   (decide e scope = KeepSession \<longrightarrow> error_disposition e \<in> {None, Some DispKeep} \<and>
      ((\<exists>n m c. e = Structured n m c \<and> category c \<notin> {CatTimeout, CatCanceled}) \<or>
       (\<exists>n m h. e = LegacyError n m h))) \<and>
   (discards_session (decide e scope) \<longleftrightarrow> discards_session (decide e UserOperation)) \<and>
   (replaces_runtime (decide e scope) \<longleftrightarrow> replaces_runtime (decide e UserOperation))"
  by (cases e)
    (auto simp: decide_def from_disposition_def error_category_def error_disposition_def
       discards_session_def replaces_runtime_def
       split: option.splits agent_session_disposition.splits)

theorem retry_only_unretried_metadata_witness:
  "decide (Structured 1 ''x'' (sample_context\<lparr>category := CatConnection, session_disposition := DispQuarantine\<rparr>))
     (ReadOnlyMetadata False) = RetryReadOnlyMetadata \<and>
   decide (Structured 1 ''x'' sample_context) Keepalive = KeepSession \<and>
   error_disposition (Structured 1 ''x'' sample_context) \<in> {None, Some DispKeep}"
  using retry_only_unretried_metadata
      [of "Structured 1 ''x'' (sample_context\<lparr>category := CatConnection, session_disposition := DispQuarantine\<rparr>)"
        "ReadOnlyMetadata False"]
    retry_only_unretried_metadata [of "Structured 1 ''x'' sample_context" Keepalive]
  by (simp add: decide_def from_disposition_def error_category_def error_disposition_def sample_context_def)

end
