(* ===== verification/Sql_Error_Position.thy ===== *)
theory Sql_Error_Position
  imports Dbx_Prelude
begin

text \<open>
  Positions of SQL errors (\<^verbatim>\<open>crates/dbx-sql-core/src/sql_error_position.rs\<close>): the character cursor a
  PostgreSQL error carries travels as a suffix of the message and is resolved to a line and column
  of the statement. The \<^verbatim>\<open>u32\<close> casts of lengths and indices are written out.
\<close>

definition sql_error_position_marker :: string where
  "sql_error_position_marker = CHR 10 # ''DBX_SQL_ERROR_POSITION:''"

record sql_error_position =
  pos_line :: nat
  pos_column :: nat
  pos_offset :: nat

text \<open>The loop of \<^verbatim>\<open>from_pg_cursor\<close> from a character index on.\<close>

fun cursor_scan :: "nat \<Rightarrow> nat \<Rightarrow> nat \<Rightarrow> nat \<Rightarrow> string \<Rightarrow> sql_error_position option" where
  "cursor_scan target index line column [] = None"
| "cursor_scan target index line column (c # cs) =
     (if index mod 2 ^ 32 = target then Some \<lparr>pos_line = line, pos_column = column, pos_offset = target\<rparr>
      else if c = CHR 10 then cursor_scan target (index + 1) (line + 1) 1 cs
      else cursor_scan target (index + 1) line (column + 1) cs)"

definition from_pg_cursor :: "string \<Rightarrow> nat \<Rightarrow> sql_error_position option" where
  "from_pg_cursor sql cursor =
     (if cursor = 0 then None
      else
        (let total = length sql mod 2 ^ 32 in
         if total = 0 then None
         else cursor_scan (min (cursor - 1) (total - 1)) 0 1 1 sql))"

definition encode_marker :: "nat \<Rightarrow> string" where
  "encode_marker cursor = sql_error_position_marker @ show_nat cursor"

text \<open>\<^verbatim>\<open>take_marker\<close> returns the cursor and the message it leaves behind; \<open>None\<close> leaves it as it was.\<close>

definition take_marker :: "string \<Rightarrow> (nat \<times> string) option" where
  "take_marker message =
     (case rsplit_once sql_error_position_marker message of
        None \<Rightarrow> None
      | Some (before, rest) \<Rightarrow>
          (case parse_unsigned (2 ^ 32) (takeWhile is_ascii_digit rest) of
             None \<Rightarrow> None
           | Some cursor \<Rightarrow> Some (cursor, before @ dropWhile is_ascii_digit rest)))"

lemma take_marker_shorter: "take_marker m = Some (c, m') \<Longrightarrow> length m' < length m"
proof -
  assume "take_marker m = Some (c, m')"
  then obtain a b where "m = a @ sql_error_position_marker @ b" and "m' = a @ dropWhile is_ascii_digit b"
    by (auto simp: take_marker_def dest!: rsplit_once_SomeD split: option.splits)
  then show ?thesis
    using length_dropWhile_le [of is_ascii_digit b] by (simp add: sql_error_position_marker_def)
qed

function take_all_markers :: "string \<Rightarrow> nat list \<times> string" where
  "take_all_markers message =
     (case take_marker message of
        None \<Rightarrow> ([], message)
      | Some (cursor, message') \<Rightarrow>
          (case take_all_markers message' of (cursors, rest) \<Rightarrow> (cursor # cursors, rest)))"
  by pat_completeness auto
termination by (relation "measure length") (auto simp: take_marker_shorter)

declare take_all_markers.simps [simp del]

definition strip_marker :: "string \<Rightarrow> string" where
  "strip_marker message = snd (take_all_markers message)"

definition take_message_position :: "string \<Rightarrow> string \<Rightarrow> string \<times> sql_error_position option" where
  "take_message_position message sql =
     (case take_all_markers message of
        (cursors, cleaned) \<Rightarrow>
          (case cursors of [cursor] \<Rightarrow> (cleaned, from_pg_cursor sql cursor) | _ \<Rightarrow> (cleaned, None)))"

section \<open>Lemmas\<close>

text \<open>Line and column of an offset, read off the text before it.\<close>

definition line_of :: "string \<Rightarrow> nat" where
  "line_of before = 1 + length (filter (\<lambda>c. c = CHR 10) before)"

definition column_of :: "string \<Rightarrow> nat" where
  "column_of before = 1 + length (takeWhile (\<lambda>c. c \<noteq> CHR 10) (rev before))"

lemma cursor_scan_correct:
  assumes "length before \<le> target" and "target < length before + length rest" and "target < 2 ^ 32"
  shows "cursor_scan target (length before) (line_of before) (column_of before) rest =
    Some \<lparr>pos_line = line_of (take target (before @ rest)),
          pos_column = column_of (take target (before @ rest)), pos_offset = target\<rparr>"
  using assms
proof (induction rest arbitrary: before)
  case (Cons c rest)
  show ?case
  proof (cases "length before = target")
    case True
    then show ?thesis using Cons.prems by simp
  next
    case False
    then have i: "length before mod 2 ^ 32 \<noteq> target" using Cons.prems(1,3) by simp
    have "cursor_scan target (length (before @ [c])) (line_of (before @ [c])) (column_of (before @ [c])) rest =
        Some \<lparr>pos_line = line_of (take target ((before @ [c]) @ rest)),
          pos_column = column_of (take target ((before @ [c]) @ rest)), pos_offset = target\<rparr>"
      using False Cons.prems by (intro Cons.IH) auto
    then show ?thesis using i by (auto simp: line_of_def column_of_def)
  qed
qed simp

lemma take_marker_encoded:
  assumes "cursor < 2 ^ 32" and "\<not> str_contains sql_error_position_marker tail"
    and "tail = [] \<or> \<not> is_ascii_digit (hd tail)"
  shows "take_marker (message @ encode_marker cursor @ tail) = Some (cursor, message @ tail)"
proof -
  have nl: "CHR 10 \<notin> set (show_nat cursor)"
    using show_nat_digits [of cursor] by (auto simp: list_all_iff is_ascii_digit_def char_code_def)
  have "rsplit_once sql_error_position_marker (show_nat cursor @ tail) = None"
    using assms(2) nl by (intro rsplit_once_skip) (auto simp: rsplit_once_eq_None sql_error_position_marker_def)
  then have "rsplit_once sql_error_position_marker
      (message @ sql_error_position_marker @ show_nat cursor @ tail) = Some (message, show_nat cursor @ tail)"
    by (intro rsplit_once_at) (auto simp: sql_error_position_marker_def)
  moreover have "takeWhile is_ascii_digit (show_nat cursor @ tail) = show_nat cursor \<and>
      dropWhile is_ascii_digit (show_nat cursor @ tail) = tail"
    using assms(3) show_nat_digits [of cursor]
    by (cases tail) (auto simp: list_all_iff takeWhile_append2 dropWhile_append2)
  ultimately show ?thesis using assms(1) by (simp add: take_marker_def encode_marker_def)
qed

lemma take_marker_none: "\<not> str_contains sql_error_position_marker m \<Longrightarrow> take_marker m = None"
  by (simp add: take_marker_def rsplit_once_eq_None [symmetric])

section \<open>Properties\<close>

text \<open>
  C34. A usable cursor resolves to the line and column of its character: the offset is the cursor
  clamped to the statement, the line is one more than the newlines before that offset and the
  column counts from the last of them. A zero cursor and an empty statement resolve to nothing.
\<close>

theorem cursor_resolves_to_line_and_column:
  assumes "length sql < 2 ^ 32"
  shows "from_pg_cursor sql cursor =
    (if cursor = 0 \<or> sql = [] then None
     else (let before = take (min (cursor - 1) (length sql - 1)) sql in
           Some \<lparr>pos_line = line_of before, pos_column = column_of before,
                 pos_offset = min (cursor - 1) (length sql - 1)\<rparr>))"
proof (cases "cursor = 0 \<or> sql = []")
  case False
  then have "min (cursor - 1) (length sql - 1) < length sql" by (auto simp: min_less_iff_disj)
  then have "cursor_scan (min (cursor - 1) (length sql - 1)) 0 1 1 sql =
      Some \<lparr>pos_line = line_of (take (min (cursor - 1) (length sql - 1)) sql),
            pos_column = column_of (take (min (cursor - 1) (length sql - 1)) sql),
            pos_offset = min (cursor - 1) (length sql - 1)\<rparr>"
    using assms cursor_scan_correct [of "[]" "min (cursor - 1) (length sql - 1)" sql]
    by (simp add: line_of_def column_of_def)
  then show ?thesis using False assms by (simp add: from_pg_cursor_def Let_def)
qed (auto simp: from_pg_cursor_def)

theorem cursor_resolves_to_line_and_column_witness:
  "from_pg_cursor (''ab'' @ CHR 10 # ''cd'') 5 = Some \<lparr>pos_line = 2, pos_column = 2, pos_offset = 4\<rparr>"
  using cursor_resolves_to_line_and_column [of "''ab'' @ CHR 10 # ''cd''" 5]
  by (simp add: line_of_def column_of_def)

text \<open>
  C35. The cursor survives the trip through a message: from a message with one encoded cursor, also
  when text was appended after it, \<open>take_message_position\<close> recovers the cursor, resolves it against
  the statement, and returns the message without the suffix.
\<close>

theorem marker_round_trip:
  assumes "cursor < 2 ^ 32" and "\<not> str_contains sql_error_position_marker tail"
    and "\<not> str_contains sql_error_position_marker (message @ tail)"
    and "tail = [] \<or> \<not> is_ascii_digit (hd tail)"
  shows "take_message_position (message @ encode_marker cursor @ tail) sql =
           (message @ tail, from_pg_cursor sql cursor)"
proof -
  have "take_all_markers (message @ encode_marker cursor @ tail) = ([cursor], message @ tail)"
    by (subst take_all_markers.simps, simp add: take_marker_encoded [OF assms(1,2,4)])
       (subst take_all_markers.simps, simp add: take_marker_none [OF assms(3)])
  then show ?thesis by (simp add: take_message_position_def)
qed

theorem marker_round_trip_witness:
  "take_message_position (''boom'' @ encode_marker 7 @ ''; rollback failed'') ''SELECT'' =
     (''boom; rollback failed'', Some \<lparr>pos_line = 1, pos_column = 6, pos_offset = 5\<rparr>)"
proof -
  have "from_pg_cursor ''SELECT'' 7 = Some \<lparr>pos_line = 1, pos_column = 6, pos_offset = 5\<rparr>"
    by (simp add: from_pg_cursor_def)
  moreover have "\<not> str_contains sql_error_position_marker ''; rollback failed''" by code_simp
  moreover have "\<not> str_contains sql_error_position_marker ''boom; rollback failed''" by code_simp
  ultimately show ?thesis
    using marker_round_trip [of 7 "''; rollback failed''" "''boom''" "''SELECT''"]
    by (simp add: is_ascii_digit_def char_code_def)
qed

text \<open>
  \<open>strip_marker\<close> is idempotent and leaves nothing that \<open>take_marker\<close> would still take. It does
  not always leave a message without the suffix, though: a malformed last suffix shields a
  well-formed one before it.
\<close>

theorem strip_marker_shielded_by_malformed_suffix:
  "take_marker (strip_marker m) = None \<and> strip_marker (strip_marker m) = strip_marker m \<and>
   (let shielded = ''boom'' @ encode_marker 15 @ sql_error_position_marker @ ''x''
    in strip_marker shielded = shielded \<and> str_contains (encode_marker 15) shielded)"
proof -
  have "take_marker (strip_marker m) = None"
    unfolding strip_marker_def
  proof (induction m rule: take_all_markers.induct)
    case (1 m)
    then show ?case
      by (subst take_all_markers.simps) (auto split: option.split prod.split)
  qed
  moreover have "take_marker x = None \<Longrightarrow> strip_marker x = x" for x
    unfolding strip_marker_def by (subst take_all_markers.simps) simp
  moreover have "take_marker ((''boom'' @ encode_marker 15) @ sql_error_position_marker @ ''x'') = None"
    unfolding take_marker_def
    by (subst rsplit_once_last)
      (auto simp: sql_error_position_marker_def parse_unsigned_def is_ascii_digit_def char_code_def)
  moreover have "str_contains (encode_marker 15) (''boom'' @ encode_marker 15 @ sql_error_position_marker @ ''x'')"
    unfolding str_contains_iff by blast
  ultimately show ?thesis by (simp add: Let_def)
qed

end
