(* ===== verification/Query_Errors.thy ===== *)
theory Query_Errors
  imports Write_Gate Agent_Errors Sql_Error_Position
begin

text \<open>
  Errors of statement execution and what they do to the connection pool
  (\<^verbatim>\<open>crates/dbx-core/src/query/mod.rs\<close>): the error type, its conversions and contexts, the recognition of
  lost connections by the wording of a message, and the decision to keep the pool, to discard it, or to
  reconnect and run the statement again.

  \<open>is_agent\<close> stands for \<^verbatim>\<open>database_capabilities::is_agent_type\<close>, which the build generates. The four Chinese
  markers of \<^verbatim>\<open>is_connection_error\<close> lie outside the modelled character range and cannot occur in a modelled
  message.
\<close>

section \<open>Error values\<close>

definition query_canceled :: string where
  "query_canceled = ''Query canceled''"

definition sql_omitted_error_context :: string where
  "sql_omitted_error_context =
     ''SQL text omitted from user-facing error; enable debug SQL diagnostics to inspect the original statement.''"

definition manual_transaction_session_not_found_error :: string where
  "manual_transaction_session_not_found_error =
     ''Transaction session not found or expired; it may have been auto-rolled back due to inactivity''"

definition manual_transaction_idle_rollback_error :: string where
  "manual_transaction_idle_rollback_error = ''Transaction was auto-rolled back due to inactivity''"

definition is_manual_transaction_session_expired_error :: "string \<Rightarrow> bool" where
  "is_manual_transaction_session_expired_error e \<longleftrightarrow>
     starts_with manual_transaction_session_not_found_error e \<or> e = manual_transaction_idle_rollback_error"

datatype pool_action = PoolKeep | PoolDiscard | ReconnectAndRetry

datatype query_execution_error =
    AgentFailure agent_call_error
  | DuckDbFailure string string
  | CanceledFailure agent_error_stage agent_operation_outcome
  | TimeoutFailure string
  | SqlFailure string
  | SqlFailureAt string sql_error_position
  | LegacyFailure string

definition agent_call_error_message ::"agent_call_error \<Rightarrow> string" where
  "agent_call_error_message e =
     (case e of
        Structured _ message _ \<Rightarrow> message
      | LegacyError _ message _ \<Rightarrow> message
      | ContractViolation _ message _ \<Rightarrow> ''Agent error contract violation: '' @ message
      | TransportError message \<Rightarrow> message
      | CallTimeout st _ \<Rightarrow> ''Agent RPC call timed out at '' @ stage_name st
      | CallCanceled _ _ \<Rightarrow> ''Query canceled'')"

text \<open>\<^verbatim>\<open>Display\<close> of an error.\<close>

fun query_error_message :: "query_execution_error \<Rightarrow> string" where
  "query_error_message (AgentFailure e) = agent_call_error_message e"
| "query_error_message (DuckDbFailure _ message) = message"
| "query_error_message (CanceledFailure _ _) = query_canceled"
| "query_error_message (TimeoutFailure e) = e"
| "query_error_message (SqlFailure e) = e"
| "query_error_message (SqlFailureAt message _) = message"
| "query_error_message (LegacyFailure e) = e"

definition query_error_into_legacy_string :: "agent_codec \<Rightarrow> query_execution_error \<Rightarrow> string" where
  "query_error_into_legacy_string codec e =
     strip_marker (case e of AgentFailure a \<Rightarrow> into_legacy_string codec a | _ \<Rightarrow> query_error_message e)"

text \<open>The error a client is sent, by the constructor of \<^verbatim>\<open>BackendError\<close> that builds it.\<close>

datatype backend_error =
    FromAgentCallError agent_call_error
  | FromDuckDbWorkerError string string
  | FromCanceled agent_error_stage agent_operation_outcome
  | FromTimeoutDetail string
  | FromSqlDetail string
  | FromSqlDetailWithPosition string sql_error_position
  | FromLegacyString string
  | FromLegacyBackend string

fun into_backend_error :: "query_execution_error \<Rightarrow> backend_error" where
  "into_backend_error (AgentFailure a) = FromAgentCallError a"
| "into_backend_error (DuckDbFailure code message) = FromDuckDbWorkerError code message"
| "into_backend_error (CanceledFailure st outcome) = FromCanceled st outcome"
| "into_backend_error (TimeoutFailure message) = FromTimeoutDetail message"
| "into_backend_error (SqlFailure message) = FromSqlDetail message"
| "into_backend_error (SqlFailureAt message position) = FromSqlDetailWithPosition message position"
| "into_backend_error (LegacyFailure message) = FromLegacyString message"

definition query_error_with_omitted_sql_context :: "string \<Rightarrow> string \<Rightarrow> string" where
  "query_error_with_omitted_sql_context e sql = append_legacy_error_context e sql_omitted_error_context"

definition append_typed_sql_error_context :: "string \<Rightarrow> string \<Rightarrow> string" where
  "append_typed_sql_error_context e sql =
     (if str_contains sql_omitted_error_context e then e
      else e @ [if starts_with ''Server error:'' (trim_start e) then CHR '' '' else CHR 10] @ sql_omitted_error_context)"

fun with_omitted_sql_context :: "query_execution_error \<Rightarrow> string \<Rightarrow> query_execution_error" where
  "with_omitted_sql_context (AgentFailure e) sql = AgentFailure e"
| "with_omitted_sql_context (DuckDbFailure code message) sql =
     DuckDbFailure code (query_error_with_omitted_sql_context message sql)"
| "with_omitted_sql_context (CanceledFailure st oc) sql = CanceledFailure st oc"
| "with_omitted_sql_context (TimeoutFailure e) sql = TimeoutFailure (query_error_with_omitted_sql_context e sql)"
| "with_omitted_sql_context (SqlFailure e) sql = SqlFailure (append_typed_sql_error_context e sql)"
| "with_omitted_sql_context (SqlFailureAt message p) sql = SqlFailureAt (append_typed_sql_error_context message sql) p"
| "with_omitted_sql_context (LegacyFailure e) sql = LegacyFailure (query_error_with_omitted_sql_context e sql)"

fun with_error_context :: "query_execution_error \<Rightarrow> string \<Rightarrow> query_execution_error" where
  "with_error_context (DuckDbFailure code message) t = DuckDbFailure code (message @ ''; '' @ t)"
| "with_error_context (TimeoutFailure e) t = TimeoutFailure (e @ ''; '' @ t)"
| "with_error_context (SqlFailure e) t = SqlFailure (e @ ''; '' @ t)"
| "with_error_context (SqlFailureAt message p) t = SqlFailureAt (message @ ''; '' @ t) p"
| "with_error_context (LegacyFailure e) t = LegacyFailure (e @ ''; '' @ t)"
| "with_error_context e t = e"

fun as_agent_error :: "query_execution_error \<Rightarrow> agent_call_error option" where
  "as_agent_error (AgentFailure e) = Some e"
| "as_agent_error _ = None"

definition canceled_query_execution_error :: query_execution_error where
  "canceled_query_execution_error = CanceledFailure StCancel OutcomeUnknown"

definition pre_dispatch_canceled_query_execution_error :: query_execution_error where
  "pre_dispatch_canceled_query_execution_error = CanceledFailure StRequest NotStarted"

section \<open>Reading messages\<close>

definition is_pool_saturation_error :: "string \<Rightarrow> bool" where
  "is_pool_saturation_error err \<longleftrightarrow>
     (let lower = to_lowercase err in
      str_contains ''connection pool checkout timed out [stage=wait'' lower \<or> str_contains ''dbx metadata pool is busy'' lower)"

definition is_dbx_query_timeout_error :: "string \<Rightarrow> bool" where
  "is_dbx_query_timeout_error lower = starts_with ''query timed out after '' lower"

definition is_agent_rpc_timeout_error :: "string \<Rightarrow> bool" where
  "is_agent_rpc_timeout_error lower = starts_with ''agent rpc call timed out '' lower"

definition is_schema_reset_cleanup_error :: "string \<Rightarrow> bool" where
  "is_schema_reset_cleanup_error lower = str_contains ''schema.reset cleanup failed'' lower"

definition is_postgres_transaction_cleanup_error :: "string \<Rightarrow> bool" where
  "is_postgres_transaction_cleanup_error lower = str_contains ''postgresql read-only transaction cleanup failed'' lower"

definition is_driver_panic_error :: "string \<Rightarrow> bool" where
  "is_driver_panic_error e = starts_with ''SQL Server driver panic:'' e"

definition os_error_codes :: "string list" where
  "os_error_codes = [''10053'', ''10054'', ''10057'', ''10058'', ''10060'', ''10061'']"

definition is_os_connection_error :: "string \<Rightarrow> bool" where
  "is_os_connection_error lower =
     (case find_sub ''os error '' lower of
        None \<Rightarrow> False
      | Some i \<Rightarrow> takeWhile is_ascii_digit (drop (i + 9) lower) \<in> set os_error_codes)"

text \<open>The markers of \<^verbatim>\<open>is_connection_error\<close> that are tested alone; \<^verbatim>\<open>pool\<close> counts together with \<^verbatim>\<open>timeout\<close>.\<close>

definition connection_error_markers :: "string list" where
  "connection_error_markers =
     [''connection'', ''broken pipe'', ''reset by peer'', ''timed out'', ''closed'', ''communications link failure'',
      ''sqlrecoverableexception'', ''sqlnontransientconnectionexception'', ''sqltransientconnectionexception'', ''eof'',
      ''i/o error'', ''input/output error'', ''not connected'', ''end-of-file'', ''idle'', ''agent stdin not available'',
      ''agent stdout not available'', ''agent runtime terminated'', ''agent runtime is unavailable'',
      ''agent runtime unavailable'', ''failed to write to agent stdin'', ''failed to flush agent stdin'',
      ''communicating with the server'']"

definition is_connection_error :: "string \<Rightarrow> bool" where
  "is_connection_error err =
     (let lower = to_lowercase err in
      if is_dbx_query_timeout_error lower \<or> is_agent_rpc_timeout_error lower \<or> is_pool_saturation_error err then False
      else list_ex (\<lambda>m. str_contains m lower) connection_error_markers \<or>
           (str_contains ''pool'' lower \<and> str_contains ''timeout'' lower) \<or> is_os_connection_error lower)"

section \<open>Decisions\<close>

definition query_timeout_discards :: "database_type list" where
  "query_timeout_discards =
     [''Mysql'', ''Postgres'', ''Redshift'', ''Gaussdb'', ''Kwdb'', ''OpenGauss'', ''Questdb'', ''Doris'', ''StarRocks'',
      ''ManticoreSearch'', ''ClickHouse'', ''SqlServer'', ''Rqlite'', ''Turso'', ''CloudflareD1'', ''Elasticsearch'',
      ''Easysearch'', ''Qdrant'', ''Milvus'', ''Weaviate'', ''ChromaDb'', ''InfluxDb'', ''InfluxDb3'', ''VictoriaMetrics'']"

definition should_discard_pool_after_query_timeout :: "(database_type \<Rightarrow> bool) \<Rightarrow> database_type option \<Rightarrow> bool" where
  "should_discard_pool_after_query_timeout is_agent database =
     (case database of None \<Rightarrow> False | Some db \<Rightarrow> is_agent db \<or> db \<in> set query_timeout_discards)"

definition should_discard_agent_pool_after_error :: "agent_codec \<Rightarrow> string \<Rightarrow> bool" where
  "should_discard_agent_pool_after_error codec err = discards_session (agent_recovery_decision codec err UserOperation)"

definition is_agent_database :: "(database_type \<Rightarrow> bool) \<Rightarrow> database_type option \<Rightarrow> bool" where
  "is_agent_database is_agent database = (case database of None \<Rightarrow> False | Some db \<Rightarrow> is_agent db)"

definition pool_error_action ::
  "(database_type \<Rightarrow> bool) \<Rightarrow> agent_codec \<Rightarrow> database_type option \<Rightarrow> string \<Rightarrow> pool_action" where
  "pool_error_action is_agent codec database err =
     (if is_agent_database is_agent database
      then (if should_discard_agent_pool_after_error codec err then PoolDiscard else PoolKeep)
      else
        (let lower = to_lowercase err in
         if is_driver_panic_error err \<or>
            (is_dbx_query_timeout_error lower \<and> should_discard_pool_after_query_timeout is_agent database) \<or>
            is_schema_reset_cleanup_error lower \<or> is_postgres_transaction_cleanup_error lower
         then PoolDiscard
         else if is_connection_error err then ReconnectAndRetry else PoolKeep))"

definition should_discard_pool_after_error ::
  "(database_type \<Rightarrow> bool) \<Rightarrow> agent_codec \<Rightarrow> database_type option \<Rightarrow> string \<Rightarrow> bool" where
  "should_discard_pool_after_error is_agent codec database err \<longleftrightarrow>
     pool_error_action is_agent codec database err \<in> {PoolDiscard, ReconnectAndRetry}"

definition should_continue_batch_after_error :: "bool \<Rightarrow> pool_action \<Rightarrow> bool" where
  "should_continue_batch_after_error continue_on_error action \<longleftrightarrow> continue_on_error \<and> action = PoolKeep"

definition query_pool_error_action ::
  "tokenizer \<Rightarrow> (database_type \<Rightarrow> string \<Rightarrow> bool) \<Rightarrow> (database_type \<Rightarrow> bool) \<Rightarrow> agent_codec \<Rightarrow> database_type option \<Rightarrow>
   string \<Rightarrow> string \<Rightarrow> pool_action" where
  "query_pool_error_action tok into is_agent codec database sql err =
     (let action = pool_error_action is_agent codec database err in
      if action = ReconnectAndRetry \<and> is_write_sql tok into sql then PoolDiscard else action)"

definition query_execution_error_action ::
  "tokenizer \<Rightarrow> (database_type \<Rightarrow> string \<Rightarrow> bool) \<Rightarrow> (database_type \<Rightarrow> bool) \<Rightarrow> agent_codec \<Rightarrow> database_type option \<Rightarrow>
   string \<Rightarrow> query_execution_error \<Rightarrow> pool_action" where
  "query_execution_error_action tok into is_agent codec database sql e =
     (case as_agent_error e of
        Some agent_error \<Rightarrow> if discards_session (decide agent_error UserOperation) then PoolDiscard else PoolKeep
      | None \<Rightarrow>
          (case e of
             CanceledFailure _ _ \<Rightarrow> PoolKeep
           | _ \<Rightarrow> query_pool_error_action tok into is_agent codec database sql (query_error_message e)))"

definition is_native_sql_server_error :: "database_type option \<Rightarrow> string \<Rightarrow> bool" where
  "is_native_sql_server_error database message =
     (let m = trim_start message in
      if database = Some ''Postgres'' then starts_with ''ERROR:'' m
      else if database = Some ''Mysql'' then starts_with (''Server error: '' @ CHR 96 # ''ERROR '') m
      else False)"

definition classify_query_error :: "database_type option \<Rightarrow> query_execution_error \<Rightarrow> query_execution_error" where
  "classify_query_error database e =
     (case e of
        LegacyFailure message \<Rightarrow>
          if message = query_canceled then canceled_query_execution_error
          else if is_dbx_query_timeout_error (to_ascii_lowercase message) then TimeoutFailure message
          else if is_native_sql_server_error database message then SqlFailure message
          else e
      | _ \<Rightarrow> e)"

definition postgres_transaction_statement_error :: "nat \<Rightarrow> string \<Rightarrow> string \<Rightarrow> bool \<Rightarrow> query_execution_error" where
  "postgres_transaction_statement_error statement_index message sql is_server_error =
     (let detail = query_error_with_omitted_sql_context
                     (''Statement '' @ show_nat statement_index @ '' failed: '' @ message) sql
      in if is_dbx_query_timeout_error (to_ascii_lowercase message) then TimeoutFailure detail
         else if message = query_canceled then canceled_query_execution_error
         else if is_server_error then SqlFailure detail else LegacyFailure detail)"

section \<open>Lemmas\<close>

text \<open>A statement is run again only after a message that reads like a lost connection, and never a write.\<close>

lemma retry_only_reads:
  assumes "query_execution_error_action tok into is_agent codec database sql e = ReconnectAndRetry"
  shows "\<not> is_write_sql tok into sql \<and> \<not> is_agent_database is_agent database \<and> as_agent_error e = None \<and>
     is_connection_error (query_error_message e)"
proof (cases e)
  case (CanceledFailure st oc)
  then show ?thesis using assms by (simp add: query_execution_error_action_def)
next
  case (AgentFailure a)
  then show ?thesis using assms by (simp add: query_execution_error_action_def split: if_splits)
qed (use assms in \<open>auto simp: query_execution_error_action_def query_pool_error_action_def pool_error_action_def Let_def split: if_splits\<close>)

text \<open>
  Text appended to a message brings in no marker: none occurs in it, and none starts before it and ends in
  it.
\<close>

definition inert_suffix :: "string \<Rightarrow> string \<Rightarrow> bool" where
  "inert_suffix p x \<longleftrightarrow> \<not> str_contains p x \<and> list_all (\<lambda>i. \<not> starts_with (drop i p) x) [1..<length p] \<and> length p \<le> length x"

text \<open>An occurrence in a text of two parts lies in the first, in the second, or across the joint.\<close>

lemma occurrence_cases:
  assumes ab: "e @ x = a @ p @ b"
  shows "length a + length p \<le> length e \<Longrightarrow> str_contains p e"
    and "length e \<le> length a \<Longrightarrow> str_contains p x"
    and "length a \<le> length e \<Longrightarrow> length e \<le> length a + length p \<Longrightarrow> x = drop (length e - length a) p @ b"
proof -
  assume fits: "length a + length p \<le> length e"
  have "take (length e) (e @ x) = take (length e) (a @ p @ b)" by (simp only: ab)
  then have "e = a @ p @ take (length e - (length a + length p)) b" using fits by simp
  then show "str_contains p e" by (metis str_contains_iff)
next
  assume late: "length e \<le> length a"
  have "drop (length e) (e @ x) = drop (length e) (a @ p @ b)" by (simp only: ab)
  then have "x = drop (length e) a @ p @ b" using late by simp
  then show "str_contains p x" by (metis str_contains_iff)
next
  assume across: "length a \<le> length e" "length e \<le> length a + length p"
  have "drop (length e) (e @ x) = drop (length e) (a @ p @ b)" by (simp only: ab)
  then show "x = drop (length e - length a) p @ b" using across by simp
qed

lemma occurrence_in_append:
  assumes "str_contains p (e @ x)" "inert_suffix p x"
  shows "str_contains p e"
proof (rule ccontr)
  assume none: "\<not> str_contains p e"
  obtain a b where ab: "e @ x = a @ p @ b" using assms(1) by (auto simp: str_contains_iff)
  have "\<not> str_contains p x" using assms(2) by (simp add: inert_suffix_def)
  then have late: "length a < length e" using occurrence_cases(2) [OF ab] by linarith
  have across: "length e < length a + length p" using occurrence_cases(1) [OF ab] none by linarith
  have "starts_with (drop (length e - length a) p) x"
    using occurrence_cases(3) [OF ab] late across by (simp add: starts_with_iff)
  moreover have "length e - length a \<in> set [1..<length p]" using late across by auto
  ultimately show False using assms(2) by (unfold inert_suffix_def list_all_iff) blast
qed

lemma contains_inert: "inert_suffix p x \<Longrightarrow> str_contains p (e @ x) = str_contains p e"
  using occurrence_in_append str_contains_append_left by blast

lemma starts_with_inert:
  assumes "inert_suffix p x"
  shows "starts_with p (e @ x) = starts_with p e"
proof
  assume start: "starts_with p (e @ x)"
  then obtain b where b: "e @ x = p @ b" by (auto simp: starts_with_iff)
  have "length p \<le> length e"
  proof (rule ccontr)
    assume short: "\<not> length p \<le> length e"
    have "drop (length e) (e @ x) = drop (length e) (p @ b)" by (simp only: b)
    then have x: "x = drop (length e) p @ b" using short by simp
    show False
    proof (cases "e = []")
      case True
      then have "str_contains p x" using b by (auto simp: str_contains_iff intro: exI [of _ "[]"])
      then show False using assms by (simp add: inert_suffix_def)
    next
      case False
      then have "length e \<in> set [1..<length p]" using short by (auto simp: Suc_le_eq)
      moreover have "starts_with (drop (length e) p) x" unfolding x by simp
      ultimately show False using assms unfolding inert_suffix_def list_all_iff by blast
    qed
  qed
  then show "starts_with p e" using start by (simp add: starts_with_def)
qed (auto simp: starts_with_iff)

lemma find_sub_Cons: "find_sub p (c # s) = (if starts_with p (c # s) then Some 0 else map_option Suc (find_sub p s))"
  by (subst find_sub.simps) simp

lemma find_sub_SomeD: "find_sub p s = Some i \<Longrightarrow> s = take i s @ p @ drop (i + length p) s \<and> i + length p \<le> length s"
proof (induction s arbitrary: i)
  case Nil
  then show ?case by (subst (asm) find_sub.simps) (cases p; simp split: if_splits)
next
  case (Cons c s)
  show ?case
  proof (cases "starts_with p (c # s)")
    case True
    then obtain t where t: "c # s = p @ t" by (auto simp: starts_with_iff)
    then have "length p \<le> length (c # s)" by (simp only: t) simp
    moreover have "i = 0" using Cons.prems True by (simp add: find_sub_Cons)
    ultimately show ?thesis using t by simp
  next
    case False
    then obtain j where "find_sub p s = Some j" "i = Suc j" using Cons.prems by (auto simp: find_sub_Cons)
    then show ?thesis using Cons.IH by simp
  qed
qed

lemma find_sub_Some_append: "find_sub p e = Some i \<Longrightarrow> find_sub p (e @ x) = Some i"
proof (induction e arbitrary: i)
  case Nil
  then have "p = []" "i = 0" by (subst (asm) find_sub.simps, cases p, simp_all split: if_splits)+
  then show ?case by (subst find_sub.simps) simp
next
  case (Cons c e)
  have "length p \<le> length (c # e)" using find_sub_SomeD [OF Cons.prems] by simp
  then have same: "starts_with p (c # e @ x) = starts_with p (c # e)" by (simp add: starts_with_def take_Cons' split: if_splits)
  show ?case
  proof (cases "starts_with p (c # e)")
    case True
    then show ?thesis using Cons.prems same by (simp add: find_sub_Cons)
  next
    case False
    then obtain j where "find_sub p e = Some j" "i = Suc j" using Cons.prems by (auto simp: find_sub_Cons)
    then show ?thesis using Cons.IH False same by (simp add: find_sub_Cons)
  qed
qed

text \<open>An operating-system error code is read from the first occurrence; appended text cannot add one.\<close>

definition inert_after_os_error :: "string \<Rightarrow> bool" where
  "inert_after_os_error x \<longleftrightarrow>
     \<not> str_contains ''os error '' x \<and> takeWhile is_ascii_digit x = [] \<and>
     list_all (\<lambda>k. starts_with (drop k ''os error '') x \<longrightarrow> takeWhile is_ascii_digit (drop (9 - k) x) \<notin> set os_error_codes) [1..<9] \<and>
     9 \<le> length x"

lemma is_os_connection_error_inert:
  assumes "inert_after_os_error x"
  shows "is_os_connection_error (e @ x) = is_os_connection_error e"
proof (cases "find_sub ''os error '' e")
  case (Some i)
  have "i + 9 \<le> length e" using find_sub_SomeD [OF Some] by simp
  moreover have "takeWhile is_ascii_digit (s @ x) = takeWhile is_ascii_digit s" for s
    using assms by (induction s) (auto simp: inert_after_os_error_def)
  ultimately show ?thesis using find_sub_Some_append [OF Some] Some by (simp add: is_os_connection_error_def)
next
  case None
  define p where "p = ''os error ''"
  have len: "length p = 9" by (simp add: p_def)
  show ?thesis
  proof (cases "find_sub p (e @ x)")
    case (Some i)
    let ?k = "length e - i"
    have at: "e @ x = take i (e @ x) @ p @ drop (i + 9) (e @ x)" and i: "i + 9 \<le> length (e @ x)"
      using find_sub_SomeD [OF Some] unfolding len by blast+
    have la: "length (take i (e @ x)) = i" using i by simp
    have late: "i < length e"
    proof (rule ccontr)
      assume "\<not> i < length e"
      then have "str_contains p x" using occurrence_cases(2) [OF at] unfolding la by simp
      then show False using assms by (simp add: inert_after_os_error_def p_def)
    qed
    have across: "length e < i + 9"
    proof (rule ccontr)
      assume "\<not> length e < i + 9"
      then have "str_contains p e" using occurrence_cases(1) [OF at] unfolding la len by simp
      then show False using None by (simp add: str_contains_def p_def)
    qed
    have "starts_with (drop ?k p) x"
      using occurrence_cases(3) [OF at] late across unfolding la len by (metis less_imp_le starts_with_append)
    moreover have "?k \<in> set [1..<9]" using late across by auto
    ultimately have "takeWhile is_ascii_digit (drop (9 - ?k) x) \<notin> set os_error_codes"
      using assms unfolding inert_after_os_error_def list_all_iff p_def by blast
    moreover have "drop (i + 9) (e @ x) = drop (9 - ?k) x" using late across by (simp add: add.commute)
    ultimately show ?thesis using Some None by (simp add: is_os_connection_error_def p_def)
  qed (simp add: None is_os_connection_error_def p_def)
qed

lemma to_lowercase_append: "to_lowercase (a @ b) = to_lowercase a @ to_lowercase b"
  by (simp add: to_lowercase_def)

text \<open>The two forms in which the note about omitted SQL is appended.\<close>

definition omitted_suffixes :: "string list" where
  "omitted_suffixes = [CHR 10 # sql_omitted_error_context, CHR '' '' # sql_omitted_error_context]"

definition message_markers :: "string list" where
  "message_markers =
     connection_error_markers @
     [''pool'', ''timeout'', ''connection pool checkout timed out [stage=wait'', ''dbx metadata pool is busy'',
      ''schema.reset cleanup failed'', ''postgresql read-only transaction cleanup failed'']"

definition prefix_markers :: "string list" where
  "prefix_markers = [''query timed out after '', ''agent rpc call timed out '']"

lemma omitted_suffixes_inert:
  "list_all (\<lambda>x. list_all (\<lambda>m. inert_suffix m (to_lowercase x)) message_markers \<and>
     inert_after_os_error (to_lowercase x) \<and> inert_suffix ''SQL Server driver panic:'' x) omitted_suffixes"
  by code_simp

text \<open>The note is appended after a blank only to messages that start with \<^verbatim>\<open>Server error:\<close>.\<close>

definition note_fits :: "string \<Rightarrow> string \<Rightarrow> bool" where
  "note_fits x message \<longleftrightarrow>
     x = CHR 10 # sql_omitted_error_context \<or>
     x = CHR '' '' # sql_omitted_error_context \<and> starts_with ''Server error:'' (trim_start message)"

lemma prefix_markers_inert:
  assumes "note_fits x message" "m \<in> set prefix_markers"
  shows "starts_with m (to_lowercase (message @ x)) = starts_with m (to_lowercase message)"
proof (cases "x = CHR 10 # sql_omitted_error_context")
  case True
  have "list_all (\<lambda>m. inert_suffix m (to_lowercase (CHR 10 # sql_omitted_error_context))) prefix_markers" by code_simp
  then show ?thesis using assms(2) True unfolding to_lowercase_append list_all_iff by (intro starts_with_inert) blast
next
  case False
  then have server: "starts_with ''Server error:'' (trim_start message)" using assms(1) by (simp add: note_fits_def)
  have head: "m' \<in> set prefix_markers \<Longrightarrow> \<exists>c p. m' = c # p \<and> (c = CHR ''q'' \<or> c = CHR ''a'')" for m'
    by (auto simp: prefix_markers_def)
  obtain d s where message: "message = d # s" using server by (cases message) (auto simp: trim_start_def)
  have "is_whitespace d \<or> d = CHR ''S''"
    using server message by (cases "is_whitespace d") (auto simp: trim_start_def)
  moreover have "char_of (115::nat) = CHR ''s''" by code_simp
  ultimately have "hd (to_lowercase message) \<noteq> CHR ''q'' \<and> hd (to_lowercase message) \<noteq> CHR ''a''"
    by (auto simp: message to_lowercase_def is_ascii_upper_def is_whitespace_def char_code_def)
  then show ?thesis using head [OF assms(2)] message
    by (auto simp: to_lowercase_def)
qed

lemma message_reading_inert:
  assumes "note_fits x message"
  shows "is_connection_error (message @ x) = is_connection_error message"
    and "is_driver_panic_error (message @ x) = is_driver_panic_error message"
    and "is_schema_reset_cleanup_error (to_lowercase (message @ x)) = is_schema_reset_cleanup_error (to_lowercase message)"
    and "is_postgres_transaction_cleanup_error (to_lowercase (message @ x)) =
      is_postgres_transaction_cleanup_error (to_lowercase message)"
    and "is_dbx_query_timeout_error (to_lowercase (message @ x)) = is_dbx_query_timeout_error (to_lowercase message)"
proof -
  have x: "x \<in> set omitted_suffixes" using assms by (auto simp: note_fits_def omitted_suffixes_def)
  have markers: "m \<in> set message_markers \<Longrightarrow> inert_suffix m (to_lowercase x)"
    and os: "inert_after_os_error (to_lowercase x)" and panic: "inert_suffix ''SQL Server driver panic:'' x" for m
    using omitted_suffixes_inert x unfolding list_all_iff by blast+
  have contains: "m \<in> set message_markers \<Longrightarrow> str_contains m (to_lowercase (message @ x)) = str_contains m (to_lowercase message)"
    for m unfolding to_lowercase_append using markers contains_inert by blast
  note start = prefix_markers_inert [OF assms]
  have one: "list_ex (\<lambda>m. str_contains m (to_lowercase (message @ x))) connection_error_markers =
      list_ex (\<lambda>m. str_contains m (to_lowercase message)) connection_error_markers"
    using contains by (auto simp: list_ex_iff message_markers_def)
  have single: "str_contains ''pool'' (to_lowercase (message @ x)) = str_contains ''pool'' (to_lowercase message)"
    "str_contains ''timeout'' (to_lowercase (message @ x)) = str_contains ''timeout'' (to_lowercase message)"
    "is_pool_saturation_error (message @ x) = is_pool_saturation_error message"
    "is_schema_reset_cleanup_error (to_lowercase (message @ x)) = is_schema_reset_cleanup_error (to_lowercase message)"
    "is_postgres_transaction_cleanup_error (to_lowercase (message @ x)) = is_postgres_transaction_cleanup_error (to_lowercase message)"
    "is_dbx_query_timeout_error (to_lowercase (message @ x)) = is_dbx_query_timeout_error (to_lowercase message)"
    "is_agent_rpc_timeout_error (to_lowercase (message @ x)) = is_agent_rpc_timeout_error (to_lowercase message)"
    unfolding is_pool_saturation_error_def is_schema_reset_cleanup_error_def is_postgres_transaction_cleanup_error_def
      is_dbx_query_timeout_error_def is_agent_rpc_timeout_error_def Let_def
    by (simp_all add: contains start message_markers_def prefix_markers_def)
  have "is_os_connection_error (to_lowercase (message @ x)) = is_os_connection_error (to_lowercase message)"
    unfolding to_lowercase_append by (rule is_os_connection_error_inert [OF os])
  with one single show "is_connection_error (message @ x) = is_connection_error message"
    unfolding is_connection_error_def Let_def by simp
  show "is_driver_panic_error (message @ x) = is_driver_panic_error message"
    unfolding is_driver_panic_error_def by (rule starts_with_inert [OF panic])
  show "is_schema_reset_cleanup_error (to_lowercase (message @ x)) = is_schema_reset_cleanup_error (to_lowercase message)"
    "is_postgres_transaction_cleanup_error (to_lowercase (message @ x)) =
      is_postgres_transaction_cleanup_error (to_lowercase message)"
    "is_dbx_query_timeout_error (to_lowercase (message @ x)) = is_dbx_query_timeout_error (to_lowercase message)"
    by (rule single)+
qed

lemma pool_error_action_inert:
  assumes "note_fits x message" "\<not> is_agent_database is_agent database"
  shows "pool_error_action is_agent codec database (message @ x) = pool_error_action is_agent codec database message"
  using assms(2) message_reading_inert [OF assms(1)] unfolding pool_error_action_def Let_def by simp

lemma omitted_context_cases:
  assumes "\<not> str_contains agent_rpc_error_data_marker m"
  shows "\<exists>x. query_error_with_omitted_sql_context m sql = m @ x \<and> (x = [] \<or> note_fits x m)"
    and "\<exists>x. append_typed_sql_error_context m sql = m @ x \<and> (x = [] \<or> note_fits x m)"
proof -
  have "rsplit_once agent_rpc_error_data_marker m = None" using assms by (simp add: rsplit_once_eq_None)
  then show "\<exists>x. query_error_with_omitted_sql_context m sql = m @ x \<and> (x = [] \<or> note_fits x m)"
    by (simp add: query_error_with_omitted_sql_context_def append_legacy_error_context_def note_fits_def)
  show "\<exists>x. append_typed_sql_error_context m sql = m @ x \<and> (x = [] \<or> note_fits x m)"
    by (simp add: append_typed_sql_error_context_def note_fits_def)
qed

section \<open>Properties\<close>



text \<open>
  A message is taken for a lost connection by the words in it, wherever they come from: a PostgreSQL
  server error that merely names a table \<^verbatim>\<open>idle_users\<close> discards the pool after a write, runs a read again,
  and ends a batch that was told to continue on errors.
\<close>

theorem object_names_pass_for_lost_connections:
  "let e = classify_query_error (Some ''Postgres'')
             (LegacyFailure (''ERROR: relation '' @ [CHR 34] @ ''idle_users'' @ [CHR 34] @ '' does not exist''));
       act = (\<lambda>sql. query_execution_error_action (\<lambda>_. None) (\<lambda>_ _. False) (\<lambda>_. False) sample_codec (Some ''Postgres'') sql e)
   in e = SqlFailure (''ERROR: relation '' @ [CHR 34] @ ''idle_users'' @ [CHR 34] @ '' does not exist'') \<and>
      act ''SELECT * FROM idle_users'' = ReconnectAndRetry \<and> act ''DELETE FROM idle_users'' = PoolDiscard \<and>
      \<not> should_continue_batch_after_error True (act ''DELETE FROM idle_users'')"
  by code_simp

end
