(* ===== verification/Running_Queries.thy ===== *)
theory Running_Queries
  imports Query_Errors "HOL-Library.Word" "HOL-Library.List_Lexorder" "HOL-Library.Char_ord"
begin

text \<open>
  The registry of running queries (\<^verbatim>\<open>crates/dbx-core/src/query/query_cancel.rs\<close>): registration under an execution
  id, the driver's interrupt handle, cancellation by id, connection, client session or owner, the guard
  that removes a registration when its task ends, and the memory of completed executions with which a
  client may ask whether the database has finished.

  Cancellation tokens, completion channels and interrupt closures are numbers; the state keeps the tokens
  that were canceled, the channels that were signalled and the interrupts that were run, in their order.
  Registration ids are 64-bit words and wrap around, as they do in a release build. Every operation takes the
  lock once and is one step; events drive them, so that the properties speak about every order in which
  tasks, drivers and clients use the registry.
\<close>

section \<open>Tasks\<close>

datatype running_task_kind = TaskQuery | TaskCount | TaskExplain | TaskExport | TaskUnknown

record running_task_metadata =
  task_kind :: running_task_kind
  task_connection_id :: "string option"
  task_database :: "string option"
  task_client_session_id :: "string option"
  task_owner_scope :: "string option"

definition default_task_metadata :: running_task_metadata where
  "default_task_metadata = \<lparr>task_kind = TaskUnknown, task_connection_id = None, task_database = None,
     task_client_session_id = None, task_owner_scope = None\<rparr>"

definition task_kind_from_client_session_id :: "string option \<Rightarrow> running_task_kind" where
  "task_kind_from_client_session_id client_session_id =
     (case client_session_id of
        None \<Rightarrow> TaskQuery
      | Some i \<Rightarrow>
          (let session_id = to_ascii_lowercase (trim i) in
           if ends_with '':count'' session_id then TaskCount
           else if ends_with '':explain'' session_id then TaskExplain
           else if ends_with '':export'' session_id then TaskExport
           else TaskQuery))"

definition owner_scope_from_client_session_id :: "string \<Rightarrow> string option" where
  "owner_scope_from_client_session_id client_session_id =
     (let owner = trim (hd (split_on (CHR '':'') (trim client_session_id))) in if owner \<noteq> [] then Some owner else None)"

definition query_task_metadata :: "string \<Rightarrow> string \<Rightarrow> string option \<Rightarrow> running_task_metadata" where
  "query_task_metadata connection_id database client_session_id =
     \<lparr>task_kind = task_kind_from_client_session_id client_session_id, task_connection_id = Some connection_id,
      task_database = Some database, task_client_session_id = client_session_id,
      task_owner_scope = Option.bind client_session_id owner_scope_from_client_session_id\<rparr>"

definition with_owner_scope :: "string \<Rightarrow> running_task_metadata \<Rightarrow> running_task_metadata" where
  "with_owner_scope owner_scope m = m\<lparr>task_owner_scope := Some owner_scope\<rparr>"

text \<open>
  A token and, for a controlled write, the token of the connection it was derived from: closing the
  connection cancels the child, canceling the child leaves the connection alone.
\<close>

record task_token =
  token_id :: nat
  token_parent :: "nat option"

record running_task =
  registration_id :: "64 word"
  task_token_of :: task_token
  completion :: nat
  remember_completion :: bool
  task_metadata :: running_task_metadata
  task_pool_key :: "string option"
  task_interrupt :: "nat option"

definition detached_registration_grace_period :: duration where
  "detached_registration_grace_period = from_secs (30 * 60)"

record running_queries =
  inner :: "(string, running_task) hmap"
  completed :: "(string, instant \<times> bool) hmap"
  next_registration_id :: "64 word"
  next_token :: nat
  canceled_tokens :: "nat list"
  canceled_parents :: "nat list"
  signalled :: "nat list"
  ran_interrupts :: "nat list"

definition no_queries :: running_queries where
  "no_queries = \<lparr>inner = [], completed = [], next_registration_id = 0, next_token = 0, canceled_tokens = [],
     canceled_parents = [], signalled = [], ran_interrupts = []\<rparr>"

definition token_is_canceled :: "running_queries \<Rightarrow> task_token \<Rightarrow> bool" where
  "token_is_canceled s t \<longleftrightarrow> token_id t \<in> set (canceled_tokens s) \<or>
     (case token_parent t of None \<Rightarrow> False | Some p \<Rightarrow> p \<in> set (canceled_parents s))"

definition cancel_token :: "task_token \<Rightarrow> running_queries \<Rightarrow> running_queries" where
  "cancel_token t s = s\<lparr>canceled_tokens := token_id t # canceled_tokens s\<rparr>"

definition signal_completion :: "nat \<Rightarrow> running_queries \<Rightarrow> running_queries" where
  "signal_completion c s = s\<lparr>signalled := c # signalled s\<rparr>"

definition run_interrupt :: "nat option \<Rightarrow> running_queries \<Rightarrow> running_queries" where
  "run_interrupt i s = (case i of None \<Rightarrow> s | Some n \<Rightarrow> s\<lparr>ran_interrupts := ran_interrupts s @ [n]\<rparr>)"

section \<open>Operations\<close>

definition retain_recent :: "instant \<Rightarrow> (string, instant \<times> bool) hmap \<Rightarrow> (string, instant \<times> bool) hmap" where
  "retain_recent now = hm_retain (\<lambda>_ (completed_at, _). now - completed_at < detached_registration_grace_period)"

text \<open>The guard returned by a registration.\<close>

record registered_query =
  guard_execution_id :: string
  guard_registration_id :: "64 word"

definition register_task_with_token ::
  "instant \<Rightarrow> string \<Rightarrow> running_task_metadata \<Rightarrow> bool \<Rightarrow> nat option \<Rightarrow> running_queries \<Rightarrow>
   registered_query \<times> running_queries" where
  "register_task_with_token now execution_id metadata remember parent s =
     (let r = next_registration_id s + 1;
          token = \<lparr>token_id = next_token s, token_parent = parent\<rparr>;
          task = \<lparr>registration_id = r, task_token_of = token, completion = next_token s,
                  remember_completion = remember, task_metadata = metadata, task_pool_key = None,
                  task_interrupt = None\<rparr>;
          before = hm_get (inner s) execution_id;
          s1 = s\<lparr>next_registration_id := r, next_token := Suc (next_token s),
                completed := hm_remove execution_id (retain_recent now (completed s)),
                inner := hm_insert execution_id task (inner s)\<rparr>
      in (\<lparr>guard_execution_id = execution_id, guard_registration_id = r\<rparr>,
          case before of
            None \<Rightarrow> s1
          | Some previous_task \<Rightarrow>
              run_interrupt (task_interrupt previous_task)
                (signal_completion (completion previous_task) (cancel_token (task_token_of previous_task) s1))))"

definition register_task :: "instant \<Rightarrow> string \<Rightarrow> running_task_metadata \<Rightarrow> running_queries \<Rightarrow> registered_query \<times> running_queries" where
  "register_task now execution_id metadata = register_task_with_token now execution_id metadata False None"

definition register_query :: "instant \<Rightarrow> string \<Rightarrow> running_queries \<Rightarrow> registered_query \<times> running_queries" where
  "register_query now execution_id = register_task now execution_id default_task_metadata"

definition register_task_for_terminal_confirmation ::
  "instant \<Rightarrow> string \<Rightarrow> running_task_metadata \<Rightarrow> running_queries \<Rightarrow> registered_query \<times> running_queries" where
  "register_task_for_terminal_confirmation now execution_id metadata =
     register_task_with_token now execution_id metadata True None"

definition register_task_for_terminal_confirmation_with_parent ::
  "instant \<Rightarrow> string \<Rightarrow> running_task_metadata \<Rightarrow> nat \<Rightarrow> running_queries \<Rightarrow> registered_query \<times> running_queries" where
  "register_task_for_terminal_confirmation_with_parent now execution_id metadata parent =
     register_task_with_token now execution_id metadata True (Some parent)"

record cancellation_wait_result =
  wait_requested :: bool
  wait_terminal :: bool
  wait_database_terminal :: "bool option"

definition completed_execution_result ::
  "instant \<Rightarrow> string \<Rightarrow> running_queries \<Rightarrow> cancellation_wait_result \<times> running_queries" where
  "completed_execution_result now execution_id s =
     (case hm_get (inner s) execution_id of
        Some _ \<Rightarrow> (\<lparr>wait_requested = False, wait_terminal = False, wait_database_terminal = Some False\<rparr>, s)
      | None \<Rightarrow>
          (let recent = retain_recent now (completed s) in
           (\<lparr>wait_requested = False, wait_terminal = (hm_get recent execution_id \<noteq> None),
             wait_database_terminal = Some (case hm_get recent execution_id of None \<Rightarrow> False | Some (_, proven) \<Rightarrow> proven)\<rparr>,
            s\<lparr>completed := recent\<rparr>)))"

text \<open>\<open>others\<close> is what the other tasks do to the registry while this one waits, at most until the timeout.\<close>

definition wait_for_completion ::
  "instant \<Rightarrow> (running_queries \<Rightarrow> running_queries) \<Rightarrow> string \<Rightarrow> running_queries \<Rightarrow>
   cancellation_wait_result \<times> running_queries" where
  "wait_for_completion now others execution_id s =
     completed_execution_result now execution_id (if hm_get (inner s) execution_id = None then s else others s)"

definition register_interrupt :: "string \<Rightarrow> nat \<Rightarrow> running_queries \<Rightarrow> running_queries" where
  "register_interrupt execution_id interrupt s =
     (case hm_get (inner s) execution_id of
        Some task \<Rightarrow>
          if \<not> token_is_canceled s (task_token_of task)
          then s\<lparr>inner := hm_insert execution_id (task\<lparr>task_interrupt := Some interrupt\<rparr>) (inner s)\<rparr>
          else run_interrupt (Some interrupt) s
      | None \<Rightarrow> run_interrupt (Some interrupt) s)"

definition cancel_query :: "string \<Rightarrow> running_queries \<Rightarrow> bool \<times> running_queries" where
  "cancel_query execution_id s =
     (case hm_get (inner s) execution_id of
        None \<Rightarrow> (False, s)
      | Some task \<Rightarrow>
          (let s1 = cancel_token (task_token_of task) s in
           if remember_completion task
           then (True, run_interrupt (task_interrupt task)
                         (s1\<lparr>inner := hm_insert execution_id (task\<lparr>task_interrupt := None\<rparr>) (inner s)\<rparr>))
           else (True, signal_completion (completion task)
                         (run_interrupt (task_interrupt task) (s1\<lparr>inner := hm_remove execution_id (inner s)\<rparr>)))))"

definition cancel_and_wait ::
  "instant \<Rightarrow> (running_queries \<Rightarrow> running_queries) \<Rightarrow> string \<Rightarrow> running_queries \<Rightarrow>
   cancellation_wait_result \<times> running_queries" where
  "cancel_and_wait now others execution_id s =
     (case hm_get (inner s) execution_id of
        None \<Rightarrow> completed_execution_result now execution_id s
      | Some task \<Rightarrow>
          (let s1 = snd (cancel_query execution_id s);
               s2 = (if completion task \<in> set (signalled s1) then s1 else others s1);
               terminal = (completion task \<in> set (signalled s2))
           in case completed_execution_result now execution_id s2 of
                (r, s3) \<Rightarrow>
                  (\<lparr>wait_requested = True, wait_terminal = terminal, wait_database_terminal = wait_database_terminal r\<rparr>, s3)))"

fun cancel_each :: "string list \<Rightarrow> running_queries \<Rightarrow> nat \<times> running_queries" where
  "cancel_each [] s = (0, s)"
| "cancel_each (i # is) s =
     (case cancel_query i s of
        (ok, s1) \<Rightarrow> (case cancel_each is s1 of (n, s2) \<Rightarrow> (if ok then Suc n else n, s2)))"

definition cancel_matching :: "(running_task \<Rightarrow> bool) \<Rightarrow> running_queries \<Rightarrow> nat \<times> running_queries" where
  "cancel_matching P s = cancel_each (map fst (filter (\<lambda>(_, task). P task) (inner s))) s"

definition cancel_connection :: "string \<Rightarrow> running_queries \<Rightarrow> nat \<times> running_queries" where
  "cancel_connection i = cancel_matching (\<lambda>task. task_connection_id (task_metadata task) = Some i)"

definition cancel_client_session :: "string \<Rightarrow> running_queries \<Rightarrow> nat \<times> running_queries" where
  "cancel_client_session i = cancel_matching (\<lambda>task. task_client_session_id (task_metadata task) = Some i)"

definition cancel_owner_scope :: "string \<Rightarrow> running_queries \<Rightarrow> nat \<times> running_queries" where
  "cancel_owner_scope i = cancel_matching (\<lambda>task. task_owner_scope (task_metadata task) = Some i)"

definition cancel_all :: "running_queries \<Rightarrow> nat \<times> running_queries" where
  "cancel_all = cancel_matching (\<lambda>_. True)"

record running_query_diagnostics =
  active_execution_ids :: "string list"
  active_by_connection :: "(string, nat) hmap"
  interrupt_registrations :: nat

fun count_connections :: "running_task list \<Rightarrow> (string, nat) hmap \<Rightarrow> (string, nat) hmap" where
  "count_connections [] counts = counts"
| "count_connections (task # tasks) counts =
     count_connections tasks
       (case task_connection_id (task_metadata task) of
          None \<Rightarrow> counts
        | Some i \<Rightarrow> hm_insert i (Suc (case hm_get counts i of None \<Rightarrow> 0 | Some n \<Rightarrow> n)) counts)"

definition diagnostics :: "running_queries \<Rightarrow> running_query_diagnostics" where
  "diagnostics s = \<lparr>active_execution_ids = sort (map fst (inner s)),
     active_by_connection = count_connections (map snd (inner s)) [],
     interrupt_registrations = length (filter (\<lambda>task. task_interrupt task \<noteq> None) (map snd (inner s)))\<rparr>"

definition set_pool_key :: "string \<Rightarrow> string \<Rightarrow> running_queries \<Rightarrow> running_queries" where
  "set_pool_key execution_id pool_key s =
     (case hm_get (inner s) execution_id of
        None \<Rightarrow> s
      | Some task \<Rightarrow> s\<lparr>inner := hm_insert execution_id (task\<lparr>task_pool_key := Some pool_key\<rparr>) (inner s)\<rparr>)"

definition is_pool_active :: "string \<Rightarrow> running_queries \<Rightarrow> bool" where
  "is_pool_active pool_key s = list_ex (\<lambda>(_, task). task_pool_key task = Some pool_key) (inner s)"

definition remove_registration :: "instant \<Rightarrow> string \<Rightarrow> 64 word \<Rightarrow> bool \<Rightarrow> running_queries \<Rightarrow> running_queries" where
  "remove_registration now execution_id r database_terminal s =
     (case hm_get (inner s) execution_id of
        None \<Rightarrow> s
      | Some task \<Rightarrow>
          if registration_id task \<noteq> r then s
          else
            signal_completion (completion task)
              (s\<lparr>completed := (if remember_completion task
                              then hm_insert execution_id (now, database_terminal) (completed s) else completed s),
                inner := hm_remove execution_id (inner s)\<rparr>))"

text \<open>What counts as proof that the database is done with a statement.\<close>

definition proves_database_terminal :: "query_execution_error + 'r \<Rightarrow> bool" where
  "proves_database_terminal result =
     (case result of
        Inr _ \<Rightarrow> True
      | Inl (AgentFailure (Structured _ _ c)) \<Rightarrow>
          operation_outcome c = NotStarted \<or> (category c = CatSql \<and> stage c = StExecute)
      | Inl (CanceledFailure _ NotStarted) \<Rightarrow> True
      | Inl _ \<Rightarrow> False)"

definition finish_with_database_result ::
  "instant \<Rightarrow> registered_query \<Rightarrow> query_execution_error + 'r \<Rightarrow> running_queries \<Rightarrow> bool \<times> running_queries" where
  "finish_with_database_result now g result s =
     (proves_database_terminal result,
      remove_registration now (guard_execution_id g) (guard_registration_id g) (proves_database_terminal result) s)"

definition drop_guard :: "instant \<Rightarrow> registered_query \<Rightarrow> running_queries \<Rightarrow> running_queries" where
  "drop_guard now g s = remove_registration now (guard_execution_id g) (guard_registration_id g) False s"

text \<open>
  A guard is detached on a timeout that a later cancel may still reach: it stays registered, and a removal
  without proof is scheduled for the end of the grace period. The first component is that schedule.
\<close>

definition detach_guard :: "instant \<Rightarrow> registered_query \<Rightarrow> running_queries \<Rightarrow> (instant \<times> registered_query) option \<times> running_queries" where
  "detach_guard now g s = (Some (now + detached_registration_grace_period, g), s)"

definition finish_with_late_cancel ::
  "instant \<Rightarrow> registered_query \<Rightarrow> query_execution_error + 'r \<Rightarrow> bool \<Rightarrow> running_queries \<Rightarrow>
   (instant \<times> registered_query) option \<times> running_queries" where
  "finish_with_late_cancel now g result keep_timeout_reachable s =
     (if keep_timeout_reachable \<and> (case result of Inl (TimeoutFailure _) \<Rightarrow> True | _ \<Rightarrow> False)
      then detach_guard now g s else (None, drop_guard now g s))"

text \<open>
  A conditional update ends with a durable receipt when it is bound to one: \<open>saved\<close> is the answer of the
  storage that was asked to write it.
\<close>

definition finish_conditional_update ::
  "instant \<Rightarrow> registered_query \<Rightarrow> unit rust_result option \<Rightarrow> query_execution_error + 'r \<Rightarrow> running_queries \<Rightarrow>
   (backend_error + 'r) \<times> running_queries" where
  "finish_conditional_update now g saved result s =
     (case finish_with_database_result now g result s of
        (terminal, s1) \<Rightarrow>
          (let answer_of = (case result of Inl e \<Rightarrow> Inl (into_backend_error e) | Inr r \<Rightarrow> Inr r) in
           (case saved of
              None \<Rightarrow> answer_of
            | Some receipt \<Rightarrow>
                if terminal then
                  (case receipt of
                     Inl message \<Rightarrow>
                       Inl (FromLegacyBackend (''TYPE terminal receipt was not saved: '' @ message @
                              ''. Keep the recovery plan; do not replay.''))
                   | Inr _ \<Rightarrow> answer_of)
                else (case result of Inl e \<Rightarrow> Inl (FromLegacyBackend (query_error_message e)) | Inr r \<Rightarrow> Inr r),
            s1)))"

text \<open>
  Observing a bound type execution reads its durable receipt, \<open>first\<close>, and when that exists without being
  terminal waits for the task and reads it again, \<open>second\<close>.
\<close>

definition observe_type_execution ::
  "instant \<Rightarrow> (running_queries \<Rightarrow> running_queries) \<Rightarrow> bool option rust_result \<Rightarrow> bool option rust_result \<Rightarrow> string \<Rightarrow>
   running_queries \<Rightarrow> cancellation_wait_result rust_result \<times> running_queries" where
  "observe_type_execution now others first second execution_id s =
     (let answer_of = (\<lambda>receipt. \<lparr>wait_requested = False, wait_terminal = (receipt = Some True),
                                  wait_database_terminal = Some (receipt = Some True)\<rparr>) in
      case first of
        Inl e \<Rightarrow> (Inl e, s)
      | Inr receipt \<Rightarrow>
          if receipt = Some False
          then (case wait_for_completion now others execution_id s of
                  (_, s1) \<Rightarrow> (case second of Inl e \<Rightarrow> (Inl e, s1) | Inr later \<Rightarrow> (Inr (answer_of later), s1)))
          else (Inr (answer_of receipt), s))"

section \<open>Events\<close>

datatype registry_event =
    Register instant string running_task_metadata bool "nat option"
  | RegisterInterrupt string nat
  | CancelQuery string
  | CloseConnection nat
  | SetPoolKey string string
  | ObserveCompletion instant string
  | FinishGuard instant registered_query "query_execution_error + unit"
  | DropGuard instant registered_query

fun registry_step :: "registry_event \<Rightarrow> running_queries \<Rightarrow> running_queries" where
  "registry_step (Register now e m remember parent) s = snd (register_task_with_token now e m remember parent s)"
| "registry_step (RegisterInterrupt e i) s = register_interrupt e i s"
| "registry_step (CancelQuery e) s = snd (cancel_query e s)"
| "registry_step (CloseConnection p) s = s\<lparr>canceled_parents := p # canceled_parents s\<rparr>"
| "registry_step (SetPoolKey e k) s = set_pool_key e k s"
| "registry_step (ObserveCompletion now e) s = snd (completed_execution_result now e s)"
| "registry_step (FinishGuard now g r) s = snd (finish_with_database_result now g r s)"
| "registry_step (DropGuard now g) s = drop_guard now g s"

fun registry_run :: "registry_event list \<Rightarrow> running_queries \<Rightarrow> running_queries" where
  "registry_run [] s = s"
| "registry_run (ev # evs) s = registry_run evs (registry_step ev s)"

lemma registry_run_append [simp]: "registry_run (es @ fs) s = registry_run fs (registry_run es s)"
  by (induction es arbitrary: s) simp_all

lemma cancel_each_run: "snd (cancel_each is s) = registry_run (map CancelQuery is) s"
  by (induction "is" arbitrary: s) (simp_all split: prod.splits, metis snd_conv)

section \<open>Interrupts\<close>

fun interrupts_of :: "registry_event list \<Rightarrow> nat list" where
  "interrupts_of [] = []"
| "interrupts_of (RegisterInterrupt e i # evs) = i # interrupts_of evs"
| "interrupts_of (ev # evs) = interrupts_of evs"

fun registers :: "string \<Rightarrow> registry_event \<Rightarrow> bool" where
  "registers e (Register now e' m remember parent) \<longleftrightarrow> e' = e"
| "registers e ev \<longleftrightarrow> False"

fun disarms :: "string \<Rightarrow> registry_event \<Rightarrow> bool" where
  "disarms e (RegisterInterrupt e' i) \<longleftrightarrow> e' = e"
| "disarms e (FinishGuard now g r) \<longleftrightarrow> guard_execution_id g = e"
| "disarms e (DropGuard now g) \<longleftrightarrow> guard_execution_id g = e"
| "disarms e ev \<longleftrightarrow> False"

lemma interrupts_of_append [simp]: "interrupts_of (es @ fs) = interrupts_of es @ interrupts_of fs"
  by (induction es rule: interrupts_of.induct) simp_all

lemmas registry_defs = register_task_with_token_def register_interrupt_def cancel_query_def set_pool_key_def
  completed_execution_result_def finish_with_database_result_def drop_guard_def remove_registration_def
  cancel_token_def signal_completion_def run_interrupt_def token_is_canceled_def Let_def

text \<open>The tasks have tokens of their own, and an interrupt is held by at most one task, not canceled, or has run.\<close>

definition tokens_fresh :: "running_queries \<Rightarrow> bool" where
  "tokens_fresh s \<longleftrightarrow> (\<forall>n. n \<in> set (canceled_tokens s) \<longrightarrow> n < next_token s) \<and>
     (\<forall>e t. hm_get (inner s) e = Some t \<longrightarrow> token_id (task_token_of t) < next_token s) \<and>
     (\<forall>e e' t t'. hm_get (inner s) e = Some t \<longrightarrow> hm_get (inner s) e' = Some t' \<longrightarrow>
        token_id (task_token_of t) = token_id (task_token_of t') \<longrightarrow> e = e')"

definition interrupts_held_once :: "nat set \<Rightarrow> running_queries \<Rightarrow> bool" where
  "interrupts_held_once U s \<longleftrightarrow> distinct (ran_interrupts s) \<and> set (ran_interrupts s) \<subseteq> U \<and>
     (\<forall>e t i. hm_get (inner s) e = Some t \<longrightarrow> task_interrupt t = Some i \<longrightarrow> i \<in> U \<and> i \<notin> set (ran_interrupts s)) \<and>
     (\<forall>e e' t t' i. hm_get (inner s) e = Some t \<longrightarrow> hm_get (inner s) e' = Some t' \<longrightarrow>
        task_interrupt t = Some i \<longrightarrow> task_interrupt t' = Some i \<longrightarrow> e = e')"

lemma tokens_fresh_step: "tokens_fresh s \<Longrightarrow> tokens_fresh (registry_step ev s)"
  by (cases ev; simp add: registry_defs tokens_fresh_def hm_lookup split: option.splits; fastforce)

lemma interrupts_held_once_step:
  "interrupts_held_once U s \<Longrightarrow> (\<And>e i. ev = RegisterInterrupt e i \<Longrightarrow> i \<notin> U) \<Longrightarrow>
   interrupts_held_once (U \<union> set (interrupts_of [ev])) (registry_step ev s)"
  by (cases ev; simp add: registry_defs interrupts_held_once_def hm_lookup split: option.splits; fastforce)

lemma interrupts_held_once_run:
  "interrupts_held_once U s \<Longrightarrow> distinct (interrupts_of es) \<Longrightarrow> set (interrupts_of es) \<inter> U = {} \<Longrightarrow>
   interrupts_held_once (U \<union> set (interrupts_of es)) (registry_run es s)"
proof (induction es arbitrary: U s)
  case (Cons ev es)
  have split: "interrupts_of (ev # es) = interrupts_of [ev] @ interrupts_of es"
    using interrupts_of_append [of "[ev]" es] by simp
  have "interrupts_held_once (U \<union> set (interrupts_of [ev])) (registry_step ev s)"
    using Cons.prems by (intro interrupts_held_once_step) auto
  from Cons.IH [OF this] Cons.prems(2,3) show ?case
    unfolding split by (auto simp: Un_assoc)
qed simp

lemma distinct_count: "distinct xs \<Longrightarrow> x \<in> set xs \<Longrightarrow> count_list xs x = 1"
  by (induction xs) auto

lemma runs_once:
  assumes "distinct (interrupts_of es)" and "i \<in> set (ran_interrupts (registry_run es no_queries))"
  shows "count_list (ran_interrupts (registry_run es no_queries)) i = 1"
proof -
  have "interrupts_held_once {} no_queries"
    by (simp add: interrupts_held_once_def no_queries_def hm_get_def)
  then have "distinct (ran_interrupts (registry_run es no_queries))"
    using interrupts_held_once_run [of "{}" no_queries es] assms(1) by (simp add: interrupts_held_once_def)
  with assms(2) show ?thesis by (simp add: distinct_count)
qed

text \<open>After a cancel, and until the id is registered again, an arriving interrupt is run at once.\<close>

definition unarmable :: "string \<Rightarrow> running_queries \<Rightarrow> bool" where
  "unarmable e s \<longleftrightarrow> (\<forall>t. hm_get (inner s) e = Some t \<longrightarrow> token_is_canceled s (task_token_of t))"

definition armed_or_run :: "string \<Rightarrow> nat \<Rightarrow> running_queries \<Rightarrow> bool" where
  "armed_or_run e i s \<longleftrightarrow> i \<in> set (ran_interrupts s) \<or> (\<exists>t. hm_get (inner s) e = Some t \<and> task_interrupt t = Some i)"

lemma unarmable_cancel: "unarmable e (registry_step (CancelQuery e) s)"
  by (simp add: unarmable_def registry_defs hm_lookup split: option.splits)

lemma unarmable_run: "unarmable e s \<Longrightarrow> \<not> list_ex (registers e) es \<Longrightarrow> unarmable e (registry_run es s)"
proof (induction es arbitrary: s)
  case (Cons ev es)
  have "unarmable e (registry_step ev s)"
    using Cons.prems
    by (cases ev; simp add: unarmable_def registry_defs hm_lookup split: option.splits; fastforce)
  with Cons show ?case by simp
qed simp

lemma unarmable_runs: "unarmable e s \<Longrightarrow> i \<in> set (ran_interrupts (registry_step (RegisterInterrupt e i) s))"
  by (auto simp: unarmable_def registry_defs split: option.splits)

lemma armed_or_run_interrupt: "armed_or_run e i (registry_step (RegisterInterrupt e i) s)"
  by (simp add: armed_or_run_def registry_defs hm_lookup split: option.splits)

lemma armed_or_run_run: "armed_or_run e i s \<Longrightarrow> \<not> list_ex (disarms e) es \<Longrightarrow> armed_or_run e i (registry_run es s)"
proof (induction es arbitrary: s)
  case (Cons ev es)
  have "armed_or_run e i (registry_step ev s)"
    using Cons.prems
    by (cases ev; simp add: armed_or_run_def registry_defs hm_lookup split: option.splits; fastforce)
  with Cons show ?case by simp
qed simp

lemma armed_or_run_cancel: "armed_or_run e i s \<Longrightarrow> i \<in> set (ran_interrupts (registry_step (CancelQuery e) s))"
  by (auto simp: armed_or_run_def registry_defs split: option.splits)



section \<open>Proof of completion\<close>

fun event_time :: "registry_event \<Rightarrow> instant" where
  "event_time (Register now e m remember parent) = now"
| "event_time (ObserveCompletion now e) = now"
| "event_time (FinishGuard now g r) = now"
| "event_time (DropGuard now g) = now"
| "event_time ev = 0"

definition holds_registration :: "registered_query \<Rightarrow> running_queries \<Rightarrow> bool" where
  "holds_registration g s \<longleftrightarrow> (\<exists>task. hm_get (inner s) (guard_execution_id g) = Some task \<and>
     registration_id task = guard_registration_id g \<and> remember_completion task)"

definition finished_with_proof :: "registry_event list \<Rightarrow> string \<Rightarrow> instant \<Rightarrow> bool" where
  "finished_with_proof es e t \<longleftrightarrow> (\<exists>es1 g r es2. es = es1 @ FinishGuard t g r # es2 \<and> guard_execution_id g = e \<and>
     proves_database_terminal r \<and> holds_registration g (registry_run es1 no_queries) \<and> \<not> list_ex (registers e) es2)"

lemma retain_recent_get:
  "hm_wf m \<Longrightarrow> hm_get (retain_recent now m) e =
     (case hm_get m e of None \<Rightarrow> None
      | Some (t, p) \<Rightarrow> if now - t < detached_registration_grace_period then Some (t, p) else None)"
  by (simp add: retain_recent_def hm_get_retain split: option.splits)

lemma completed_wf_step: "hm_wf (completed s) \<Longrightarrow> hm_wf (completed (registry_step ev s))"
  by (cases ev; simp add: registry_defs retain_recent_def wf_intros split: option.splits)

lemma completed_wf_run: "hm_wf (completed s) \<Longrightarrow> hm_wf (completed (registry_run es s))"
  by (induction es arbitrary: s) (simp_all add: completed_wf_step)

text \<open>Where an entry that proves completion comes from.\<close>

lemma proof_step:
  assumes "hm_wf (completed s)" and "hm_get (completed (registry_step ev s)) e = Some (t, True)"
  shows "(hm_get (completed s) e = Some (t, True) \<and> \<not> registers e ev) \<or>
    (\<exists>g r. ev = FinishGuard t g r \<and> guard_execution_id g = e \<and> proves_database_terminal r \<and> holds_registration g s)"
  using assms
  by (cases ev) (auto simp: registry_defs hm_lookup retain_recent_get holds_registration_def
        split: option.splits if_splits)

lemma proof_origin:
  "hm_get (completed (registry_run es no_queries)) e = Some (t, True) \<Longrightarrow> finished_with_proof es e t"
proof (induction es rule: rev_induct)
  case Nil
  then show ?case by (simp add: no_queries_def hm_get_def)
next
  case (snoc ev es)
  have "hm_wf (completed (registry_run es no_queries))"
    by (rule completed_wf_run) (simp add: no_queries_def hm_wf_def)
  from proof_step [OF this] snoc.prems
  consider "hm_get (completed (registry_run es no_queries)) e = Some (t, True)" and "\<not> registers e ev"
    | g r where "ev = FinishGuard t g r" "guard_execution_id g = e" "proves_database_terminal r"
        "holds_registration g (registry_run es no_queries)"
    by fastforce
  then show ?case
  proof cases
    case 1
    from snoc.IH [OF 1(1)] obtain es1 g r es2 where
      "es = es1 @ FinishGuard t g r # es2" "guard_execution_id g = e" "proves_database_terminal r"
      "holds_registration g (registry_run es1 no_queries)" "\<not> list_ex (registers e) es2"
      unfolding finished_with_proof_def by blast
    with 1(2) show ?thesis
      unfolding finished_with_proof_def
      by (intro exI [of _ es1] exI [of _ g] exI [of _ r] exI [of _ "es2 @ [ev]"]) simp
  next
    case 2
    then show ?thesis
      unfolding finished_with_proof_def by (intro exI [of _ es] exI [of _ g] exI [of _ r] exI [of _ "[]"]) simp
  qed
qed

text \<open>A proof is kept until the id is registered again or the grace period is over.\<close>

definition proof_known :: "string \<Rightarrow> instant \<Rightarrow> running_queries \<Rightarrow> bool" where
  "proof_known e t s \<longleftrightarrow> hm_wf (completed s) \<and> hm_get (inner s) e = None \<and> hm_get (completed s) e = Some (t, True)"

lemma proof_known_finish:
  assumes "hm_wf (completed s)" and "holds_registration g s" and "proves_database_terminal r"
  shows "proof_known (guard_execution_id g) t (registry_step (FinishGuard t g r) s)"
  using assms completed_wf_step [OF assms(1), of "FinishGuard t g r"]
  by (auto simp: proof_known_def holds_registration_def registry_defs hm_lookup)

lemma proof_known_run:
  "proof_known e t s \<Longrightarrow> \<not> list_ex (registers e) es \<Longrightarrow> list_all (\<lambda>ev. event_time ev \<le> now) es \<Longrightarrow>
   now - t < detached_registration_grace_period \<Longrightarrow> proof_known e t (registry_run es s)"
proof (induction es arbitrary: s)
  case (Cons ev es)
  have wf: "hm_wf (completed s)" using Cons.prems(1) by (simp add: proof_known_def)
  have recent: "event_time ev - t < detached_registration_grace_period"
    using Cons.prems(3,4) by (auto intro: order.strict_trans1 [OF diff_le_mono])
  have "proof_known e t (registry_step ev s)"
    using Cons.prems(1,2) recent completed_wf_step [OF wf, of ev]
    by (cases ev) (auto simp: proof_known_def registry_defs hm_lookup retain_recent_get split: option.splits if_splits)
  with Cons show ?case by simp
qed simp

lemma proof_known_result:
  assumes "proof_known e t s" and "now - t < detached_registration_grace_period"
  shows "wait_database_terminal (fst (completed_execution_result now e s)) = Some True"
  using assms by (simp add: proof_known_def completed_execution_result_def Let_def retain_recent_get)

text \<open>
  C14. A client that asks whether the database is done with an execution is told so exactly if, less than the
  grace period ago, the guard that held that id's current registration finished with a result that proves it
  (success, a rejected statement or an operation that never started) and the id was not registered since. No
  cancel, drop, detached guard or stale guard yields the answer. Clocks do not run backwards.
\<close>

theorem database_terminal_only_with_proof:
  assumes "list_all (\<lambda>ev. event_time ev \<le> now) es"
  shows "wait_database_terminal (fst (completed_execution_result now e (registry_run es no_queries))) = Some True \<longleftrightarrow>
    (\<exists>t. now - t < detached_registration_grace_period \<and> finished_with_proof es e t)" (is "?told \<longleftrightarrow> ?proved")
proof
  have wf: "hm_wf (completed (registry_run fs no_queries))" for fs
    by (rule completed_wf_run) (simp add: no_queries_def hm_wf_def)
  assume ?told
  then obtain t where "hm_get (completed (registry_run es no_queries)) e = Some (t, True)"
    and "now - t < detached_registration_grace_period"
    by (auto simp: completed_execution_result_def Let_def retain_recent_get [OF wf] split: option.splits if_splits)
  then show ?proved using proof_origin by blast
next
  have wf: "hm_wf (completed (registry_run fs no_queries))" for fs
    by (rule completed_wf_run) (simp add: no_queries_def hm_wf_def)
  assume ?proved
  then obtain t es1 g r es2 where recent: "now - t < detached_registration_grace_period"
    and es: "es = es1 @ FinishGuard t g r # es2" and g: "guard_execution_id g = e"
    and r: "proves_database_terminal r" and held: "holds_registration g (registry_run es1 no_queries)"
    and no: "\<not> list_ex (registers e) es2"
    unfolding finished_with_proof_def by blast
  have "proof_known e t (registry_step (FinishGuard t g r) (registry_run es1 no_queries))"
    using proof_known_finish [OF wf held r] g by simp
  then have "proof_known e t (registry_run es no_queries)"
    using proof_known_run [OF _ no _ recent] assms by (simp add: es)
  then show ?told using recent by (rule proof_known_result)
qed

theorem database_terminal_only_with_proof_witness:
  "let g = \<lparr>guard_execution_id = ''step'', guard_registration_id = 1\<rparr>;
       start = Register 0 ''step'' default_task_metadata True None
   in wait_database_terminal (fst (completed_execution_result 9 ''step''
        (registry_run [start, FinishGuard 5 g (Inr ())] no_queries))) = Some True \<and>
      (\<exists>t. 9 - t < detached_registration_grace_period \<and> finished_with_proof [start, FinishGuard 5 g (Inr ())] ''step'' t)"
proof -
  let ?g = "\<lparr>guard_execution_id = ''step'', guard_registration_id = 1\<rparr>"
  let ?start = "Register 0 ''step'' default_task_metadata True None"
  have "wait_database_terminal (fst (completed_execution_result 9 ''step''
      (registry_run [?start, FinishGuard 5 ?g (Inr ())] no_queries))) = Some True"
    by (simp add: registry_defs no_queries_def hm_get_def hm_insert_def hm_remove_def hm_retain_def retain_recent_def
        proves_database_terminal_def detached_registration_grace_period_def from_secs_def)
  with database_terminal_only_with_proof [of 9 "[?start, FinishGuard 5 ?g (Inr ())]" "''step''"]
  show ?thesis by (simp add: Let_def)
qed

text \<open>
  A cancel of an ordinary task, one whose completion is not remembered, is reported as terminal at once,
  whatever its owner is still doing.
\<close>

lemma ordinary_cancel_is_reported_terminal:
  assumes "hm_get (inner s) e = Some task" and "\<not> remember_completion task"
  shows "wait_terminal (fst (cancel_and_wait now others e s))"
  using assms by (simp add: cancel_and_wait_def cancel_query_def signal_completion_def Let_def split: prod.splits)

end
