(* ===== verification/Query_Run.thy ===== *)
theory Query_Run
  imports Query_Errors
begin

text \<open>
  Running a statement with recovery, and a batch of statements one after the other
  (\<^verbatim>\<open>execute_sql_statement_with_options_typed_inner\<close>, \<^verbatim>\<open>execute_postgres_drop_database\<close>,
  \<^verbatim>\<open>recover_postgres_create_table_after_connection_error\<close> and the statement loop of
  \<^verbatim>\<open>execute_multi_core_with_options_for_client_and_progress_typed_inner\<close> in
  \<^verbatim>\<open>crates/dbx-core/src/query/mod.rs\<close>).

  What the database and the pools answer is the environment: \<open>answer n\<close> is the outcome of the \<open>n\<close>-th statement
  handed to \<^verbatim>\<open>do_execute_typed\<close>, \<open>reconnected n\<close> that of the \<open>n\<close>-th reconnect, and \<open>canceled n\<close> whether the
  cancellation token is set when it is read for the \<open>n\<close>-th time. The state records what was handed over, so
  that the properties can speak about how often and in which order statements reach the database. The SQL
  parser (\<open>create_table_relation\<close>, \<open>drop_database_target\<close>) and the rewriting of generated preview statements
  (\<open>preview_fallback_sql\<close>) are arguments too.
\<close>

section \<open>Results, options, environment\<close>

record query_result =
  result_columns :: "string list"
  result_rows :: "json list list"
  affected_rows :: nat
  result_truncated :: bool

definition empty_query_result :: query_result where
  "empty_query_result = \<lparr>result_columns = [], result_rows = [], affected_rows = 0, result_truncated = False\<rparr>"

definition error_query_result :: "string \<Rightarrow> query_result" where
  "error_query_result message = \<lparr>result_columns = [''Error''], result_rows = [[JString message]], affected_rows = 0,
     result_truncated = False\<rparr>"

type_synonym execution = "query_execution_error + query_result"

datatype query_execution_mode = StandardMode | SimpleMode | PostgresReadOnlyTransaction

record query_execution_options =
  opt_max_rows :: "nat option"
  opt_page_size :: "nat option"
  opt_max_result_bytes :: "nat option"
  opt_table_data_preview :: bool
  opt_result_session_id :: "string option"
  opt_client_session_id :: "string option"
  opt_use_transaction :: "bool option"
  opt_continue_on_error :: bool
  opt_execution_mode :: query_execution_mode
  opt_preserve_explicit_transaction :: bool

definition default_query_execution_options :: query_execution_options where
  "default_query_execution_options =
     \<lparr>opt_max_rows = None, opt_page_size = None, opt_max_result_bytes = None, opt_table_data_preview = False,
      opt_result_session_id = None, opt_client_session_id = None, opt_use_transaction = None,
      opt_continue_on_error = False, opt_execution_mode = StandardMode, opt_preserve_explicit_transaction = False\<rparr>"

record exec_env =
  env_tokenizer :: tokenizer
  env_into :: "database_type \<Rightarrow> string \<Rightarrow> bool"
  env_is_agent :: "database_type \<Rightarrow> bool"
  env_codec :: agent_codec
  env_json :: "string \<Rightarrow> json option"
  env_now :: instant
  env_owner :: "string option"
  create_table_relation :: "string \<Rightarrow> (string option \<times> string) option"
  drop_database_target :: "string \<Rightarrow> string option"
  preview_fallback_sql :: "string \<Rightarrow> string option"
  pool_for_session :: "string rust_result"
  answer :: "nat \<Rightarrow> string \<Rightarrow> string \<Rightarrow> execution"
  reconnected :: "nat \<Rightarrow> string rust_result"
  canceled :: "nat \<Rightarrow> bool"
  close_database_pool :: "string \<Rightarrow> unit rust_result"
  admin_pool :: "string \<Rightarrow> string rust_result"
  admin_pool_is_postgres :: "string \<Rightarrow> bool option"
  drop_answer :: "nat \<Rightarrow> string \<Rightarrow> query_result rust_result"

record exec_state =
  dispatched :: "(string \<times> string) list"
  reconnect_count :: nat
  cancel_checks :: nat
  removed_pools :: "string list"
  exec_gate :: gate_state

definition do_execute_typed :: "exec_env \<Rightarrow> string \<Rightarrow> string \<Rightarrow> exec_state \<Rightarrow> execution \<times> exec_state" where
  "do_execute_typed env pool_key sql s =
     (answer env (length (dispatched s)) pool_key sql, s\<lparr>dispatched := dispatched s @ [(pool_key, sql)]\<rparr>)"

definition check_canceled :: "exec_env \<Rightarrow> exec_state \<Rightarrow> bool \<times> exec_state" where
  "check_canceled env s = (canceled env (cancel_checks s), s\<lparr>cancel_checks := Suc (cancel_checks s)\<rparr>)"

definition reconnect_pool_for_session :: "exec_env \<Rightarrow> exec_state \<Rightarrow> string rust_result \<times> exec_state" where
  "reconnect_pool_for_session env s =
     (reconnected env (reconnect_count s), s\<lparr>reconnect_count := Suc (reconnect_count s)\<rparr>)"

section \<open>One statement\<close>

definition validate_query_execution_mode ::
  "exec_env \<Rightarrow> database_type option \<Rightarrow> string \<Rightarrow> query_execution_options \<Rightarrow> unit rust_result" where
  "validate_query_execution_mode env database sql opts =
     (if opt_execution_mode opts \<noteq> PostgresReadOnlyTransaction then Inr ()
      else if database \<noteq> Some ''Postgres''
      then Inl ''PostgreSQL read-only transaction mode requires a PostgreSQL connection''
      else if (case opt_client_session_id opts of None \<Rightarrow> True | Some i \<Rightarrow> trim i = [])
      then Inl ''PostgreSQL read-only transaction mode requires an isolated client session''
      else if length (split_sql_statements_for_database (env_tokenizer env) sql ''Postgres'') \<noteq> 1
      then Inl ''PostgreSQL read-only transaction mode requires exactly one statement''
      else Inr ())"

definition native_postgres_compatibility_type :: "database_type option \<Rightarrow> bool" where
  "native_postgres_compatibility_type database =
     (case database of None \<Rightarrow> False | Some db \<Rightarrow> db \<in> set [''Postgres'', ''Gaussdb'', ''OpenGauss'', ''Kwdb'', ''Questdb''])"

definition should_verify_postgres_create_table_after_connection_error ::
  "exec_env \<Rightarrow> database_type option \<Rightarrow> string \<Rightarrow> string \<Rightarrow> bool" where
  "should_verify_postgres_create_table_after_connection_error env database sql message \<longleftrightarrow>
     native_postgres_compatibility_type database \<and> is_connection_error message \<and> create_table_relation env sql \<noteq> None"

definition is_postgres_duplicate_relation_error :: "string \<Rightarrow> bool" where
  "is_postgres_duplicate_relation_error message =
     (let lower = to_ascii_lowercase message in
      str_contains ''already exists'' lower \<and> (str_contains ''relation'' lower \<or> str_contains ''table'' lower))"

definition is_preview_missing_left_function_error :: "string \<Rightarrow> bool" where
  "is_preview_missing_left_function_error message =
     (let normalized = to_ascii_lowercase message in
      str_contains ''function left('' normalized \<and> str_contains ''does not exist'' normalized)"

definition preview_missing_left_function_fallback_sql ::
  "exec_env \<Rightarrow> query_execution_options \<Rightarrow> string \<Rightarrow> string \<Rightarrow> string option" where
  "preview_missing_left_function_fallback_sql env opts message sql =
     (if \<not> opt_table_data_preview opts \<or> \<not> is_preview_missing_left_function_error message then None
      else preview_fallback_sql env sql)"

definition postgres_drop_database_admin_database :: "string \<Rightarrow> string" where
  "postgres_drop_database_admin_database target = (if eq_ignore_ascii_case target ''postgres'' then ''template1'' else ''postgres'')"

definition postgres_drop_database_target :: "exec_env \<Rightarrow> database_type option \<Rightarrow> string \<Rightarrow> string option" where
  "postgres_drop_database_target env database sql =
     (if database \<noteq> Some ''Postgres'' then None else drop_database_target env sql)"

text \<open>A database is dropped from the administration database, after the pools of the target were closed.\<close>

definition execute_postgres_drop_database ::
  "exec_env \<Rightarrow> string \<Rightarrow> string \<Rightarrow> exec_state \<Rightarrow> query_result rust_result \<times> exec_state" where
  "execute_postgres_drop_database env target sql s =
     (case close_database_pool env target of
        Inl e \<Rightarrow> (Inl e, s)
      | Inr _ \<Rightarrow>
          (case admin_pool env (postgres_drop_database_admin_database target) of
             Inl e \<Rightarrow> (Inl (query_error_with_omitted_sql_context e sql), s)
           | Inr pool_key \<Rightarrow>
               (case check_canceled env s of
                  (True, s1) \<Rightarrow> (Inl query_canceled, s1)
                | (False, s1) \<Rightarrow>
                    (case check_read_only_for_connection (env_tokenizer env) (env_into env) (env_json env) (env_now env)
                            (env_owner env) (exec_gate s1) pool_key sql of
                       (Inl e, g) \<Rightarrow> (Inl e, s1\<lparr>exec_gate := g\<rparr>)
                     | (Inr _, g) \<Rightarrow>
                         (case admin_pool_is_postgres env pool_key of
                            None \<Rightarrow> (Inl ''Connection not found'', s1\<lparr>exec_gate := g\<rparr>)
                          | Some False \<Rightarrow>
                              (Inl ''DROP DATABASE reconnect did not create a PostgreSQL connection'', s1\<lparr>exec_gate := g\<rparr>)
                          | Some True \<Rightarrow>
                              (drop_answer env (length (dispatched s1)) sql,
                               s1\<lparr>exec_gate := g, dispatched := dispatched s1 @ [(pool_key, sql)]\<rparr>))))))"

definition pg_quote_literal :: "string \<Rightarrow> string" where
  "pg_quote_literal v = [CHR 39] @ concat (map (\<lambda>c. if c = CHR 39 then [CHR 39, CHR 39] else [c]) v) @ [CHR 39]"

definition create_table_verify_sql :: "string option \<Rightarrow> string option \<Rightarrow> string \<Rightarrow> string" where
  "create_table_verify_sql qualified_schema schema table_name =
     (let schema_predicate =
        (case (case qualified_schema of None \<Rightarrow> schema | Some q \<Rightarrow> Some q) of
           Some name \<Rightarrow> ''n.nspname = '' @ pg_quote_literal name
         | None \<Rightarrow> ''n.nspname = current_schema()'')
      in ''SELECT EXISTS (SELECT 1 FROM pg_catalog.pg_class c JOIN pg_catalog.pg_namespace n ON n.oid = c.relnamespace WHERE '' @
         schema_predicate @ '' AND c.relname = '' @ pg_quote_literal table_name @ '') AS dbx_create_table_applied'')"

definition first_cell_is_true :: "execution \<Rightarrow> bool" where
  "first_cell_is_true r =
     (case r of Inr q \<Rightarrow> (case result_rows q of (JBool b # _) # _ \<Rightarrow> b | _ \<Rightarrow> False) | Inl _ \<Rightarrow> False)"

definition recover_postgres_create_table ::
  "exec_env \<Rightarrow> database_type option \<Rightarrow> string option \<Rightarrow> string \<Rightarrow> query_execution_error \<Rightarrow> exec_state \<Rightarrow>
   query_result option \<times> exec_state" where
  "recover_postgres_create_table env database schema sql initial_error s =
     (case check_canceled env s of
        (stop, s1) \<Rightarrow>
          if stop \<or> \<not> should_verify_postgres_create_table_after_connection_error env database sql (query_error_message initial_error)
          then (None, s1)
          else
            (case reconnect_pool_for_session env s1 of
               (Inl _, s2) \<Rightarrow> (None, s2)
             | (Inr new_key, s2) \<Rightarrow>
                 (case do_execute_typed env new_key sql s2 of
                    (Inr result, s3) \<Rightarrow> (Some result, s3)
                  | (Inl retry_error, s3) \<Rightarrow>
                      if \<not> is_postgres_duplicate_relation_error (query_error_message retry_error) then (None, s3)
                      else
                        (case create_table_relation env sql of
                           None \<Rightarrow> (None, s3)
                         | Some (qualified_schema, table_name) \<Rightarrow>
                             (case do_execute_typed env new_key (create_table_verify_sql qualified_schema schema table_name) s3 of
                                (verified, s4) \<Rightarrow> (if first_cell_is_true verified then Some empty_query_result else None, s4))))))"

definition with_sql_context :: "string \<Rightarrow> execution \<Rightarrow> execution" where
  "with_sql_context sql r = (case r of Inl e \<Rightarrow> Inl (with_omitted_sql_context e sql) | Inr q \<Rightarrow> Inr q)"

text \<open>What happens after the first attempt on the pool.\<close>

definition finish_statement ::
  "exec_env \<Rightarrow> database_type option \<Rightarrow> string option \<Rightarrow> query_execution_options \<Rightarrow> string \<Rightarrow> string \<Rightarrow>
   query_execution_error \<Rightarrow> exec_state \<Rightarrow> execution \<times> exec_state" where
  "finish_statement env database schema opts pool_key sql e s =
     (case preview_missing_left_function_fallback_sql env opts (query_error_message e) sql of
        Some fallback_sql \<Rightarrow>
          (case do_execute_typed env pool_key fallback_sql s of (r, s1) \<Rightarrow> (with_sql_context sql r, s1))
      | None \<Rightarrow>
          (let action = query_execution_error_action (env_tokenizer env) (env_into env) (env_is_agent env) (env_codec env)
                          database sql e
           in case recover_postgres_create_table env database schema sql e s of
                (Some recovered, s1) \<Rightarrow> (Inr recovered, s1)
              | (None, s1) \<Rightarrow>
                  (case action of
                     ReconnectAndRetry \<Rightarrow>
                       (case check_canceled env s1 of
                          (True, s2) \<Rightarrow> (with_sql_context sql (Inl e), s2)
                        | (False, s2) \<Rightarrow>
                            (case reconnect_pool_for_session env s2 of
                               (Inl err, s3) \<Rightarrow> (Inl (LegacyFailure (query_error_with_omitted_sql_context err sql)), s3)
                             | (Inr new_key, s3) \<Rightarrow>
                                 (case do_execute_typed env new_key sql s3 of (r, s4) \<Rightarrow> (with_sql_context sql r, s4))))
                   | PoolDiscard \<Rightarrow>
                       (with_sql_context sql (Inl e),
                        if is_agent_database (env_is_agent env) database then s1
                        else s1\<lparr>removed_pools := removed_pools s1 @ [pool_key]\<rparr>)
                   | PoolKeep \<Rightarrow> (with_sql_context sql (Inl e), s1))))"

definition mongo_shell_command_hint :: string where
  "mongo_shell_command_hint =
     ''Use MongoDB shell-style commands, for example: db.collection.find({}).limit(100), db.collection.aggregate([]), '' @
     ''db.collection.aggregate([], { explain: true }), db.version(), db.collection.countDocuments({}), '' @
     ''db.collection.distinct('' @ [CHR 34] @ ''field'' @ [CHR 34] @ ''), db.collection.getIndexes(), '' @
     ''db.collection.createIndex({...}), db.createUser({...}), or db.collection.insertOne({...}).''"

definition has_executable_sql_of :: "database_type option \<Rightarrow> string \<Rightarrow> bool" where
  "has_executable_sql_of database sql =
     has_executable_sql_with_options (case database of None \<Rightarrow> default_profile | Some db \<Rightarrow> profile_for_database_type db) sql"

definition execute_sql_statement ::
  "exec_env \<Rightarrow> database_type option \<Rightarrow> string option \<Rightarrow> query_execution_options \<Rightarrow> string \<Rightarrow> exec_state \<Rightarrow>
   execution \<times> exec_state" where
  "execute_sql_statement env database schema opts sql s =
     (if database = Some ''MongoDb'' then (Inl (LegacyFailure mongo_shell_command_hint), s)
      else
        (case validate_query_execution_mode env database sql opts of
           Inl e \<Rightarrow> (Inl (LegacyFailure e), s)
         | Inr _ \<Rightarrow>
             if \<not> has_executable_sql_of database sql \<and> opt_result_session_id opts = None then (Inr empty_query_result, s)
             else
               (case postgres_drop_database_target env database sql of
                  Some target \<Rightarrow>
                    (case execute_postgres_drop_database env target sql s of
                       (Inl e, s1) \<Rightarrow> (Inl (LegacyFailure e), s1)
                     | (Inr q, s1) \<Rightarrow> (Inr q, s1))
                | None \<Rightarrow>
                    (case pool_for_session env of
                       Inl e \<Rightarrow> (Inl (LegacyFailure (query_error_with_omitted_sql_context e sql)), s)
                     | Inr pool_key \<Rightarrow>
                         (case check_canceled env s of
                            (True, s1) \<Rightarrow> (Inl pre_dispatch_canceled_query_execution_error, s1)
                          | (False, s1) \<Rightarrow>
                              (case do_execute_typed env pool_key sql s1 of
                                 (Inr q, s2) \<Rightarrow> (Inr q, s2)
                               | (Inl e, s2) \<Rightarrow> finish_statement env database schema opts pool_key sql e s2))))))"

section \<open>A batch\<close>

record execute_multi_result =
  multi_result :: query_result
  multi_execution_error :: bool
  multi_statement_index :: "nat option"
  multi_error :: "backend_error option"
  auto_commit_open_transaction :: "bool option"
  auto_commit_explicit_transaction_rolled_back :: bool
  auto_commit_session_autocommit_rolled_back :: bool

definition options_for_sequential_statements ::
  "query_execution_options \<Rightarrow> nat \<Rightarrow> database_type option \<Rightarrow> query_execution_options" where
  "options_for_sequential_statements opts count database =
     (if count \<le> 1 \<or> \<not> (case database of None \<Rightarrow> False | Some db \<Rightarrow> db \<in> set [''Kingbase'', ''Vastbase'', ''Oracle'']) \<or>
         opt_result_session_id opts \<noteq> None
      then opts
      else
        (case opt_page_size opts of
           None \<Rightarrow> opts
         | Some n \<Rightarrow>
             opts\<lparr>opt_page_size := None,
                  opt_max_rows := Some (case opt_max_rows opts of None \<Rightarrow> max n 1 | Some m \<Rightarrow> min m (max n 1))\<rparr>))"

definition execution_error_with_backend :: "query_result \<Rightarrow> nat option \<Rightarrow> backend_error \<Rightarrow> execute_multi_result" where
  "execution_error_with_backend q i e =
     \<lparr>multi_result = q, multi_execution_error = True, multi_statement_index = i, multi_error = Some e,
      auto_commit_open_transaction = None, auto_commit_explicit_transaction_rolled_back = False,
      auto_commit_session_autocommit_rolled_back = False\<rparr>"

definition error_entry :: "exec_env \<Rightarrow> nat \<Rightarrow> query_execution_error \<Rightarrow> execute_multi_result" where
  "error_entry env i e =
     execution_error_with_backend (error_query_result (query_error_into_legacy_string (env_codec env) e)) (Some i)
       (into_backend_error e)"

definition success_entry :: "nat option \<Rightarrow> query_result \<Rightarrow> execute_multi_result" where
  "success_entry i q =
     \<lparr>multi_result = q, multi_execution_error = False, multi_statement_index = i, multi_error = None,
      auto_commit_open_transaction = None, auto_commit_explicit_transaction_rolled_back = False,
      auto_commit_session_autocommit_rolled_back = False\<rparr>"

fun run_statements ::
  "exec_env \<Rightarrow> database_type option \<Rightarrow> string option \<Rightarrow> query_execution_options \<Rightarrow> bool \<Rightarrow> nat \<Rightarrow> string list \<Rightarrow>
   exec_state \<Rightarrow> execute_multi_result list \<times> exec_state" where
  "run_statements env database schema opts continue_on_error i [] s = ([], s)"
| "run_statements env database schema opts continue_on_error i (sql # rest) s =
     (case check_canceled env s of
        (True, s1) \<Rightarrow> ([error_entry env i canceled_query_execution_error], s1)
      | (False, s1) \<Rightarrow>
          (case execute_sql_statement env database schema opts sql s1 of
             (Inr q, s2) \<Rightarrow>
               (case run_statements env database schema opts continue_on_error (Suc i) rest s2 of
                  (results, s3) \<Rightarrow> (success_entry (Some i) q # results, s3))
           | (Inl e, s2) \<Rightarrow>
               (let action = query_execution_error_action (env_tokenizer env) (env_into env) (env_is_agent env)
                               (env_codec env) database sql e
                in if should_continue_batch_after_error continue_on_error action
                   then (case run_statements env database schema opts continue_on_error (Suc i) rest s2 of
                           (results, s3) \<Rightarrow> (error_entry env i e # results, s3))
                   else ([error_entry env i e], s2))))"

section \<open>Lemmas\<close>

lemma do_execute_typed_state [simp]:
  "dispatched (snd (do_execute_typed env k sql s)) = dispatched s @ [(k, sql)]"
  "cancel_checks (snd (do_execute_typed env k sql s)) = cancel_checks s"
  by (simp_all add: do_execute_typed_def)

lemma check_canceled_state [simp]:
  "fst (check_canceled env s) = canceled env (cancel_checks s)"
  "dispatched (snd (check_canceled env s)) = dispatched s"
  "cancel_checks (snd (check_canceled env s)) = Suc (cancel_checks s)"
  by (simp_all add: check_canceled_def)

lemma reconnect_state [simp]:
  "dispatched (snd (reconnect_pool_for_session env s)) = dispatched s"
  "cancel_checks (snd (reconnect_pool_for_session env s)) = cancel_checks s"
  by (simp_all add: reconnect_pool_for_session_def)

text \<open>
  A statement that may be handed over only once: a write that is not dropped from the administration
  database and is not a CREATE TABLE that is verified after a lost connection.
\<close>

definition once_only_write :: "exec_env \<Rightarrow> database_type option \<Rightarrow> string \<Rightarrow> bool" where
  "once_only_write env database sql \<longleftrightarrow>
     is_write_sql (env_tokenizer env) (env_into env) sql \<and> has_executable_sql_of database sql \<and>
     postgres_drop_database_target env database sql = None \<and>
     \<not> (native_postgres_compatibility_type database \<and> create_table_relation env sql \<noteq> None)"

text \<open>The query that verifies a CREATE TABLE is not itself such a write.\<close>

definition verification_reads :: "exec_env \<Rightarrow> database_type option \<Rightarrow> string option \<Rightarrow> string \<Rightarrow> bool" where
  "verification_reads env database schema sql \<longleftrightarrow>
     (case create_table_relation env sql of
        None \<Rightarrow> True
      | Some (qualified_schema, table_name) \<Rightarrow>
          \<not> native_postgres_compatibility_type database \<or>
          \<not> once_only_write env database (create_table_verify_sql qualified_schema schema table_name))"

abbreviation writes_of :: "exec_env \<Rightarrow> database_type option \<Rightarrow> exec_state \<Rightarrow> string list" where
  "writes_of env database s \<equiv> filter (once_only_write env database) (map snd (dispatched s))"

lemma recover_writes:
  assumes "verification_reads env database schema sql"
    and "recover_postgres_create_table env database schema sql e s = (r, s')"
  shows "writes_of env database s' = writes_of env database s \<and> cancel_checks s' = Suc (cancel_checks s)"
proof (cases "should_verify_postgres_create_table_after_connection_error env database sql (query_error_message e)")
  case False
  then show ?thesis using assms(2) by (auto simp: recover_postgres_create_table_def check_canceled_def)
next
  case True
  then have quiet: "\<not> once_only_write env database sql" and native: "native_postgres_compatibility_type database"
    by (simp_all add: should_verify_postgres_create_table_after_connection_error_def once_only_write_def)
  obtain q t where rel: "create_table_relation env sql = Some (q, t)"
    using True by (auto simp: should_verify_postgres_create_table_after_connection_error_def)
  then have "\<not> once_only_write env database (create_table_verify_sql q schema t)"
    using assms(1) native by (simp add: verification_reads_def)
  then show ?thesis
    using assms(2) True quiet rel
    by (auto simp: recover_postgres_create_table_def do_execute_typed_def check_canceled_def reconnect_pool_for_session_def
        split: sum.splits if_splits)
qed

lemma once_only_write_not_retried:
  assumes "once_only_write env database sql"
  shows "query_execution_error_action (env_tokenizer env) (env_into env) (env_is_agent env) (env_codec env) database sql e
      \<noteq> ReconnectAndRetry"
  using assms retry_only_reads unfolding once_only_write_def by blast

lemma finish_writes:
  assumes "\<not> opt_table_data_preview opts" and "verification_reads env database schema sql"
    and finish: "finish_statement env database schema opts k sql e s = (r, s')"
  shows "writes_of env database s' = writes_of env database s \<and> Suc (cancel_checks s) \<le> cancel_checks s'"
proof -
  obtain q s1 where recover: "recover_postgres_create_table env database schema sql e s = (q, s1)" by fastforce
  have s1: "writes_of env database s1 = writes_of env database s" "cancel_checks s1 = Suc (cancel_checks s)"
    using recover_writes [OF assms(2) recover] by simp_all
  have no_fallback: "preview_missing_left_function_fallback_sql env opts (query_error_message e) sql = None"
    using assms(1) by (simp add: preview_missing_left_function_fallback_sql_def)
  show ?thesis
  proof (cases "once_only_write env database sql")
    case True
    from once_only_write_not_retried [OF True, of e] show ?thesis
      using finish s1 unfolding finish_statement_def no_fallback recover Let_def
      by (cases q) (auto split: pool_action.splits if_splits)
  next
    case False
    then show ?thesis
      using finish s1 unfolding finish_statement_def no_fallback recover Let_def
      by (cases q) (auto simp: do_execute_typed_def check_canceled_def reconnect_pool_for_session_def
          split: pool_action.splits if_splits sum.splits bool.splits)
  qed
qed

lemma drop_database_writes:
  assumes "\<not> once_only_write env database sql"
  shows "writes_of env database (snd (execute_postgres_drop_database env target sql s)) = writes_of env database s \<and>
     cancel_checks s \<le> cancel_checks (snd (execute_postgres_drop_database env target sql s))"
  using assms
  by (simp add: execute_postgres_drop_database_def check_canceled_def split: sum.split prod.split option.split bool.split)

text \<open>Such a write is handed over exactly once, unless the run was canceled before; other statements add none.\<close>

lemma execute_statement_writes:
  assumes opts: "\<not> opt_table_data_preview opts" "opt_execution_mode opts \<noteq> PostgresReadOnlyTransaction"
    and verify: "verification_reads env database schema sql"
    and pool: "database \<noteq> Some ''MongoDb''" "pool_for_session env = Inr k"
    and run: "execute_sql_statement env database schema opts sql s = (r, s')"
  shows "(writes_of env database s' = writes_of env database s @
       (if once_only_write env database sql \<and> \<not> canceled env (cancel_checks s) then [sql] else [])) \<and>
     cancel_checks s \<le> cancel_checks s' \<and>
     (once_only_write env database sql \<longrightarrow> cancel_checks s < cancel_checks s')"
proof -
  let ?s1 = "snd (check_canceled env s)"
  let ?dispatch = "case check_canceled env s of
      (True, s1) \<Rightarrow> (Inl pre_dispatch_canceled_query_execution_error, s1)
    | (False, s1) \<Rightarrow> (case do_execute_typed env k sql s1 of
         (Inr q, s2) \<Rightarrow> (Inr q, s2)
       | (Inl e, s2) \<Rightarrow> finish_statement env database schema opts k sql e s2)"
  consider (blank) "\<not> has_executable_sql_of database sql" "s' = s"
    | (drop) target where "postgres_drop_database_target env database sql = Some target"
        "s' = snd (execute_postgres_drop_database env target sql s)"
    | (dispatch) "(r, s') = ?dispatch"
    using run opts pool
    by (auto simp: execute_sql_statement_def validate_query_execution_mode_def split: if_splits option.splits prod.splits sum.splits)
  then show ?thesis
  proof cases
    case blank
    then show ?thesis by (simp add: once_only_write_def)
  next
    case (drop target)
    then have "\<not> once_only_write env database sql" by (simp add: once_only_write_def)
    then show ?thesis using drop(2) drop_database_writes by simp
  next
    case dispatch
    show ?thesis
    proof (cases "canceled env (cancel_checks s)")
      case True
      then show ?thesis using dispatch by (auto simp: check_canceled_def)
    next
      case False
      obtain a s2 where exec: "do_execute_typed env k sql ?s1 = (a, s2)" by fastforce
      have s2: "dispatched s2 = dispatched s @ [(k, sql)]" "cancel_checks s2 = Suc (cancel_checks s)"
        using do_execute_typed_state [of env k sql ?s1] exec by simp_all
      have after: "(r, s') = (case a of Inr q \<Rightarrow> (Inr q, s2) | Inl e \<Rightarrow> finish_statement env database schema opts k sql e s2)"
        using dispatch False exec by (simp add: check_canceled_def split: sum.split)
      show ?thesis
      proof (cases a)
        case (Inl e)
        then have "finish_statement env database schema opts k sql e s2 = (r, s')" using after by simp
        from finish_writes [OF opts(1) verify this] show ?thesis using s2 False by simp
      next
        case (Inr q)
        then show ?thesis using after s2 False by simp
      qed
    qed
  qed
qed

lemma run_statements_canceled:
  "canceled env (cancel_checks s) \<Longrightarrow> dispatched (snd (run_statements env database schema opts cont i sqls s)) = dispatched s"
  by (cases sqls) (simp_all add: check_canceled_def)

text \<open>A batch hands over a beginning of its writes, each once and in order.\<close>

lemma run_statements_writes:
  assumes mono: "\<And>n. canceled env n \<Longrightarrow> canceled env (Suc n)"
    and fixed: "\<not> opt_table_data_preview opts" "opt_execution_mode opts \<noteq> PostgresReadOnlyTransaction"
      "database \<noteq> Some ''MongoDb''" "pool_for_session env = Inr k"
  shows "list_all (verification_reads env database schema) sqls \<Longrightarrow>
     \<exists>n. writes_of env database (snd (run_statements env database schema opts cont i sqls s)) =
       writes_of env database s @ take n (filter (once_only_write env database) sqls)"
proof (induction sqls arbitrary: i s)
  case (Cons sql rest)
  let ?W = "once_only_write env database"
  let ?s1 = "snd (check_canceled env s)"
  have later: "canceled env (n + d)" if "canceled env n" for n d using that mono by (induction d) auto
  show ?case
  proof (cases "canceled env (cancel_checks s)")
    case True
    then show ?thesis using run_statements_canceled [OF True, of database schema opts cont i "sql # rest"]
      by (intro exI [of _ 0]) simp
  next
    case running: False
    obtain r s2 where run: "execute_sql_statement env database schema opts sql ?s1 = (r, s2)" by fastforce
    have verify: "verification_reads env database schema sql" using Cons.prems by simp
    note once = execute_statement_writes [OF fixed(1,2) verify fixed(3,4) run]
    let ?rest = "run_statements env database schema opts cont (Suc i) rest s2"
    have final: "dispatched (snd (run_statements env database schema opts cont i (sql # rest) s)) \<in>
        {dispatched s2, dispatched (snd ?rest)}"
      using running run by (cases r) (simp_all add: check_canceled_def split_beta Let_def)
    obtain n where IH: "writes_of env database (snd ?rest) = writes_of env database s2 @ take n (filter ?W rest)"
      using Cons.IH [of "Suc i" s2] Cons.prems by auto
    show ?thesis
    proof (cases "?W sql \<and> canceled env (Suc (cancel_checks s))")
      case True
      then have "writes_of env database s2 = writes_of env database s" and "Suc (cancel_checks s) \<le> cancel_checks s2"
        using once by simp_all
      moreover from this have "canceled env (cancel_checks s2)"
        using later [of "Suc (cancel_checks s)" "cancel_checks s2 - Suc (cancel_checks s)"] True by simp
      then have "dispatched (snd ?rest) = dispatched s2" by (rule run_statements_canceled)
      ultimately show ?thesis using final by (intro exI [of _ 0]) auto
    next
      case False
      then have here: "writes_of env database s2 = writes_of env database s @ take 1 (filter ?W [sql])"
        using once by auto
      have rest: "writes_of env database (snd ?rest) =
          writes_of env database s @ take (length (filter ?W [sql]) + n) (filter ?W (sql # rest))"
        unfolding IH here by simp
      have stop: "writes_of env database s2 =
          writes_of env database s @ take (length (filter ?W [sql])) (filter ?W (sql # rest))"
        unfolding here by simp
      from final show ?thesis using rest stop by (metis insertE singletonD)
    qed
  qed
qed simp

text \<open>How often one statement is handed over at most.\<close>

lemma recover_dispatches:
  "length (dispatched (snd (recover_postgres_create_table env database schema sql e s))) \<le> length (dispatched s) + 2"
  by (auto simp: recover_postgres_create_table_def do_execute_typed_def check_canceled_def reconnect_pool_for_session_def
      split: sum.split option.split)

lemma finish_dispatches:
  "length (dispatched (snd (finish_statement env database schema opts k sql e s))) \<le> length (dispatched s) + 3"
proof -
  obtain q s1 where recover: "recover_postgres_create_table env database schema sql e s = (q, s1)" by fastforce
  then have "length (dispatched s1) \<le> length (dispatched s) + 2" using recover_dispatches [of env database schema sql e s] by simp
  then show ?thesis
    by (auto simp: finish_statement_def recover do_execute_typed_def check_canceled_def reconnect_pool_for_session_def Let_def
        split: sum.split option.split pool_action.split bool.split)
qed

lemma statement_dispatches:
  "length (dispatched (snd (execute_sql_statement env database schema opts sql s))) \<le> length (dispatched s) + 4"
proof -
  have finish: "length (dispatched (snd (finish_statement env database schema opts k sql e (t\<lparr>dispatched := dispatched t @ [x]\<rparr>)))) \<le>
      length (dispatched t) + 4" for k e t x
    using finish_dispatches [of env database schema opts k sql e "t\<lparr>dispatched := dispatched t @ [x]\<rparr>"] by simp
  have finish_s: "length (dispatched (snd (finish_statement env database schema opts k sql e
        (s\<lparr>cancel_checks := n, dispatched := dispatched s @ [x]\<rparr>)))) \<le> length (dispatched s) + 4" for k e n x
    using finish [of k e "s\<lparr>cancel_checks := n\<rparr>" x] by simp
  show ?thesis
    by (simp add: execute_sql_statement_def execute_postgres_drop_database_def do_execute_typed_def check_canceled_def
        split: sum.split option.split bool.split prod.split)
      (auto intro: finish_s)
qed

lemma run_dispatches:
  "length (dispatched (snd (run_statements env database schema opts cont i sqls s))) \<le> length (dispatched s) + 4 * length sqls"
proof (induction sqls arbitrary: i s)
  case (Cons sql rest)
  let ?s1 = "snd (check_canceled env s)"
  obtain r s2 where run: "execute_sql_statement env database schema opts sql ?s1 = (r, s2)" by fastforce
  have s2: "length (dispatched s2) \<le> length (dispatched s) + 4"
    using statement_dispatches [of env database schema opts sql ?s1] run by simp
  have rest: "length (dispatched (snd (run_statements env database schema opts cont (Suc i) rest s2))) \<le>
      length (dispatched s) + 4 * length (sql # rest)"
    using Cons.IH [of "Suc i" s2] s2 by simp
  show ?case
  proof (cases "canceled env (cancel_checks s)")
    case True
    then show ?thesis using run_statements_canceled [OF True, of database schema opts cont i "sql # rest"] by simp
  next
    case False
    then show ?thesis using run rest s2 by (cases r) (simp_all add: check_canceled_def split_beta Let_def)
  qed
qed simp

text \<open>The entries of a batch are numbered from its start, and the last one tells why a batch ended early.\<close>

lemma run_entries:
  fixes env database schema opts cont i sqls s
  defines "results \<equiv> fst (run_statements env database schema opts cont i sqls s)"
  shows "map multi_statement_index results = map Some [i..<i + length results] \<and> length results \<le> length sqls \<and>
     (length results = length sqls \<or> (results \<noteq> [] \<and> (\<exists>e. multi_error (last results) = Some e)))"
  unfolding results_def
proof (induction sqls arbitrary: i s)
  case (Cons sql rest)
  let ?s1 = "snd (check_canceled env s)"
  obtain r s2 where run: "execute_sql_statement env database schema opts sql ?s1 = (r, s2)" by fastforce
  obtain results s3 where rest: "run_statements env database schema opts cont (Suc i) rest s2 = (results, s3)" by fastforce
  have IH: "map multi_statement_index results = map Some [Suc i..<Suc i + length results] \<and> length results \<le> length rest \<and>
      (length results = length rest \<or> (results \<noteq> [] \<and> (\<exists>e. multi_error (last results) = Some e)))"
    using Cons.IH [of "Suc i" s2] rest by simp
  have first: "[i..<i + Suc (length results)] = i # [Suc i..<Suc i + length results]"
    using upt_conv_Cons [of i "i + Suc (length results)"] by (simp del: upt_Suc)
  show ?case
  proof (cases "canceled env (cancel_checks s)")
    case True
    then show ?thesis by (simp add: check_canceled_def error_entry_def execution_error_with_backend_def)
  next
    case False
    then show ?thesis
      using run rest IH first
      by (cases r) (auto simp: check_canceled_def split_beta Let_def success_entry_def error_entry_def execution_error_with_backend_def)
  qed
qed simp

lemma options_for_sequential_statements_kept:
  "opt_table_data_preview (options_for_sequential_statements opts n database) = opt_table_data_preview opts"
  "opt_execution_mode (options_for_sequential_statements opts n database) = opt_execution_mode opts"
  by (simp_all add: options_for_sequential_statements_def split: option.split)

section \<open>Properties\<close>

text \<open>
  C39. A batch accounts for every statement: its entries carry the numbers 0, 1, 2, ... without a gap, and when
  there are fewer entries than statements the last entry is the error that ended the batch. No lost
  connection, cancellation or failed reconnect makes a statement disappear from the report.
\<close>

theorem batch_accounts_for_every_statement:
  "let results = fst (run_statements env database schema opts continue_on_error 0 sqls s) in
   map multi_statement_index results = map Some [0..<length results] \<and>
   (length results = length sqls \<or>
    length results < length sqls \<and> (\<exists>e. results \<noteq> [] \<and> multi_error (last results) = Some e))"
  using run_entries [of env database schema opts continue_on_error 0 sqls s] unfolding Let_def by auto

text \<open>
  C40. Recovery is bounded: a batch hands at most four requests per statement to the dispatch of the drivers
  (the statement, its repetition after a reconnect for a CREATE TABLE, the query that verifies it, and one
  retry), whatever the database answers. What a driver does inside one dispatch is not counted.
\<close>

theorem recovery_is_bounded:
  "length (dispatched (snd (run_statements env database schema opts continue_on_error 0 sqls s))) \<le>
     length (dispatched s) + 4 * length sqls"
  by (rule run_dispatches)

end
