(* ===== verification/Mysql_Batch.thy ===== *)
theory Mysql_Batch
  imports Query_Run Sql_Import
begin

text \<open>
  Running a script on a MySQL connection (\<^verbatim>\<open>execute_multi_mysql\<close> in \<^verbatim>\<open>crates/dbx-core/src/query/mod.rs\<close>):
  writes are pipelined in batches, and afterwards the transaction that may still be open on the connection
  is settled, because the connection of a query tab goes back to its pool without a reset.

  The environment is the server: it answers statements, batches, pings and rollbacks, and each answer comes
  with the connection as it is then. A connection has the last OK packet the driver saw and, hidden from the
  code, whether a transaction is really open. Which statements may be pipelined depends on the SQL parser
  and is an argument, as are the reports of progress, which go to a callback and are left out.
\<close>

section \<open>The first token of a statement\<close>

fun block_comment_rest :: "string \<Rightarrow> string" where
  "block_comment_rest (c # d # cs) = (if c = CHR ''*'' \<and> d = CHR ''/'' then cs else block_comment_rest (d # cs))"
| "block_comment_rest [c] = []"
| "block_comment_rest [] = []"

lemma block_comment_rest_length: "length (block_comment_rest s) \<le> length s"
  by (induction s rule: block_comment_rest.induct) auto

function token_start :: "sql_dialect_profile \<Rightarrow> string \<Rightarrow> string" where
  "token_start p s =
     (let r = dropWhile (\<lambda>c. is_ascii_whitespace c \<or> c = CHR ''('') s in
      if starts_with ''--'' r then token_start p (dropWhile (\<lambda>c. c \<noteq> CHR 10) (drop 2 r))
      else if supports_hash_line_comments p \<and> starts_with ''#'' r
      then token_start p (dropWhile (\<lambda>c. c \<noteq> CHR 10) (drop 1 r))
      else if starts_with ''/*'' r then
        (if starts_with ''!'' (drop 2 r) then dropWhile (\<lambda>c. is_ascii_digit c \<or> is_ascii_whitespace c) (drop 3 r)
         else if starts_with ''M!'' (drop 2 r)
         then dropWhile (\<lambda>c. is_ascii_digit c \<or> is_ascii_whitespace c) (drop 4 r)
         else token_start p (block_comment_rest (drop 2 r)))
      else r)"
  by pat_completeness auto

lemma shorter_after_prefix:
  assumes "starts_with (c # cs) (dropWhile P s)" and "length x \<le> length (drop (Suc n) (dropWhile P s))"
  shows "length x < length s"
proof -
  have "dropWhile P s \<noteq> []" using assms(1) by (metis list.distinct(1) starts_with_def take_Nil list.size(4))
  then have "length (drop (Suc n) (dropWhile P s)) < length (dropWhile P s)" by simp
  with assms(2) length_dropWhile_le [of P s] show ?thesis by simp
qed

termination token_start
proof (relation "measure (length \<circ> snd)", goal_cases)
  case 1
  show ?case by simp
next
  case (2 p s r)
  then have "length (dropWhile (\<lambda>c. c \<noteq> CHR 10) (drop 2 r)) < length s"
    using shorter_after_prefix [of _ _ _ s _ 1] length_dropWhile_le [of _ "drop 2 r"] by (metis Suc_1)
  then show ?case by simp
next
  case (3 p s r)
  then have "length (dropWhile (\<lambda>c. c \<noteq> CHR 10) (drop 1 r)) < length s"
    using shorter_after_prefix [of _ _ _ s _ 0] length_dropWhile_le [of _ "drop 1 r"] by (metis One_nat_def)
  then show ?case by simp
next
  case (4 p s r)
  then have "length (block_comment_rest (drop 2 r)) < length s"
    using shorter_after_prefix [of _ _ _ s _ 1] block_comment_rest_length [of "drop 2 r"] by (metis Suc_1)
  then show ?case by simp
qed

declare token_start.simps [simp del]

definition first_executable_sql_token_with_options :: "sql_dialect_profile \<Rightarrow> string \<Rightarrow> string option" where
  "first_executable_sql_token_with_options p sql =
     (let token = takeWhile (\<lambda>c. is_ascii_alphabetic c \<or> c = CHR ''_'') (token_start p sql) in
      if token \<noteq> [] then Some token else None)"

definition executable_sql_keyword_matches :: "string \<Rightarrow> string \<Rightarrow> bool" where
  "executable_sql_keyword_matches token keyword \<longleftrightarrow> eq_ignore_ascii_case token keyword \<or>
     (eq_ignore_ascii_case keyword ''DESCRIBE'' \<and> eq_ignore_ascii_case token ''DESC'')"

definition starts_with_executable_sql_keyword_for_database :: "string \<Rightarrow> string list \<Rightarrow> database_type \<Rightarrow> bool" where
  "starts_with_executable_sql_keyword_for_database sql keywords db =
     (case first_executable_sql_token_with_options (profile_for_database_type db) sql of
        None \<Rightarrow> False
      | Some token \<Rightarrow> list_ex (executable_sql_keyword_matches token) keywords)"

definition mysql_single_statement_uses_batch_route :: "database_type option \<Rightarrow> bool \<Rightarrow> string \<Rightarrow> nat option \<Rightarrow> bool" where
  "mysql_single_statement_uses_batch_route database has_mysql_pool sql max_result_bytes \<longleftrightarrow>
     has_mysql_pool \<and>
     ((case max_result_bytes of None \<Rightarrow> False | Some n \<Rightarrow> n > 0) \<or>
      (database = Some ''Mysql'' \<and> starts_with_executable_sql_keyword_for_database sql [''CALL''] ''Mysql''))"

section \<open>Connection and environment\<close>

datatype mysql_mode = MysqlNormal | MysqlBare | MysqlOceanBaseOracle

record my_sql_session_status =
  in_transaction :: bool
  autocommit :: bool

record ok_packet = my_sql_session_status +
  more_results_exist :: bool

record mysql_conn =
  last_ok_packet :: "ok_packet option"
  transaction_open :: bool

definition session_status_from_last_ok :: "mysql_conn \<Rightarrow> my_sql_session_status option" where
  "session_status_from_last_ok c = map_option my_sql_session_status.truncate (last_ok_packet c)"

definition last_ok_ends_response :: "mysql_conn \<Rightarrow> bool" where
  "last_ok_ends_response c = (case last_ok_packet c of None \<Rightarrow> False | Some packet \<Rightarrow> \<not> more_results_exist packet)"

record mysql_env =
  my_statement :: "nat \<Rightarrow> string \<Rightarrow> mysql_conn \<Rightarrow> query_result list rust_result \<times> mysql_conn"
  my_batch :: "nat \<Rightarrow> string \<Rightarrow> nat \<Rightarrow> mysql_conn \<Rightarrow> (query_result list \<times> string option) \<times> mysql_conn"
  my_canceled :: "nat \<Rightarrow> bool"
  my_checkout :: "unit rust_result"
  my_session_timeout :: "unit rust_result"
  my_catalog_context :: "unit rust_result"
  my_max_allowed_packet :: "nat rust_result"
  my_ping :: "mysql_conn \<Rightarrow> my_sql_session_status option \<times> mysql_conn"
  my_rollback :: "mysql_conn \<Rightarrow> unit rust_result \<times> mysql_conn"
  my_batchable :: "string \<Rightarrow> bool"
  my_is_agent :: "database_type \<Rightarrow> bool"
  my_codec :: agent_codec
  my_mode :: mysql_mode
  my_tab_scoped :: bool

record mysql_state =
  my_conn :: mysql_conn
  my_sent :: "string list list"
  my_checks :: nat
  preserved_transactions :: "string list"
  my_removed :: "string list"

definition my_check_canceled :: "mysql_env \<Rightarrow> mysql_state \<Rightarrow> bool \<times> mysql_state" where
  "my_check_canceled env s = (my_canceled env (my_checks s), s\<lparr>my_checks := Suc (my_checks s)\<rparr>)"

definition send_statement :: "mysql_env \<Rightarrow> string \<Rightarrow> mysql_state \<Rightarrow> query_result list rust_result \<times> mysql_state" where
  "send_statement env sql s =
     (case my_statement env (length (my_sent s)) sql (my_conn s) of
        (r, c) \<Rightarrow> (r, s\<lparr>my_conn := c, my_sent := my_sent s @ [[sql]]\<rparr>))"

text \<open>The text of a batch and its number of statements are what the driver gets.\<close>

fun batch_text :: "string list \<Rightarrow> string" where
  "batch_text [] = []"
| "batch_text [sql] = sql"
| "batch_text (sql # rest) = sql @ [CHR '';'', CHR 10] @ batch_text rest"

definition send_batch :: "mysql_env \<Rightarrow> string list \<Rightarrow> mysql_state \<Rightarrow> (query_result list \<times> string option) \<times> mysql_state" where
  "send_batch env sqls s =
     (case my_batch env (length (my_sent s)) (batch_text sqls) (length sqls) (my_conn s) of
        (r, c) \<Rightarrow> (r, s\<lparr>my_conn := c, my_sent := my_sent s @ [sqls]\<rparr>))"

definition remove_mysql_pool :: "string \<Rightarrow> mysql_state \<Rightarrow> mysql_state" where
  "remove_mysql_pool pool_key s = s\<lparr>my_removed := pool_key # my_removed s,
     preserved_transactions := removeAll pool_key (preserved_transactions s)\<rparr>"

section \<open>Statements and batches\<close>

definition mysql_multi_statement_batch_max_statements :: nat where
  "mysql_multi_statement_batch_max_statements = 50"

definition mysql_multi_statement_batch_max_bytes :: nat where
  "mysql_multi_statement_batch_max_bytes = 4 * 1024 * 1024"

definition mysql_sql_statement_hard_limit :: "nat \<Rightarrow> nat option" where
  "mysql_sql_statement_hard_limit packet_bytes =
     (if packet_bytes = 0 then None
      else (let margin = min (max 1024 (min (packet_bytes div 10) (64 * 1024))) (packet_bytes div 2);
                limit = packet_bytes - margin
            in if limit > 0 then Some limit else None))"

definition mysql_batch_pool_error_action :: "mysql_env \<Rightarrow> database_type option \<Rightarrow> string \<Rightarrow> pool_action" where
  "mysql_batch_pool_error_action env database e =
     (if e = query_canceled then PoolDiscard else pool_error_action (my_is_agent env) (my_codec env) database e)"

definition mysql_batch_backend_error :: "pool_action \<Rightarrow> string \<Rightarrow> backend_error" where
  "mysql_batch_backend_error action e = (if action = PoolKeep then FromSqlDetail e else FromLegacyBackend e)"

fun batch_end_loop :: "(string \<Rightarrow> bool) \<Rightarrow> nat \<Rightarrow> nat \<Rightarrow> nat \<Rightarrow> string list \<Rightarrow> nat" where
  "batch_end_loop batchable max_bytes n bytes [] = n"
| "batch_end_loop batchable max_bytes n bytes (sql # rest) =
     (if n \<ge> mysql_multi_statement_batch_max_statements \<or> \<not> batchable sql then n
      else (let next_len = bytes + byte_len sql + 2 in
            if n > 0 \<and> next_len > max_bytes then n else batch_end_loop batchable max_bytes (Suc n) next_len rest))"

definition mysql_non_result_batch_end :: "(string \<Rightarrow> bool) \<Rightarrow> string list \<Rightarrow> nat \<Rightarrow> nat \<Rightarrow> nat" where
  "mysql_non_result_batch_end batchable statements start max_bytes =
     (case drop start statements of
        [] \<Rightarrow> start
      | first # _ \<Rightarrow>
          if \<not> batchable first then start + 1
          else max (start + batch_end_loop batchable max_bytes 0 0 (drop start statements)) (start + 1))"

definition mysql_non_result_pipeline_enabled :: "nat \<Rightarrow> bool \<Rightarrow> mysql_mode \<Rightarrow> bool" where
  "mysql_non_result_pipeline_enabled count continue_on_error mode \<longleftrightarrow>
     count > 1 \<and> \<not> continue_on_error \<and> mode = MysqlNormal"

definition execution_error_entry :: "string \<Rightarrow> execute_multi_result" where
  "execution_error_entry message =
     execution_error_with_backend (error_query_result message) None (FromLegacyString message)"

definition batch_error_entry :: "mysql_env \<Rightarrow> database_type option \<Rightarrow> nat \<Rightarrow> string \<Rightarrow> execute_multi_result" where
  "batch_error_entry env database i message =
     execution_error_with_backend (error_query_result message) (Some i)
       (mysql_batch_backend_error (mysql_batch_pool_error_action env database message) message)"

fun numbered_entries :: "nat \<Rightarrow> query_result list \<Rightarrow> execute_multi_result list" where
  "numbered_entries i [] = []"
| "numbered_entries i (q # qs) = success_entry (Some i) q # numbered_entries (Suc i) qs"

definition batch_end_of :: "mysql_env \<Rightarrow> string list \<Rightarrow> nat \<Rightarrow> nat option \<Rightarrow> nat" where
  "batch_end_of env statements i max_bytes =
     (case max_bytes of
        Some n \<Rightarrow> mysql_non_result_batch_end (my_batchable env) statements i n
      | None \<Rightarrow> i + 1)"

function execute_mysql_batch_statements ::
  "mysql_env \<Rightarrow> database_type option \<Rightarrow> bool \<Rightarrow> nat option \<Rightarrow> string list \<Rightarrow> nat \<Rightarrow> mysql_state \<Rightarrow>
   execute_multi_result list \<times> pool_action option \<times> mysql_state" where
  "execute_mysql_batch_statements env database continue_on_error max_bytes statements i s =
     (if i \<ge> length statements then ([], None, s)
      else
        (case my_check_canceled env s of
           (True, s1) \<Rightarrow> ([execution_error_entry query_canceled], None, s1)
         | (False, s1) \<Rightarrow>
             (let batch_end = batch_end_of env statements i max_bytes in
              if batch_end > i + 1 then
                (case send_batch env (take (batch_end - i) (drop i statements)) s1 of
                   ((results, Some message), s2) \<Rightarrow>
                     (let action = mysql_batch_pool_error_action env database message in
                      if length results \<ge> batch_end - i then (numbered_entries i results, Some action, s2)
                      else (numbered_entries i results @ [batch_error_entry env database (i + length results) message],
                            Some action, s2))
                 | ((results, None), s2) \<Rightarrow>
                     (case execute_mysql_batch_statements env database continue_on_error max_bytes statements batch_end s2 of
                        (rest, action, s3) \<Rightarrow> (numbered_entries i results @ rest, action, s3)))
              else
                (case send_statement env (statements ! i) s1 of
                   (Inr results, s2) \<Rightarrow>
                     (case execute_mysql_batch_statements env database continue_on_error max_bytes statements (i + 1) s2 of
                        (rest, action, s3) \<Rightarrow> (map (success_entry (Some i)) results @ rest, action, s3))
                 | (Inl message, s2) \<Rightarrow>
                     (let action = mysql_batch_pool_error_action env database message in
                      if \<not> should_continue_batch_after_error continue_on_error action
                      then ([batch_error_entry env database i message], Some action, s2)
                      else
                        (case execute_mysql_batch_statements env database continue_on_error max_bytes statements (i + 1) s2 of
                           (rest, action', s3) \<Rightarrow> (batch_error_entry env database i message # rest, action', s3)))))))"
  by pat_completeness auto

termination execute_mysql_batch_statements
  by (relation "measure (\<lambda>(_, _, _, _, statements, i, _). length statements - i)") auto

declare execute_mysql_batch_statements.simps [simp del]

section \<open>Settling the transaction\<close>

datatype mysql_auto_commit_transaction = TransactionNone | Preserved | RolledBackExplicit | RolledBackSessionAutocommit

definition mark_transaction :: "mysql_auto_commit_transaction \<Rightarrow> execute_multi_result \<Rightarrow> execute_multi_result" where
  "mark_transaction t r = r\<lparr>auto_commit_open_transaction := Some (t = Preserved),
     auto_commit_explicit_transaction_rolled_back := (t = RolledBackExplicit),
     auto_commit_session_autocommit_rolled_back := (t = RolledBackSessionAutocommit)\<rparr>"

datatype mysql_auto_commit_rollback = RollbackNone | RollbackExplicit | RollbackSessionAutocommit

record mysql_auto_commit_decision =
  decision_preserve :: bool
  decision_rollback :: mysql_auto_commit_rollback

definition autocommit_off :: "my_sql_session_status option \<Rightarrow> bool" where
  "autocommit_off status = (case status of None \<Rightarrow> False | Some st \<Rightarrow> \<not> autocommit st)"

definition decide_mysql_auto_commit_transaction ::
  "bool \<Rightarrow> bool \<Rightarrow> bool \<Rightarrow> my_sql_session_status option \<Rightarrow> mysql_auto_commit_decision" where
  "decide_mysql_auto_commit_transaction allow_preserve already_preserved explicit_start status =
     (let explicit_transaction = (explicit_start \<or> autocommit_off status);
          open_now = (case status of Some st \<Rightarrow> in_transaction st | None \<Rightarrow> explicit_start \<or> already_preserved)
      in if \<not> open_now then \<lparr>decision_preserve = False, decision_rollback = RollbackNone\<rparr>
         else if already_preserved \<or> (allow_preserve \<and> explicit_transaction)
         then \<lparr>decision_preserve = True, decision_rollback = RollbackNone\<rparr>
         else \<lparr>decision_preserve = False,
               decision_rollback =
                 (if explicit_start then RollbackExplicit
                  else if autocommit_off status then RollbackSessionAutocommit else RollbackNone)\<rparr>)"

definition mysql_cleanup_rollback_is_noop :: "bool \<Rightarrow> bool \<Rightarrow> my_sql_session_status option \<Rightarrow> bool" where
  "mysql_cleanup_rollback_is_noop status_is_final explicit_start status \<longleftrightarrow>
     status_is_final \<and> \<not> explicit_start \<and>
     (case status of None \<Rightarrow> False | Some st \<Rightarrow> \<not> in_transaction st \<and> autocommit st)"

definition rollback_open_transaction :: "mysql_env \<Rightarrow> mysql_state \<Rightarrow> unit rust_result \<times> mysql_state" where
  "rollback_open_transaction env s = (case my_rollback env (my_conn s) of (r, c) \<Rightarrow> (r, s\<lparr>my_conn := c\<rparr>))"

definition settled_as :: "mysql_auto_commit_rollback \<Rightarrow> mysql_auto_commit_transaction" where
  "settled_as rollback =
     (case rollback of RollbackExplicit \<Rightarrow> RolledBackExplicit
      | RollbackSessionAutocommit \<Rightarrow> RolledBackSessionAutocommit | RollbackNone \<Rightarrow> TransactionNone)"

definition settle_mysql_auto_commit_transaction ::
  "mysql_env \<Rightarrow> string \<Rightarrow> bool \<Rightarrow> bool \<Rightarrow> bool \<Rightarrow> mysql_state \<Rightarrow>
   mysql_auto_commit_transaction rust_result \<times> mysql_state" where
  "settle_mysql_auto_commit_transaction env pool_key allow_preserve explicit_start status_is_final s =
     (let already_preserved = (pool_key \<in> set (preserved_transactions s));
          cached = session_status_from_last_ok (my_conn s)
      in case (if cached = None \<and> (allow_preserve \<or> already_preserved)
               then (case my_ping env (my_conn s) of (st, c) \<Rightarrow> (st, s\<lparr>my_conn := c\<rparr>))
               else (cached, s)) of
           (status, s1) \<Rightarrow>
             (let decision = decide_mysql_auto_commit_transaction allow_preserve already_preserved explicit_start status in
              if decision_preserve decision
              then (Inr Preserved, s1\<lparr>preserved_transactions := List.insert pool_key (preserved_transactions s1)\<rparr>)
              else
                (let s2 = s1\<lparr>preserved_transactions := removeAll pool_key (preserved_transactions s1)\<rparr>;
                     settled = settled_as (decision_rollback decision)
                 in if mysql_cleanup_rollback_is_noop status_is_final explicit_start status then (Inr settled, s2)
                    else (case rollback_open_transaction env s2 of
                            (Inl e, s3) \<Rightarrow> (Inl e, s3)
                          | (Inr _, s3) \<Rightarrow> (Inr settled, s3)))))"

text \<open>Settling after a run, with the result that every entry of the run is marked with.\<close>

definition settle_after_run ::
  "mysql_env \<Rightarrow> string \<Rightarrow> query_execution_options \<Rightarrow> string list \<Rightarrow> execute_multi_result list \<Rightarrow> pool_action option \<Rightarrow>
   mysql_state \<Rightarrow> mysql_auto_commit_transaction rust_result \<times> mysql_state" where
  "settle_after_run env pool_key opts statements results error_action s =
     (let explicit_start = list_ex mysql_statement_opens_explicit_transaction statements;
          status_is_final = (my_mode env = MysqlNormal \<and> error_action = None \<and>
            list_all (\<lambda>r. \<not> multi_execution_error r \<and> \<not> result_truncated (multi_result r)) results \<and>
            last_ok_ends_response (my_conn s))
      in if my_tab_scoped env
         then settle_mysql_auto_commit_transaction env pool_key (opt_preserve_explicit_transaction opts) explicit_start
                status_is_final s
         else if mysql_cleanup_rollback_is_noop status_is_final explicit_start (session_status_from_last_ok (my_conn s))
         then (Inr TransactionNone, s)
         else (case rollback_open_transaction env s of
                 (Inl e, s1) \<Rightarrow> (Inl e, s1)
               | (Inr _, s1) \<Rightarrow> (Inr TransactionNone, s1)))"

definition execute_multi_mysql ::
  "mysql_env \<Rightarrow> database_type option \<Rightarrow> string \<Rightarrow> query_execution_options \<Rightarrow> string list \<Rightarrow> mysql_state \<Rightarrow>
   execute_multi_result list rust_result \<times> mysql_state" where
  "execute_multi_mysql env database pool_key opts statements s =
     (case my_checkout env of
        Inl e \<Rightarrow>
          (Inr [execution_error_entry e],
           if pool_error_action (my_is_agent env) (my_codec env) database e \<noteq> PoolKeep \<or> e = query_canceled
           then remove_mysql_pool pool_key s else s)
      | Inr _ \<Rightarrow>
          (case my_session_timeout env of
             Inl e \<Rightarrow> (Inl e, s)
           | Inr _ \<Rightarrow>
               (case my_catalog_context env of
                  Inl e \<Rightarrow> (Inl e, s)
                | Inr _ \<Rightarrow>
                    (let max_bytes =
                       (if mysql_non_result_pipeline_enabled (length statements) (opt_continue_on_error opts) (my_mode env)
                        then (case my_max_allowed_packet env of
                                Inl _ \<Rightarrow> None
                              | Inr n \<Rightarrow> map_option (min mysql_multi_statement_batch_max_bytes) (mysql_sql_statement_hard_limit n))
                        else None)
                     in case execute_mysql_batch_statements env database (opt_continue_on_error opts) max_bytes statements 0 s of
                          (results, error_action, s1) \<Rightarrow>
                            (case settle_after_run env pool_key opts statements results error_action s1 of
                               (Inl _, s2) \<Rightarrow> (Inr results, remove_mysql_pool pool_key s2)
                             | (Inr transaction, s2) \<Rightarrow>
                                 (Inr (map (mark_transaction transaction) results),
                                  if error_action \<in> {Some PoolDiscard, Some ReconnectAndRetry}
                                  then remove_mysql_pool pool_key s2 else s2))))))"

section \<open>Lemmas\<close>

text \<open>
  What the MySQL protocol promises. In the native protocol, when a statement or a batch was answered without
  an error and its results were read to the end, the last status packet, if it ends the response, does not
  deny a transaction that is open. Nothing is promised after an error, after a truncated result or in the
  other modes. A ping does not open or end a transaction, and an acknowledged rollback ends it.
\<close>

definition status_truthful :: "mysql_conn \<Rightarrow> bool" where
  "status_truthful c \<longleftrightarrow> (\<forall>packet. last_ok_packet c = Some packet \<longrightarrow> \<not> more_results_exist packet \<longrightarrow>
     \<not> in_transaction packet \<longrightarrow> \<not> transaction_open c)"

definition mysql_server :: "mysql_env \<Rightarrow> bool" where
  "mysql_server env \<longleftrightarrow>
     (\<forall>n sql c results c'. my_mode env = MysqlNormal \<longrightarrow> my_statement env n sql c = (Inr results, c') \<longrightarrow>
        list_all (\<lambda>q. \<not> result_truncated q) results \<longrightarrow> status_truthful c') \<and>
     (\<forall>n sql k c results c'. my_mode env = MysqlNormal \<longrightarrow> my_batch env n sql k c = ((results, None), c') \<longrightarrow>
        list_all (\<lambda>q. \<not> result_truncated q) results \<longrightarrow> status_truthful c') \<and>
     (\<forall>c. transaction_open (snd (my_ping env c)) = transaction_open c) \<and>
     (\<forall>c. fst (my_rollback env c) = Inr () \<longrightarrow> \<not> transaction_open (snd (my_rollback env c)))"

lemma rollback_outcome:
  assumes "mysql_server env" and "rollback_open_transaction env s = (Inr u, s')"
  shows "\<not> transaction_open (my_conn s') \<and> preserved_transactions s' = preserved_transactions s \<and> my_removed s' = my_removed s"
proof -
  obtain c where c: "my_rollback env (my_conn s) = (Inr (), c)" "s' = s\<lparr>my_conn := c\<rparr>"
    using assms(2) by (auto simp: rollback_open_transaction_def split: prod.splits)
  have "fst (my_rollback env (my_conn s)) = Inr () \<longrightarrow> \<not> transaction_open (snd (my_rollback env (my_conn s)))"
    using assms(1) unfolding mysql_server_def by blast
  then show ?thesis using c by simp
qed

lemma noop_outcome:
  assumes "mysql_cleanup_rollback_is_noop final explicit_start (session_status_from_last_ok c)"
    and "final \<longrightarrow> status_truthful c \<and> last_ok_ends_response c"
  shows "\<not> transaction_open c"
  using assms
  by (auto simp: mysql_cleanup_rollback_is_noop_def session_status_from_last_ok_def status_truthful_def
      last_ok_ends_response_def my_sql_session_status.truncate_def split: option.splits)

lemma settle_outcome:
  assumes server: "mysql_server env"
    and final: "final \<longrightarrow> status_truthful (my_conn s) \<and> last_ok_ends_response (my_conn s)"
    and settle: "settle_mysql_auto_commit_transaction env pool_key allow explicit_start final s = (Inr t, s')"
  shows "(transaction_open (my_conn s') \<longrightarrow> t = Preserved) \<and>
     (t = Preserved \<longrightarrow> pool_key \<in> set (preserved_transactions s')) \<and> my_removed s' = my_removed s"
proof -
  let ?already = "pool_key \<in> set (preserved_transactions s)"
  let ?cached = "session_status_from_last_ok (my_conn s)"
  obtain status s1 where status: "(if ?cached = None \<and> (allow \<or> ?already)
      then (case my_ping env (my_conn s) of (st, c) \<Rightarrow> (st, s\<lparr>my_conn := c\<rparr>)) else (?cached, s)) = (status, s1)"
    by fastforce
  let ?d = "decide_mysql_auto_commit_transaction allow ?already explicit_start status"
  define s2 where "s2 = s1\<lparr>preserved_transactions := removeAll pool_key (preserved_transactions s1)\<rparr>"
  have kept: "my_removed s1 = my_removed s" using status by (auto split: if_splits prod.splits)
  have noop: "\<not> transaction_open (my_conn s1)" if "mysql_cleanup_rollback_is_noop final explicit_start status"
  proof -
    have "final" using that by (simp add: mysql_cleanup_rollback_is_noop_def)
    then have "?cached \<noteq> None" using final by (auto simp: last_ok_ends_response_def session_status_from_last_ok_def split: option.splits)
    then have "status = ?cached" "s1 = s" using status by auto
    then show ?thesis using noop_outcome [OF _ final] that by simp
  qed
  have not_preserved: "settled_as r \<noteq> Preserved" for r by (cases r) (simp_all add: settled_as_def)
  have result: "(Inr t, s') =
      (if decision_preserve ?d
       then (Inr Preserved, s1\<lparr>preserved_transactions := List.insert pool_key (preserved_transactions s1)\<rparr>)
       else if mysql_cleanup_rollback_is_noop final explicit_start status then (Inr (settled_as (decision_rollback ?d)), s2)
       else (case rollback_open_transaction env s2 of
               (Inl e, s3) \<Rightarrow> (Inl e, s3) | (Inr _, s3) \<Rightarrow> (Inr (settled_as (decision_rollback ?d)), s3)))"
    using settle unfolding settle_mysql_auto_commit_transaction_def Let_def status s2_def by simp
  show ?thesis
  proof (cases "decision_preserve ?d \<or> mysql_cleanup_rollback_is_noop final explicit_start status")
    case True
    then show ?thesis using result noop not_preserved kept by (auto simp: s2_def split: if_splits)
  next
    case False
    obtain u s3 where r: "rollback_open_transaction env s2 = (Inr u, s3)" "s' = s3" "t = settled_as (decision_rollback ?d)"
      using result False by (auto split: prod.splits sum.splits)
    then show ?thesis using rollback_outcome [OF server r(1)] not_preserved kept by (simp add: s2_def)
  qed
qed

lemma my_check_canceled_state [simp]:
  "fst (my_check_canceled env s) = my_canceled env (my_checks s)"
  "my_conn (snd (my_check_canceled env s)) = my_conn s"
  "my_sent (snd (my_check_canceled env s)) = my_sent s"
  "preserved_transactions (snd (my_check_canceled env s)) = preserved_transactions s"
  "my_removed (snd (my_check_canceled env s)) = my_removed s"
  by (simp_all add: my_check_canceled_def)

text \<open>One turn of the loop, with what it sends.\<close>

lemma batch_cases:
  fixes env database cont max_bytes statements i s
  defines "s1 \<equiv> snd (my_check_canceled env s)" and "e \<equiv> batch_end_of env statements i max_bytes"
  defines "run \<equiv> execute_mysql_batch_statements env database cont max_bytes statements"
  obtains (Done) "i \<ge> length statements" "snd (snd (run i s)) = s"
    | (Canceled) "i < length statements" "snd (snd (run i s)) = s1"
    | (BatchStop) "i < length statements" "e > i + 1" "snd (snd (run i s)) = snd (send_batch env (take (e - i) (drop i statements)) s1)"
    | (Batch) "i < length statements" "e > i + 1"
        "snd (snd (run i s)) = snd (snd (run e (snd (send_batch env (take (e - i) (drop i statements)) s1))))"
    | (StatementStop) "i < length statements" "\<not> e > i + 1" "snd (snd (run i s)) = snd (send_statement env (statements ! i) s1)"
    | (Statement) "i < length statements" "\<not> e > i + 1"
        "snd (snd (run i s)) = snd (snd (run (i + 1) (snd (send_statement env (statements ! i) s1))))"
proof -
  note unfold = run_def execute_mysql_batch_statements.simps [of env database cont max_bytes statements i s]
  consider "i \<ge> length statements" | "i < length statements" "my_canceled env (my_checks s)"
    | "i < length statements" "\<not> my_canceled env (my_checks s)" "e > i + 1"
    | "i < length statements" "\<not> my_canceled env (my_checks s)" "\<not> e > i + 1" by linarith
  then show thesis
  proof cases
    case 1
    then show ?thesis using Done by (simp add: unfold)
  next
    case 2
    then show ?thesis using Canceled by (simp add: unfold my_check_canceled_def s1_def)
  next
    case 3
    obtain results err s2 where sent: "send_batch env (take (e - i) (drop i statements)) s1 = ((results, err), s2)"
      by (metis surj_pair)
    then show ?thesis
      using 3 Batch BatchStop unfolding unfold
      by (cases err) (auto simp: my_check_canceled_def s1_def e_def Let_def split_beta)
  next
    case 4
    obtain r s2 where sent: "send_statement env (statements ! i) s1 = (r, s2)" by fastforce
    have "snd (snd (run i s)) = s2 \<or> snd (snd (run i s)) = snd (snd (run (i + 1) s2))"
      using 4 sent unfolding unfold by (cases r) (simp_all add: my_check_canceled_def s1_def e_def Let_def split_beta)
    then show ?thesis using 4 Statement StatementStop sent by auto
  qed
qed

text \<open>A run without errors and truncated results ends with a packet that can be trusted.\<close>

definition entry_complete :: "execute_multi_result \<Rightarrow> bool" where
  "entry_complete r \<longleftrightarrow> \<not> multi_execution_error r \<and> \<not> result_truncated (multi_result r)"

lemma error_entries_incomplete [simp]:
  "\<not> entry_complete (execution_error_entry m)" "\<not> entry_complete (batch_error_entry env database i m)"
  by (simp_all add: entry_complete_def execution_error_entry_def batch_error_entry_def execution_error_with_backend_def)

lemma success_entry_complete [simp]: "entry_complete (success_entry i q) \<longleftrightarrow> \<not> result_truncated q"
  by (simp add: entry_complete_def success_entry_def)

lemma numbered_entries_complete [simp]:
  "list_all entry_complete (numbered_entries i qs) \<longleftrightarrow> list_all (\<lambda>q. \<not> result_truncated q) qs"
  by (induction qs arbitrary: i) simp_all

lemma send_statement_truthful:
  assumes "mysql_server env" and "my_mode env = MysqlNormal" and "send_statement env sql s = (Inr results, s')"
    and "list_all (\<lambda>q. \<not> result_truncated q) results"
  shows "status_truthful (my_conn s')"
  using assms unfolding mysql_server_def send_statement_def by (auto split: prod.splits)

lemma send_batch_truthful:
  assumes "mysql_server env" and "my_mode env = MysqlNormal" and "send_batch env sqls s = ((results, None), s')"
    and "list_all (\<lambda>q. \<not> result_truncated q) results"
  shows "status_truthful (my_conn s')"
  using assms unfolding mysql_server_def send_batch_def by (auto split: prod.splits)

lemma run_complete_cases:
  fixes env database cont max_bytes statements i s
  defines "s1 \<equiv> snd (my_check_canceled env s)" and "e \<equiv> batch_end_of env statements i max_bytes"
  assumes "i < length statements"
    and "execute_mysql_batch_statements env database cont max_bytes statements i s = (entries, None, s')"
    and "list_all entry_complete entries"
  obtains (Batch) results rest s2 where "send_batch env (take (e - i) (drop i statements)) s1 = ((results, None), s2)"
      "list_all (\<lambda>q. \<not> result_truncated q) results" "list_all entry_complete rest" "i < e"
      "execute_mysql_batch_statements env database cont max_bytes statements e s2 = (rest, None, s')"
    | (Statement) results rest s2 where "send_statement env (statements ! i) s1 = (Inr results, s2)"
      "list_all (\<lambda>q. \<not> result_truncated q) results" "list_all entry_complete rest"
      "execute_mysql_batch_statements env database cont max_bytes statements (i + 1) s2 = (rest, None, s')"
proof -
  note unfold = execute_mysql_batch_statements.simps [of env database cont max_bytes statements i s]
  have running: "\<not> my_canceled env (my_checks s)"
    using assms(3,4,5) unfolding unfold by (auto simp: my_check_canceled_def)
  show thesis
  proof (cases "e > i + 1")
    case True
    obtain results err s2 where sent: "send_batch env (take (e - i) (drop i statements)) s1 = ((results, err), s2)"
      by (metis surj_pair)
    then show ?thesis
      using assms(3,4,5) True running Batch [of results s2] unfolding unfold
      by (cases err) (auto simp: my_check_canceled_def s1_def e_def Let_def split: prod.splits if_splits)
  next
    case False
    obtain r s2 where sent: "send_statement env (statements ! i) s1 = (r, s2)" by fastforce
    then show ?thesis
      using assms(3,4,5) False running Statement [of _ s2] unfolding unfold
      by (cases r) (auto simp: my_check_canceled_def s1_def e_def Let_def list.pred_map comp_def split: prod.splits if_splits)
  qed
qed

lemma run_truthful:
  assumes "mysql_server env" and "my_mode env = MysqlNormal"
  shows "execute_mysql_batch_statements env database cont max_bytes statements i s = (entries, None, s') \<Longrightarrow>
    list_all entry_complete entries \<Longrightarrow> i < length statements \<or> status_truthful (my_conn s) \<Longrightarrow> status_truthful (my_conn s')"
proof (induction "length statements - i" arbitrary: i s entries rule: less_induct)
  case less
  show ?case
  proof (cases "i < length statements")
    case False
    then show ?thesis using less.prems by (simp add: execute_mysql_batch_statements.simps)
  next
    case True
    from True less.prems(1,2) show ?thesis
    proof (cases rule: run_complete_cases)
      case (Batch results rest s2)
      then show ?thesis
        using less.hyps [OF _ Batch(5,3)] send_batch_truthful [OF assms Batch(1,2)] True by simp
    next
      case (Statement results rest s2)
      then show ?thesis
        using less.hyps [OF _ Statement(4,3)] send_statement_truthful [OF assms Statement(1,2)] True by simp
    qed
  qed
qed

lemma settle_after_run_outcome:
  assumes server: "mysql_server env"
    and final: "my_mode env = MysqlNormal \<Longrightarrow> error_action = None \<Longrightarrow> list_all entry_complete results \<Longrightarrow>
      status_truthful (my_conn s)"
    and settled: "settle_after_run env pool_key opts statements results error_action s = (Inr t, s')"
  shows "(transaction_open (my_conn s') \<longrightarrow> t = Preserved) \<and>
     (t = Preserved \<longrightarrow> pool_key \<in> set (preserved_transactions s')) \<and> my_removed s' = my_removed s"
proof -
  let ?start = "list_ex mysql_statement_opens_explicit_transaction statements"
  let ?final = "my_mode env = MysqlNormal \<and> error_action = None \<and>
       list_all (\<lambda>r. \<not> multi_execution_error r \<and> \<not> result_truncated (multi_result r)) results \<and>
       last_ok_ends_response (my_conn s)"
  have truth: "?final \<longrightarrow> status_truthful (my_conn s) \<and> last_ok_ends_response (my_conn s)"
    using final by (simp add: entry_complete_def [abs_def])
  show ?thesis
  proof (cases "my_tab_scoped env")
    case True
    then have "settle_mysql_auto_commit_transaction env pool_key (opt_preserve_explicit_transaction opts) ?start ?final s = (Inr t, s')"
      using settled by (simp add: settle_after_run_def)
    then show ?thesis by (rule settle_outcome [OF server truth])
  next
    case False
    have quiet: "\<not> transaction_open (my_conn s)"
      if "mysql_cleanup_rollback_is_noop ?final ?start (session_status_from_last_ok (my_conn s))"
      using noop_outcome [OF that truth] .
    show ?thesis
    proof (cases "mysql_cleanup_rollback_is_noop ?final ?start (session_status_from_last_ok (my_conn s))")
      case True
      then show ?thesis using False settled quiet by (simp add: settle_after_run_def)
    next
      case undone: False
      then obtain u where "rollback_open_transaction env s = (Inr u, s')" and "t = TransactionNone"
        using False settled by (simp add: settle_after_run_def split: prod.splits sum.splits)
      then show ?thesis using rollback_outcome [OF server] by blast
    qed
  qed
qed

text \<open>What is sent: single statements and batches of writes that fit, one after the other.\<close>

definition chunk_fits :: "mysql_env \<Rightarrow> nat option \<Rightarrow> string list \<Rightarrow> bool" where
  "chunk_fits env max_bytes sqls \<longleftrightarrow> length sqls = 1 \<or>
     (case max_bytes of None \<Rightarrow> False
      | Some n \<Rightarrow> length sqls \<le> mysql_multi_statement_batch_max_statements \<and> list_all (my_batchable env) sqls \<and>
          byte_len (batch_text sqls) \<le> n)"

definition padded_length :: "string list \<Rightarrow> nat" where
  "padded_length sqls = sum_list (map (\<lambda>sql. byte_len sql + 2) sqls)"

lemma separator_length: "byte_len [CHR '';'', CHR 10] = 2"
  by code_simp

lemma batch_text_length: "byte_len (batch_text sqls) \<le> padded_length sqls"
proof (induction sqls rule: batch_text.induct)
  case (3 sql v va)
  then show ?case unfolding batch_text.simps byte_len_append separator_length by (simp add: padded_length_def)
qed (simp_all add: padded_length_def byte_len_def)

lemma batch_end_loop_bounds:
  fixes batchable max_bytes n bytes sqls
  defines "r \<equiv> batch_end_loop batchable max_bytes n bytes sqls"
  shows "n \<le> r \<and> r - n \<le> length sqls \<and> list_all batchable (take (r - n) sqls) \<and>
     (n \<le> mysql_multi_statement_batch_max_statements \<longrightarrow> r \<le> mysql_multi_statement_batch_max_statements) \<and>
     (n < r \<longrightarrow> 1 < r \<longrightarrow> bytes + padded_length (take (r - n) sqls) \<le> max_bytes)"
  unfolding r_def
proof (induction batchable max_bytes n bytes sqls rule: batch_end_loop.induct)
  case (2 batchable max_bytes n bytes sql rest)
  let ?next = "bytes + byte_len sql + 2"
  let ?r = "batch_end_loop batchable max_bytes (Suc n) ?next rest"
  show ?case
  proof (cases "n \<ge> mysql_multi_statement_batch_max_statements \<or> \<not> batchable sql \<or> (n > 0 \<and> ?next > max_bytes)")
    case True
    then show ?thesis by auto
  next
    case False
    then have r: "batch_end_loop batchable max_bytes n bytes (sql # rest) = ?r"
      unfolding batch_end_loop.simps Let_def by presburger
    have IH: "Suc n \<le> ?r \<and> ?r - Suc n \<le> length rest \<and> list_all batchable (take (?r - Suc n) rest) \<and>
        (Suc n \<le> mysql_multi_statement_batch_max_statements \<longrightarrow> ?r \<le> mysql_multi_statement_batch_max_statements) \<and>
        (Suc n < ?r \<longrightarrow> 1 < ?r \<longrightarrow> ?next + padded_length (take (?r - Suc n) rest) \<le> max_bytes)"
      using 2 False by simp
    then have take: "take (?r - n) (sql # rest) = sql # take (?r - Suc n) rest"
      using take_Cons' [of "?r - n" sql rest] by auto
    show ?thesis
    proof (cases "Suc n < ?r")
      case True
      then show ?thesis using IH False unfolding r take by (auto simp: padded_length_def)
    next
      case last: False
      then have "?r = Suc n" using IH by simp
      then show ?thesis using IH False unfolding r take by (auto simp: padded_length_def)
    qed
  qed
qed simp

lemma batch_chunk_fits:
  assumes "i < length statements" and "e = batch_end_of env statements i max_bytes" and "e > i + 1"
  shows "chunk_fits env max_bytes (take (e - i) (drop i statements)) \<and> e \<le> length statements"
proof -
  let ?sqls = "drop i statements"
  obtain n where n: "max_bytes = Some n" using assms(2,3) by (cases max_bytes) (auto simp: batch_end_of_def)
  let ?r = "batch_end_loop (my_batchable env) n 0 0 ?sqls"
  have e: "e = i + ?r" and r: "1 < ?r"
    using assms n by (auto simp: batch_end_of_def mysql_non_result_batch_end_def split: list.splits if_splits)
  note bounds = batch_end_loop_bounds [of 0 "my_batchable env" n 0 ?sqls]
  have "byte_len (batch_text (take ?r ?sqls)) \<le> n"
    using bounds r batch_text_length [of "take ?r ?sqls"] by auto
  then show ?thesis using bounds e n assms(1) by (auto simp: chunk_fits_def)
qed

lemma send_statement_sent [simp]: "my_sent (snd (send_statement env sql s)) = my_sent s @ [[sql]]"
  by (simp add: send_statement_def split_beta)

lemma send_batch_sent [simp]: "my_sent (snd (send_batch env sqls s)) = my_sent s @ [sqls]"
  by (simp add: send_batch_def split_beta)

lemma run_sends:
  "\<exists>chunks n. my_sent (snd (snd (execute_mysql_batch_statements env database cont max_bytes statements i s))) = my_sent s @ chunks \<and>
     list_all (chunk_fits env max_bytes) chunks \<and> concat chunks = take n (drop i statements)"
proof (induction "length statements - i" arbitrary: i s rule: less_induct)
  case less
  let ?s1 = "snd (my_check_canceled env s)" and ?e = "batch_end_of env statements i max_bytes"
  let ?run = "execute_mysql_batch_statements env database cont max_bytes statements"
  let ?sends = "\<lambda>s'. \<exists>chunks n. my_sent s' = my_sent s @ chunks \<and> list_all (chunk_fits env max_bytes) chunks \<and>
     concat chunks = take n (drop i statements)"
  have none: "?sends t" if "my_sent t = my_sent s" for t
    using that by (intro exI [of _ "[]"] exI [of _ 0]) simp
  have one: "?sends t" if "my_sent t = my_sent s @ [take k (drop i statements)]" "chunk_fits env max_bytes (take k (drop i statements))" for t k
    using that by (intro exI [of _ "[take k (drop i statements)]"] exI [of _ k]) simp
  have more: "?sends (snd (snd (?run (i + k) t)))"
    if t: "my_sent t = my_sent s @ [take k (drop i statements)]" "chunk_fits env max_bytes (take k (drop i statements))"
      and k: "0 < k" "i < length statements" for t k
  proof -
    obtain chunks n where IH: "my_sent (snd (snd (?run (i + k) t))) = my_sent t @ chunks"
      "list_all (chunk_fits env max_bytes) chunks" "concat chunks = take n (drop (i + k) statements)"
      using less.hyps [of "i + k" t] k by (metis add_diff_cancel_left' diff_diff_left diff_less zero_less_diff)
    show ?thesis
      using t IH
      by (intro exI [of _ "take k (drop i statements) # chunks"] exI [of _ "k + n"]) (simp add: take_add add.commute)
  qed
  have single: "[statements ! i] = take 1 (drop i statements)" "chunk_fits env max_bytes [statements ! i]" if "i < length statements"
    using that by (simp_all add: take_Suc_conv_app_nth [of 0, simplified] hd_drop_conv_nth take_Suc chunk_fits_def)
  have fits: "chunk_fits env max_bytes (take (?e - i) (drop i statements))" if "i < length statements" "?e > i + 1"
    using batch_chunk_fits [OF that(1) refl that(2)] by simp
  show ?case
  proof (cases rule: batch_cases [of statements i env database cont max_bytes s])
    case Done
    then show ?thesis using none by simp
  next
    case Canceled
    then show ?thesis using none [of ?s1] by simp
  next
    case BatchStop
    then show ?thesis using fits by (auto intro!: one)
  next
    case Batch
    then show ?thesis using more [of "snd (send_batch env (take (?e - i) (drop i statements)) ?s1)" "?e - i"] fits by simp
  next
    case StatementStop
    then show ?thesis using one [of "snd (send_statement env (statements ! i) ?s1)" 1] single by simp
  next
    case Statement
    then show ?thesis using more [of "snd (send_statement env (statements ! i) ?s1)" 1] single by simp
  qed
qed

lemma rollback_sent: "my_sent (snd (rollback_open_transaction env s)) = my_sent s"
  by (simp add: rollback_open_transaction_def split_beta)

lemma rollback_case_sent:
  "my_sent (snd (case rollback_open_transaction env s of (Inl e, s3) \<Rightarrow> (Inl e, s3) | (Inr _, s3) \<Rightarrow> (Inr d, s3))) = my_sent s"
proof -
  obtain r t where "rollback_open_transaction env s = (r, t)" by fastforce
  then show ?thesis using rollback_sent [of env s] by (cases r) simp_all
qed

lemma settle_sent: "my_sent (snd (settle_mysql_auto_commit_transaction env pool_key allow explicit_start final s)) = my_sent s"
proof -
  let ?cached = "session_status_from_last_ok (my_conn s)"
  obtain status s1 where status: "(if ?cached = None \<and> (allow \<or> pool_key \<in> set (preserved_transactions s))
      then (case my_ping env (my_conn s) of (st, c) \<Rightarrow> (st, s\<lparr>my_conn := c\<rparr>)) else (?cached, s)) = (status, s1)"
    by fastforce
  then have "my_sent s1 = my_sent s" by (auto split: if_splits prod.splits)
  then show ?thesis
    unfolding settle_mysql_auto_commit_transaction_def Let_def status by (simp add: rollback_case_sent)
qed

lemma settle_after_run_sent:
  "my_sent (snd (settle_after_run env pool_key opts statements results action s)) = my_sent s"
  by (simp add: settle_after_run_def Let_def settle_sent rollback_case_sent)

definition pipeline_limit :: "mysql_env \<Rightarrow> nat option \<Rightarrow> bool" where
  "pipeline_limit env max_bytes \<longleftrightarrow>
     (case max_bytes of None \<Rightarrow> True
      | Some n \<Rightarrow> n \<le> 4 * 1024 * 1024 \<and> (case my_max_allowed_packet env of Inl _ \<Rightarrow> False | Inr packet \<Rightarrow> n \<le> packet))"

lemma mysql_sql_statement_hard_limit_le: "mysql_sql_statement_hard_limit packet = Some n \<Longrightarrow> n \<le> packet"
  by (auto simp: mysql_sql_statement_hard_limit_def Let_def split: if_splits)

lemma execute_multi_mysql_sends:
  assumes "execute_multi_mysql env database pool_key opts statements s = (r, s')"
  shows "my_sent s' = my_sent s \<or>
     (\<exists>max_bytes. pipeline_limit env max_bytes \<and>
        my_sent s' = my_sent (snd (snd (execute_mysql_batch_statements env database (opt_continue_on_error opts) max_bytes statements 0 s))))"
proof -
  define max_bytes where "max_bytes =
    (if mysql_non_result_pipeline_enabled (length statements) (opt_continue_on_error opts) (my_mode env)
     then (case my_max_allowed_packet env of
             Inl _ \<Rightarrow> None
           | Inr n \<Rightarrow> map_option (min mysql_multi_statement_batch_max_bytes) (mysql_sql_statement_hard_limit n))
     else None)"
  have limit: "pipeline_limit env max_bytes"
    using mysql_sql_statement_hard_limit_le
    by (auto simp: max_bytes_def pipeline_limit_def mysql_multi_statement_batch_max_bytes_def min.coboundedI2
        split: option.split sum.split)
  obtain results action s1 where
    out: "execute_mysql_batch_statements env database (opt_continue_on_error opts) max_bytes statements 0 s = (results, action, s1)"
    by (metis surj_pair)
  obtain t s2 where settled: "settle_after_run env pool_key opts statements results action s1 = (t, s2)" by fastforce
  have s2: "my_sent s2 = my_sent s1" using settle_after_run_sent [of env pool_key opts statements results action s1] settled by simp
  have removed: "my_sent (remove_mysql_pool pool_key u) = my_sent u" for u by (simp add: remove_mysql_pool_def)
  have "my_sent s' = my_sent s \<or> my_sent s' = my_sent s1"
    using assms s2 unfolding execute_multi_mysql_def max_bytes_def [symmetric] Let_def out
    by (cases "my_checkout env"; cases "my_session_timeout env"; cases "my_catalog_context env"; cases t)
      (auto simp: settled removed split: if_splits)
  then show ?thesis using limit out by auto
qed

section \<open>Properties\<close>

text \<open>
  C5. No transaction is left open on a pooled MySQL connection without being known: after a script of at least
  one statement has run, whatever its statements did, failed or were canceled, the pool was removed or an open
  transaction is one that is marked as preserved; and an entry that tells the client that no transaction is
  open is right unless the connection was given up. This holds again for the next script. The status packet of
  the server is trusted only where \<open>mysql_server\<close> promises it: in the native protocol, after answers without an
  error and read to the end.
\<close>

theorem no_unknown_transaction_is_left_open:
  assumes "mysql_server env" and "statements \<noteq> []"
    and "transaction_open (my_conn s) \<longrightarrow> pool_key \<in> set (preserved_transactions s)"
    and run: "execute_multi_mysql env database pool_key opts statements s = (r, s')"
  shows "pool_key \<in> set (my_removed s') \<or>
     (transaction_open (my_conn s') \<longrightarrow> pool_key \<in> set (preserved_transactions s')) \<and>
     (case r of Inl _ \<Rightarrow> True
      | Inr results \<Rightarrow> list_all (\<lambda>e. auto_commit_open_transaction e = Some False \<longrightarrow> \<not> transaction_open (my_conn s')) results)"
    (is "?goal r s'")
proof -
  have early: "?goal (Inl e) s" for e using assms(3) by simp
  have failed: "?goal (Inr [execution_error_entry e]) s" for e
    using assms(3) by (simp add: execution_error_entry_def execution_error_with_backend_def)
  have removed: "?goal r' (remove_mysql_pool pool_key t)" for r' t by (simp add: remove_mysql_pool_def)
  have ran: "?goal (Inr (map (mark_transaction t) results)) s2"
    if out: "execute_mysql_batch_statements env database cont max_bytes statements 0 s = (results, action, s1)"
      and settled: "settle_after_run env pool_key opts statements results action s1 = (Inr t, s2)"
    for cont max_bytes results action s1 t s2
  proof -
    have "status_truthful (my_conn s1)"
      if "my_mode env = MysqlNormal" "action = None" "list_all entry_complete results"
      using run_truthful [OF assms(1) that(1), of database cont max_bytes statements 0 s results s1] out that assms(2) by simp
    from settle_after_run_outcome [OF assms(1) this settled] show ?thesis
      by (auto simp: list_all_iff mark_transaction_def)
  qed
  show ?thesis
  proof (cases "\<exists>e. my_checkout env = Inl e \<or> my_session_timeout env = Inl e \<or> my_catalog_context env = Inl e")
    case True
    then show ?thesis
      using run early failed removed unfolding execute_multi_mysql_def
      by (cases "my_checkout env"; cases "my_session_timeout env"; cases "my_catalog_context env") (auto split: if_splits)
  next
    case False
    then obtain max_bytes results action s1 where
      out: "execute_mysql_batch_statements env database (opt_continue_on_error opts) max_bytes statements 0 s = (results, action, s1)"
      and after: "(r, s') = (case settle_after_run env pool_key opts statements results action s1 of
          (Inl _, s2) \<Rightarrow> (Inr results, remove_mysql_pool pool_key s2)
        | (Inr transaction, s2) \<Rightarrow>
            (Inr (map (mark_transaction transaction) results),
             if action \<in> {Some PoolDiscard, Some ReconnectAndRetry} then remove_mysql_pool pool_key s2 else s2))"
      using run unfolding execute_multi_mysql_def Let_def
      by (cases "my_checkout env"; cases "my_session_timeout env"; cases "my_catalog_context env") (auto split: prod.splits)
    obtain t s2 where settled: "settle_after_run env pool_key opts statements results action s1 = (t, s2)" by fastforce
    show ?thesis
    proof (cases t)
      case (Inl e)
      then have "s' = remove_mysql_pool pool_key s2" using after settled by simp
      then show ?thesis by (simp add: remove_mysql_pool_def)
    next
      case (Inr transaction)
      note good = ran [OF out settled [unfolded Inr]]
      have "r = Inr (map (mark_transaction transaction) results)"
        and "s' = remove_mysql_pool pool_key s2 \<or> s' = s2"
        using after settled Inr by auto
      then show ?thesis using good removed by blast
    qed
  qed
qed


theorem no_unknown_transaction_is_left_open_witness:
  "let left_open = \<lparr>last_ok_packet = Some \<lparr>in_transaction = True, autocommit = True, more_results_exist = False\<rparr>,
                    transaction_open = True\<rparr>;
       closed = \<lparr>last_ok_packet = None, transaction_open = False\<rparr>;
       env = \<lparr>my_statement = (\<lambda>_ _ _. (Inr [empty_query_result], left_open)), my_batch = (\<lambda>_ _ _ _. (([], None), left_open)),
              my_canceled = (\<lambda>_. False), my_checkout = Inr (), my_session_timeout = Inr (), my_catalog_context = Inr (),
              my_max_allowed_packet = Inr 1000, my_ping = (\<lambda>c. (None, c)), my_rollback = (\<lambda>_. (Inr (), closed)),
              my_batchable = (\<lambda>_. False), my_is_agent = (\<lambda>_. False), my_codec = sample_codec, my_mode = MysqlNormal,
              my_tab_scoped = True\<rparr>
   in case execute_multi_mysql env (Some ''Mysql'') ''tab'' default_query_execution_options [''BEGIN'']
             \<lparr>my_conn = closed, my_sent = [], my_checks = 0, preserved_transactions = [], my_removed = []\<rparr> of
        (r, s') \<Rightarrow>
          ''tab'' \<in> set (my_removed s') \<or>
          (transaction_open (my_conn s') \<longrightarrow> ''tab'' \<in> set (preserved_transactions s')) \<and>
          (case r of Inl _ \<Rightarrow> True
           | Inr results \<Rightarrow> list_all (\<lambda>e. auto_commit_open_transaction e = Some False \<longrightarrow> \<not> transaction_open (my_conn s')) results)"
  unfolding Let_def
  by (rule case_prodI2, rule no_unknown_transaction_is_left_open)
    (auto simp: mysql_server_def status_truthful_def)

text \<open>
  C26. What is sent to the server is a beginning of the script, each statement once and in order, in pieces
  that are a single statement or a batch of at most fifty writes whose joined text is at most 4 MiB long and
  fits into one packet of the server.
\<close>

theorem pipelined_batches_fit_the_packet:
  assumes "my_sent s = []" and "execute_multi_mysql env database pool_key opts statements s = (r, s')"
  shows "(\<exists>n. concat (my_sent s') = take n statements) \<and>
    list_all (\<lambda>sqls. length sqls = 1 \<or>
      (length sqls \<le> 50 \<and> list_all (my_batchable env) sqls \<and> byte_len (batch_text sqls) \<le> 4 * 1024 * 1024 \<and>
       (case my_max_allowed_packet env of Inl _ \<Rightarrow> False | Inr packet \<Rightarrow> byte_len (batch_text sqls) \<le> packet)))
    (my_sent s')"
    (is "_ \<and> list_all ?fits _")
proof -
  have fits: "?fits sqls" if "pipeline_limit env max_bytes" "chunk_fits env max_bytes sqls" for max_bytes sqls
    using that
    by (auto simp: pipeline_limit_def chunk_fits_def mysql_multi_statement_batch_max_statements_def
        split: option.splits sum.splits)
  from execute_multi_mysql_sends [OF assms(2)] show ?thesis
  proof (elim disjE exE conjE)
    assume "my_sent s' = my_sent s"
    then show ?thesis using assms(1) by (auto intro: exI [of _ 0])
  next
    fix max_bytes
    assume limit: "pipeline_limit env max_bytes" and sent: "my_sent s' =
      my_sent (snd (snd (execute_mysql_batch_statements env database (opt_continue_on_error opts) max_bytes statements 0 s)))"
    obtain chunks n where "my_sent s' = chunks" "list_all (chunk_fits env max_bytes) chunks" "concat chunks = take n statements"
      using run_sends [of env database "opt_continue_on_error opts" max_bytes statements 0 s] assms(1) sent by auto
    then show ?thesis using fits [OF limit] by (auto simp: list_all_iff)
  qed
qed

theorem pipelined_batches_fit_the_packet_witness:
  "let conn = \<lparr>last_ok_packet = None, transaction_open = False\<rparr>;
       env = \<lparr>my_statement = (\<lambda>_ _ c. (Inr [empty_query_result], c)),
              my_batch = (\<lambda>_ _ k c. ((replicate k empty_query_result, None), c)),
              my_canceled = (\<lambda>_. False), my_checkout = Inr (), my_session_timeout = Inr (), my_catalog_context = Inr (),
              my_max_allowed_packet = Inr 1000, my_ping = (\<lambda>c. (None, c)), my_rollback = (\<lambda>c. (Inr (), c)),
              my_batchable = starts_with ''INSERT'', my_is_agent = (\<lambda>_. False), my_codec = sample_codec,
              my_mode = MysqlNormal, my_tab_scoped = True\<rparr>;
       script = [''INSERT INTO a'', ''INSERT INTO b'', ''TRUNCATE c''];
       s' = snd (execute_multi_mysql env (Some ''Mysql'') ''tab'' default_query_execution_options script
              \<lparr>my_conn = conn, my_sent = [], my_checks = 0, preserved_transactions = [], my_removed = []\<rparr>)
   in (\<exists>n. concat (my_sent s') = take n script) \<and>
      list_all (\<lambda>sqls. length sqls = 1 \<or>
        (length sqls \<le> 50 \<and> list_all (starts_with ''INSERT'') sqls \<and> byte_len (batch_text sqls) \<le> 4 * 1024 * 1024 \<and>
         byte_len (batch_text sqls) \<le> 1000)) (my_sent s')"
  unfolding Let_def
  using pipelined_batches_fit_the_packet [OF _ prod.collapse [symmetric],
      of "\<lparr>my_conn = \<lparr>last_ok_packet = None, transaction_open = False\<rparr>, my_sent = [], my_checks = 0,
           preserved_transactions = [], my_removed = []\<rparr>"
         "\<lparr>my_statement = (\<lambda>_ _ c. (Inr [empty_query_result], c)),
           my_batch = (\<lambda>_ _ k c. ((replicate k empty_query_result, None), c)),
           my_canceled = (\<lambda>_. False), my_checkout = Inr (), my_session_timeout = Inr (), my_catalog_context = Inr (),
           my_max_allowed_packet = Inr 1000, my_ping = (\<lambda>c. (None, c)), my_rollback = (\<lambda>c. (Inr (), c)),
           my_batchable = starts_with ''INSERT'', my_is_agent = (\<lambda>_. False), my_codec = sample_codec,
           my_mode = MysqlNormal, my_tab_scoped = True\<rparr>"]
  by simp

text \<open>A server that answers both inserts of a batch and then, while the warnings are fetched, runs into a timeout.\<close>

definition late_timeout_env :: mysql_env where
  "late_timeout_env =
     \<lparr>my_statement = (\<lambda>_ _ c. (Inr [empty_query_result], c)),
      my_batch = (\<lambda>_ _ _ c. (([empty_query_result, empty_query_result], Some ''Query timed out after 30 seconds''), c)),
      my_canceled = (\<lambda>_. False), my_checkout = Inr (), my_session_timeout = Inr (), my_catalog_context = Inr (),
      my_max_allowed_packet = Inr 1000, my_ping = (\<lambda>c. (None, c)), my_rollback = (\<lambda>c. (Inr (), c)),
      my_batchable = starts_with ''INSERT'', my_is_agent = (\<lambda>_. False), my_codec = sample_codec,
      my_mode = MysqlNormal, my_tab_scoped = False\<rparr>"

definition late_timeout_script :: "string list" where
  "late_timeout_script = [''INSERT INTO a'', ''INSERT INTO b'', ''TRUNCATE c'']"

lemma late_timeout_batch: "batch_end_of late_timeout_env late_timeout_script 0 (Some 500) = 2"
proof -
  have "byte_len ''INSERT INTO a'' = 13" "byte_len ''INSERT INTO b'' = 13" "starts_with ''INSERT'' ''INSERT INTO a''"
    "starts_with ''INSERT'' ''INSERT INTO b''" "\<not> starts_with ''INSERT'' ''TRUNCATE c''" by code_simp+
  then show ?thesis
    by (simp add: batch_end_of_def mysql_non_result_batch_end_def late_timeout_env_def late_timeout_script_def
        mysql_multi_statement_batch_max_statements_def)
qed

lemma numbered_entries_succeed: "list_all (\<lambda>e. \<not> multi_execution_error e \<and> multi_error e = None) (numbered_entries i qs)"
  by (induction qs arbitrary: i) (simp_all add: success_entry_def)

lemma numbered_entries_length [simp]: "length (numbered_entries i qs) = length qs"
  by (induction qs arbitrary: i) simp_all

lemma late_error_run:
  assumes "1 < batch_end_of env statements 0 max_bytes" and "\<not> my_canceled env (my_checks s)"
    and "k = batch_end_of env statements 0 max_bytes" and "k \<le> length statements"
    and "my_batch env (length (my_sent s)) (batch_text (take k statements)) k (my_conn s) = ((results, Some message), c)"
    and "k \<le> length results"
  shows "\<exists>s'. execute_mysql_batch_statements env database cont max_bytes statements 0 s =
     (numbered_entries 0 results, Some (mysql_batch_pool_error_action env database message), s') \<and>
     my_sent s' = my_sent s @ [take k statements]"
  using assms
  by (subst execute_mysql_batch_statements.simps) (auto simp: my_check_canceled_def send_batch_def Let_def min_absorb2)

lemma mark_transaction_outcome [simp]:
  "multi_execution_error (mark_transaction t e) = multi_execution_error e" "multi_error (mark_transaction t e) = multi_error e"
  by (simp_all add: mark_transaction_def)

lemma remove_mysql_pool_sent [simp]: "my_sent (remove_mysql_pool pool_key s) = my_sent s"
  by (simp add: remove_mysql_pool_def)

text \<open>
  C27. An error that arrives when all statements of the first pipelined batch have answered, such as a timeout
  while the driver fetches warnings, is not reported: whatever the error is, the statements after the batch are
  never sent, the script returns as many entries as the batch has results, and every one of them says that its
  statement succeeded.
\<close>

theorem late_batch_error_is_not_reported:
  assumes ready: "my_checkout env = Inr ()" "my_session_timeout env = Inr ()" "my_catalog_context env = Inr ()"
    and pipeline: "mysql_non_result_pipeline_enabled (length statements) (opt_continue_on_error opts) (my_mode env)"
      "my_max_allowed_packet env = Inr packet" "mysql_sql_statement_hard_limit packet = Some limit"
      "k = batch_end_of env statements 0 (Some (min mysql_multi_statement_batch_max_bytes limit))"
      "1 < k" "k < length statements"
    and answer: "\<not> my_canceled env (my_checks s)"
      "my_batch env (length (my_sent s)) (batch_text (take k statements)) k (my_conn s) = ((results, Some message), c)"
      "k \<le> length results"
  shows "\<exists>entries s'. execute_multi_mysql env database pool_key opts statements s = (Inr entries, s') \<and>
     length entries = length results \<and> list_all (\<lambda>e. \<not> multi_execution_error e \<and> multi_error e = None) entries \<and>
     my_sent s' = my_sent s @ [take k statements]"
proof -
  let ?max = "Some (min mysql_multi_statement_batch_max_bytes limit)" and ?entries = "numbered_entries 0 results"
  let ?action = "Some (mysql_batch_pool_error_action env database message)"
  obtain s1 where
    run: "execute_mysql_batch_statements env database (opt_continue_on_error opts) ?max statements 0 s = (?entries, ?action, s1)"
    and sent: "my_sent s1 = my_sent s @ [take k statements]"
    using late_error_run [of env statements ?max s k results message c] pipeline(4-6) answer by auto
  obtain t s2 where settled: "settle_after_run env pool_key opts statements ?entries ?action s1 = (t, s2)" by fastforce
  then have "my_sent s2 = my_sent s @ [take k statements]"
    using settle_after_run_sent [of env pool_key opts statements ?entries ?action s1] sent by simp
  then show ?thesis
    using numbered_entries_succeed [of 0 results]
    by (cases t) (simp_all add: execute_multi_mysql_def ready pipeline(1-3) run settled list.pred_map comp_def del: numbered_entries.simps)
qed

theorem late_batch_error_is_not_reported_witness:
  "\<exists>entries s'. execute_multi_mysql late_timeout_env (Some ''Mysql'') ''pool'' default_query_execution_options late_timeout_script
       \<lparr>my_conn = \<lparr>last_ok_packet = None, transaction_open = False\<rparr>, my_sent = [], my_checks = 0,
        preserved_transactions = [], my_removed = []\<rparr> = (Inr entries, s') \<and>
     length entries = 2 \<and> list_all (\<lambda>e. \<not> multi_execution_error e \<and> multi_error e = None) entries \<and>
     my_sent s' = [[''INSERT INTO a'', ''INSERT INTO b'']]"
proof -
  let ?s = "\<lparr>my_conn = \<lparr>last_ok_packet = None, transaction_open = False\<rparr>, my_sent = [], my_checks = 0,
        preserved_transactions = [], my_removed = []\<rparr>"
  have end_of: "2 = batch_end_of late_timeout_env late_timeout_script 0 (Some (min mysql_multi_statement_batch_max_bytes 500))"
    using late_timeout_batch by (simp add: mysql_multi_statement_batch_max_bytes_def)
  have script: "length late_timeout_script = 3" "take 2 late_timeout_script = [''INSERT INTO a'', ''INSERT INTO b'']"
    by (simp_all add: late_timeout_script_def)
  have env: "my_checkout late_timeout_env = Inr ()" "my_session_timeout late_timeout_env = Inr ()"
    "my_catalog_context late_timeout_env = Inr ()" "my_max_allowed_packet late_timeout_env = Inr 1000"
    "my_mode late_timeout_env = MysqlNormal" "my_canceled late_timeout_env n = False"
    "my_batch late_timeout_env n sql k c = (([empty_query_result, empty_query_result], Some ''Query timed out after 30 seconds''), c)"
    for n sql k c by (simp_all add: late_timeout_env_def)
  have pipeline: "mysql_non_result_pipeline_enabled (length late_timeout_script)
      (opt_continue_on_error default_query_execution_options) (my_mode late_timeout_env)"
    by (simp add: mysql_non_result_pipeline_enabled_def script env default_query_execution_options_def)
  have limit: "mysql_sql_statement_hard_limit 1000 = Some 500" by (simp add: mysql_sql_statement_hard_limit_def Let_def)
  show ?thesis
    using late_batch_error_is_not_reported [OF env(1-3) pipeline env(4) limit end_of _ _ _ env(7),
        of ?s "Some ''Mysql''" "''pool''"]
    by (simp add: env(6) script, simp add: numeral_2_eq_2)
qed

end
