(* ===== verification/Query_Script.thy ===== *)
theory Query_Script
  imports Mysql_Batch
begin

text \<open>
  Running a script (\<^verbatim>\<open>execute_multi_core_with_options_for_client_and_progress_typed_inner\<close> in
  \<^verbatim>\<open>crates/dbx-core/src/query/mod.rs\<close>): the plan, the choice of a route by database and pool, and the routes
  that run the statements one after the other or in MySQL batches. The routes for a requested transaction,
  for SQL Server batches and for complete agent batches are arguments.
\<close>

section \<open>Batches of SQL Server\<close>

fun scan_line :: "sql_dialect_profile \<Rightarrow> string \<Rightarrow> string \<Rightarrow> string \<Rightarrow> sql_scanner \<Rightarrow> sql_scanner" where
  "scan_line p before [] after sc = sc"
| "scan_line p before (c # cs) after sc = scan_line p (before @ [c]) cs after (scanner_step p before c (cs @ after) sc)"

definition is_batch_separator :: "sql_dialect_profile \<Rightarrow> sql_scanner \<Rightarrow> string \<Rightarrow> bool" where
  "is_batch_separator p sc line =
     (let trimmed = trim line in
      supports_go_batch_separator p \<and> \<not> scanner_is_masked sc \<and>
      (eq_ignore_ascii_case trimmed ''go'' \<or>
       (starts_with ''go '' (to_ascii_lowercase trimmed) \<and> trim (drop 2 trimmed) = [])))"

definition executable_sql_text :: "string \<Rightarrow> string option" where
  "executable_sql_text statement =
     (let executable = leading_executable_sql_with_options default_profile (trim_end statement) in
      if executable = [] then None else Some executable)"

definition push_batch_text :: "string \<Rightarrow> string list" where
  "push_batch_text current = (case executable_sql_text current of None \<Rightarrow> [] | Some batch \<Rightarrow> [batch])"

fun join_sql_lines :: "string list \<Rightarrow> string" where
  "join_sql_lines [] = []"
| "join_sql_lines [line] = line"
| "join_sql_lines (line # lines) = line @ [CHR 10] @ join_sql_lines lines"

fun batch_lines :: "sql_dialect_profile \<Rightarrow> string \<Rightarrow> string \<Rightarrow> sql_scanner \<Rightarrow> string list \<Rightarrow> string list" where
  "batch_lines p before current sc [] = push_batch_text current"
| "batch_lines p before current sc (line # lines) =
     (let newline = (if lines = [] then [] else [CHR 10]);
          after = newline @ join_sql_lines lines;
          separator = is_batch_separator p sc line;
          sc1 = (if separator then sc else scan_line p before line after sc);
          sc2 = (if lines = [] then sc1 else scanner_step p (before @ line) (CHR 10) (join_sql_lines lines) sc1)
      in if separator then push_batch_text current @ batch_lines p (before @ line @ newline) [] sc2 lines
         else batch_lines p (before @ line @ newline) (current @ line @ newline) sc2 lines)"

definition split_sql_batch_texts :: "sql_dialect_profile \<Rightarrow> string \<Rightarrow> string list" where
  "split_sql_batch_texts p sql = batch_lines p [] [] new_scanner (split_on (CHR 10) sql)"

definition split_sql_batches :: "string \<Rightarrow> string list" where
  "split_sql_batches sql =
     (case split_sql_batch_texts sql_server_profile sql of
        [] \<Rightarrow> (if trim sql = [] then [] else [trim sql])
      | batches \<Rightarrow> batches)"

section \<open>Plan and route\<close>

definition query_execution_plan_with_compatibility ::
  "tokenizer \<Rightarrow> string \<Rightarrow> database_type option \<Rightarrow> bool \<Rightarrow> string option \<Rightarrow> sql_execution_plan" where
  "query_execution_plan_with_compatibility tok sql database preserve_sqlserver_batches compatibility =
     (if preserve_sqlserver_batches \<and> database = Some ''SqlServer''
      then \<lparr>plan_statements = split_sql_batches sql, plan_stop_on_error = False\<rparr>
      else
        (case database of
           None \<Rightarrow> \<lparr>plan_statements = split_sql_statements tok sql, plan_stop_on_error = False\<rparr>
         | Some db \<Rightarrow> sql_execution_plan_for_database_with_compatibility tok sql db compatibility))"

datatype pool_kind = MysqlPool | SqlServerPool | SqlServerAgentPool | OtherPool

datatype multi_route =
    TransactionRoute
  | SqlServerRoute
  | HttpSqliteRoute
  | SingleRoute
  | MysqlRoute
  | AgentBatchRoute
  | SequentialRoute

text \<open>
  \<open>single_query\<close> says whether the parser reads a script as exactly one query, \<open>single_settlement\<close> how the
  dispatch of a single statement left the transaction of a MySQL tab.
\<close>

record script_env =
  run_env :: exec_env
  batch_env :: mysql_env
  pool_handle :: pool_kind
  single_query :: "string \<Rightarrow> bool"
  single_settlement :: "mysql_auto_commit_transaction option"
  split_database_type :: "database_type option"
  compatibility_mode :: "string option"
  other_route :: "multi_route \<Rightarrow> string list \<Rightarrow> exec_state \<Rightarrow>
    (query_execution_error + execute_multi_result list) \<times> exec_state"

record script_state =
  run_state :: exec_state
  batch_state :: mysql_state

definition requires_complete_results :: "script_env \<Rightarrow> string \<Rightarrow> query_execution_options \<Rightarrow> bool" where
  "requires_complete_results env sql opts =
     (if opt_result_session_id opts \<noteq> None then False
      else if opt_page_size opts = None then True
      else \<not> single_query env sql)"

definition multi_route_of ::
  "script_env \<Rightarrow> database_type option \<Rightarrow> query_execution_options \<Rightarrow> string \<Rightarrow> string list \<Rightarrow> multi_route" where
  "multi_route_of env database opts sql statements =
     (let complete = (pool_handle env = SqlServerAgentPool \<and> requires_complete_results env sql opts) in
      if opt_use_transaction opts = Some True \<and> length statements > 1 then TransactionRoute
      else if pool_handle env = SqlServerPool then SqlServerRoute
      else if database = Some ''Turso'' \<or> database = Some ''CloudflareD1'' then HttpSqliteRoute
      else if length statements = 1 \<and> \<not> complete \<and>
         \<not> mysql_single_statement_uses_batch_route database (pool_handle env = MysqlPool) (hd statements)
             (opt_max_result_bytes opts)
      then SingleRoute
      else if pool_handle env = MysqlPool then MysqlRoute
      else if complete then AgentBatchRoute
      else SequentialRoute)"

definition single_statement_multi_result ::
  "execution \<Rightarrow> mysql_auto_commit_transaction option \<Rightarrow> query_execution_error + execute_multi_result list" where
  "single_statement_multi_result r settlement =
     (case r of
        Inl e \<Rightarrow> Inl e
      | Inr q \<Rightarrow>
          Inr [case settlement of None \<Rightarrow> success_entry None q | Some t \<Rightarrow> mark_transaction t (success_entry None q)])"

definition run_mysql_route ::
  "script_env \<Rightarrow> database_type option \<Rightarrow> string \<Rightarrow> query_execution_options \<Rightarrow> string list \<Rightarrow> script_state \<Rightarrow>
   (query_execution_error + execute_multi_result list) \<times> script_state" where
  "run_mysql_route env database pool_key opts statements s =
     (let x = run_env env in
      case check_read_only_for_connection_multi (env_tokenizer x) (env_into x) (env_json x) (env_now x) (env_owner x)
             (exec_gate (run_state s)) pool_key statements of
        (Inl e, g) \<Rightarrow> (Inl (LegacyFailure e), s\<lparr>run_state := (run_state s)\<lparr>exec_gate := g\<rparr>\<rparr>)
      | (Inr _, g) \<Rightarrow>
          (case execute_multi_mysql (batch_env env) database pool_key opts statements (batch_state s) of
             (Inl e, m) \<Rightarrow> (Inl (LegacyFailure e), \<lparr>run_state = (run_state s)\<lparr>exec_gate := g\<rparr>, batch_state = m\<rparr>)
           | (Inr results, m) \<Rightarrow> (Inr results, \<lparr>run_state = (run_state s)\<lparr>exec_gate := g\<rparr>, batch_state = m\<rparr>)))"

definition run_route ::
  "script_env \<Rightarrow> database_type option \<Rightarrow> string option \<Rightarrow> string \<Rightarrow> query_execution_options \<Rightarrow> string \<Rightarrow> bool \<Rightarrow> string list \<Rightarrow>
   script_state \<Rightarrow> (query_execution_error + execute_multi_result list) \<times> script_state" where
  "run_route env database schema pool_key opts sql continue_on_error statements s =
     (let route = multi_route_of env database opts sql statements;
          lift = (\<lambda>(r, t). (r, s\<lparr>run_state := t\<rparr>))
      in case route of
           HttpSqliteRoute \<Rightarrow>
             (case execute_sql_statement (run_env env) database schema opts sql (run_state s) of
                (r, t) \<Rightarrow> lift (single_statement_multi_result r None, t))
         | SingleRoute \<Rightarrow>
             (case execute_sql_statement (run_env env) database schema opts (hd statements) (run_state s) of
                (r, t) \<Rightarrow> lift (single_statement_multi_result r (single_settlement env), t))
         | MysqlRoute \<Rightarrow> run_mysql_route env database pool_key opts statements s
         | SequentialRoute \<Rightarrow>
             (case run_statements (run_env env) database schema
                     (options_for_sequential_statements opts (length statements) database) continue_on_error 0 statements
                     (run_state s) of
                (results, t) \<Rightarrow> lift (Inr results, t))
         | _ \<Rightarrow> lift (other_route env route statements (run_state s)))"

definition execute_multi ::
  "script_env \<Rightarrow> database_type option \<Rightarrow> string option \<Rightarrow> query_execution_options \<Rightarrow> string \<Rightarrow> script_state \<Rightarrow>
   (query_execution_error + execute_multi_result list) \<times> script_state" where
  "execute_multi env database schema opts sql s =
     (if database = Some ''MongoDb'' then (Inl (LegacyFailure mongo_shell_command_hint), s)
      else
        (case validate_query_execution_mode (run_env env) database sql opts of
           Inl e \<Rightarrow> (Inl (LegacyFailure e), s)
         | Inr _ \<Rightarrow>
             if opt_execution_mode opts = PostgresReadOnlyTransaction then
               (case execute_sql_statement (run_env env) database schema opts sql (run_state s) of
                  (Inl e, t) \<Rightarrow>
                    (Inl (LegacyFailure (query_error_into_legacy_string (env_codec (run_env env)) e)), s\<lparr>run_state := t\<rparr>)
                | (Inr q, t) \<Rightarrow> (Inr [success_entry None q], s\<lparr>run_state := t\<rparr>))
             else
               (case pool_for_session (run_env env) of
                  Inl e \<Rightarrow> (Inl (LegacyFailure (query_error_with_omitted_sql_context e sql)), s)
                | Inr pool_key \<Rightarrow>
                    (let plan = query_execution_plan_with_compatibility (env_tokenizer (run_env env)) sql
                                  (split_database_type env) (pool_handle env = SqlServerAgentPool) (compatibility_mode env);
                         continue_on_error = (opt_continue_on_error opts \<and> \<not> plan_stop_on_error plan);
                         statements = plan_statements plan
                     in if statements = [] then (Inr [success_entry None empty_query_result], s)
                        else run_route env database schema pool_key opts sql continue_on_error statements s))))"

section \<open>Properties\<close>

definition script_statements :: "script_env \<Rightarrow> string \<Rightarrow> string list" where
  "script_statements env sql = plan_statements (query_execution_plan_with_compatibility (env_tokenizer (run_env env)) sql
     (split_database_type env) (pool_handle env = SqlServerAgentPool) (compatibility_mode env))"

lemma sequential_writes:
  assumes "\<forall>n. canceled env n \<longrightarrow> canceled env (Suc n)" and "\<not> opt_table_data_preview opts"
    and "opt_execution_mode opts \<noteq> PostgresReadOnlyTransaction"
    and "database \<noteq> Some ''MongoDb''" and "pool_for_session env = Inr pool_key"
    and "list_all (verification_reads env database schema) sqls"
  shows "\<exists>n. writes_of env database (snd (run_statements env database schema
      (options_for_sequential_statements opts (length sqls) database) cont 0 sqls s)) =
    writes_of env database s @ take n (filter (once_only_write env database) sqls)"
proof (rule run_statements_writes [OF _ _ _ assms(4,5,6)])
  show "canceled env n \<Longrightarrow> canceled env (Suc n)" for n using assms(1) by simp
qed (use assms(2,3) in \<open>simp_all add: options_for_sequential_statements_kept\<close>)

lemma single_write:
  assumes "\<not> opt_table_data_preview opts" and "opt_execution_mode opts \<noteq> PostgresReadOnlyTransaction"
    and "verification_reads env database schema sql"
    and "database \<noteq> Some ''MongoDb''" and "pool_for_session env = Inr pool_key"
  shows "\<exists>n. writes_of env database (snd (execute_sql_statement env database schema opts sql s)) =
    writes_of env database s @ take n (filter (once_only_write env database) [sql])"
proof -
  obtain r s' where run: "execute_sql_statement env database schema opts sql s = (r, s')" by fastforce
  note once = execute_statement_writes [OF assms run, THEN conjunct1]
  show ?thesis
  proof (cases "once_only_write env database sql \<and> \<not> canceled env (cancel_checks s)")
    case True
    then show ?thesis using once run by (intro exI [of _ 1]) simp
  next
    case False
    then show ?thesis using once run by (intro exI [of _ 0]) auto
  qed
qed


text \<open>A database that accepts everything, behind a plain pool.\<close>

definition accepting_env :: script_env where
  "accepting_env =
     \<lparr>run_env =
        \<lparr>env_tokenizer = (\<lambda>_. None), env_into = (\<lambda>_ _. False), env_is_agent = (\<lambda>_. False), env_codec = sample_codec,
         env_json = (\<lambda>_. None), env_now = 0, env_owner = None, create_table_relation = (\<lambda>_. None),
         drop_database_target = (\<lambda>_. None), preview_fallback_sql = (\<lambda>_. None), pool_for_session = Inr ''pool'',
         answer = (\<lambda>_ _ _. Inr empty_query_result), reconnected = (\<lambda>_. Inl ''gone''), canceled = (\<lambda>_. False),
         close_database_pool = (\<lambda>_. Inr ()), admin_pool = (\<lambda>_. Inl ''none''), admin_pool_is_postgres = (\<lambda>_. None),
         drop_answer = (\<lambda>_ _. Inl ''none'')\<rparr>,
      batch_env = late_timeout_env, pool_handle = OtherPool, single_query = (\<lambda>_. False), single_settlement = None,
      split_database_type = Some ''Sqlite'', compatibility_mode = None,
      other_route = (\<lambda>_ _ t. (Inr [], t))\<rparr>"

definition fresh_script_state :: script_state where
  "fresh_script_state =
     \<lparr>run_state = \<lparr>dispatched = [], reconnect_count = 0, cancel_checks = 0, removed_pools = [],
                   exec_gate = \<lparr>configs = [], write_windows = []\<rparr>\<rparr>,
      batch_state = \<lparr>my_conn = \<lparr>last_ok_packet = None, transaction_open = False\<rparr>, my_sent = [], my_checks = 0,
                     preserved_transactions = [], my_removed = []\<rparr>\<rparr>"


end
