(* ===== verification/State_Store.thy ===== *)
theory State_Store
  imports Json_Value
begin

text \<open>
  The versioned key-value store behind long-running work: the table \<^verbatim>\<open>state_store\<close> of
  \<^verbatim>\<open>src/crates/dbx-core/src/persistence/storage.rs\<close>, the backend trait and the state machine with optimistic
  locking of \<^verbatim>\<open>src/crates/dbx-core/src/persistence/state_persistence.rs\<close>.

  The table is a hash map from keys to rows. A call runs under the connection's lock, so it is one step; before
  it runs, other tasks and processes may have written, and it may fail. Both are data of the world: each call
  takes the next \<open>turn\<close>, with what the others did to the table and the error SQLite answers, if any; a call
  beyond the last turn runs alone and succeeds. A failed statement changes nothing. Versions are natural
  numbers: a \<^verbatim>\<open>u64\<close> that starts at 1 and grows by one per write does not reach its bound. The swap of a missing
  row is a SELECT and an INSERT in the source; here they are one step, so that an INSERT that finds a row of
  another process, which SQLite answers with an error, appears only as a failed call. The JSON encoding
  (\<^verbatim>\<open>serde_json\<close>) is an argument.

  \<^item> \<open>transition_replaces_the_row_it_read\<close>: under any interference that only ever writes newer versions, a
    transition that succeeds replaced exactly the row it had read, by a move that \<open>ALLOWED_TRANSITIONS\<close> lists.
  \<^item> \<open>state_rows_stay_typed\<close>: every operation, among writers that do so too, keeps the entries decodable, in a known state, with a version the
    row's version covers.
  \<^item> \<open>recreated_entry_is_stuck\<close>: creating an entry over an old one leaves the two versions apart, and no
    transition of that entry succeeds any more.
\<close>

section \<open>The table\<close>

record state_row =
  sr_value :: string
  sr_content_type :: string
  sr_version :: nat
  sr_payload :: string

type_synonym state_table = "(string, state_row) hmap"

record turn =
  interference :: "state_table \<Rightarrow> state_table"
  fault :: "string option"

record store_world =
  state_rows :: state_table
  turns :: "turn list"

definition with_conn :: "(state_table \<Rightarrow> 'a rust_result \<times> state_table) \<Rightarrow> store_world \<Rightarrow> 'a rust_result \<times> store_world" where
  "with_conn f w =
     (case turns w of
        [] \<Rightarrow> (let (r, t) = f (state_rows w) in (r, w\<lparr>state_rows := t\<rparr>))
      | u # us \<Rightarrow>
          (let t = interference u (state_rows w) in
           case fault u of
             Some e \<Rightarrow> (Inl e, w\<lparr>state_rows := t, turns := us\<rparr>)
           | None \<Rightarrow> (let (r, t') = f t in (r, w\<lparr>state_rows := t', turns := us\<rparr>))))"

definition save_state :: "string \<Rightarrow> string \<Rightarrow> string \<Rightarrow> store_world \<Rightarrow> unit rust_result \<times> store_world" where
  "save_state key value content_type =
     with_conn (\<lambda>t.
       (Inr (),
        case hm_get t key of
          None \<Rightarrow> hm_insert key \<lparr>sr_value = value, sr_content_type = content_type, sr_version = 1, sr_payload = []\<rparr> t
        | Some row \<Rightarrow>
            hm_insert key (row\<lparr>sr_value := value, sr_content_type := content_type, sr_version := sr_version row + 1,
                               sr_payload := []\<rparr>) t))"

definition load_state :: "string \<Rightarrow> store_world \<Rightarrow> (string \<times> string) option rust_result \<times> store_world" where
  "load_state key =
     with_conn (\<lambda>t. (Inr (map_option (\<lambda>row. (sr_value row, sr_content_type row)) (hm_get t key)), t))"

definition delete_state :: "string \<Rightarrow> store_world \<Rightarrow> unit rust_result \<times> store_world" where
  "delete_state key = with_conn (\<lambda>t. (Inr (), hm_remove key t))"

definition state_exists :: "string \<Rightarrow> store_world \<Rightarrow> bool rust_result \<times> store_world" where
  "state_exists key = with_conn (\<lambda>t. (Inr (hm_get t key \<noteq> None), t))"

definition get_state_version :: "string \<Rightarrow> store_world \<Rightarrow> nat option rust_result \<times> store_world" where
  "get_state_version key = with_conn (\<lambda>t. (Inr (map_option sr_version (hm_get t key)), t))"

definition compare_and_swap_row ::
  "string \<Rightarrow> nat option \<Rightarrow> string \<Rightarrow> string \<Rightarrow> store_world \<Rightarrow> bool rust_result \<times> store_world" where
  "compare_and_swap_row key expected_version new_value content_type =
     with_conn (\<lambda>t.
       case (hm_get t key, expected_version) of
         (None, None) \<Rightarrow>
           (Inr True,
            hm_insert key \<lparr>sr_value = new_value, sr_content_type = content_type, sr_version = 1, sr_payload = []\<rparr> t)
       | (Some row, Some expected) \<Rightarrow>
           if sr_version row = expected
           then (Inr True,
                 hm_insert key (row\<lparr>sr_value := new_value, sr_content_type := content_type,
                                    sr_version := sr_version row + 1\<rparr>) t)
           else (Inr False, t)
       | _ \<Rightarrow> (Inr False, t))"

section \<open>Backends\<close>

record 'w state_backend =
  be_save :: "string \<Rightarrow> string \<Rightarrow> 'w \<Rightarrow> unit rust_result \<times> 'w"
  be_save_with_content_type :: "string \<Rightarrow> string \<Rightarrow> string \<Rightarrow> 'w \<Rightarrow> unit rust_result \<times> 'w"
  be_load :: "string \<Rightarrow> 'w \<Rightarrow> string option rust_result \<times> 'w"
  be_delete :: "string \<Rightarrow> 'w \<Rightarrow> unit rust_result \<times> 'w"
  be_exists :: "string \<Rightarrow> 'w \<Rightarrow> bool rust_result \<times> 'w"
  be_compare_and_swap :: "string \<Rightarrow> string option \<Rightarrow> string \<Rightarrow> 'w \<Rightarrow> bool rust_result \<times> 'w"

definition default_compare_and_swap :: "string \<Rightarrow> string option \<Rightarrow> string \<Rightarrow> 'w \<Rightarrow> bool rust_result \<times> 'w" where
  "default_compare_and_swap key old new w = (Inl ''CAS not supported by this backend'', w)"

record state_entry =
  se_key :: string
  se_current_state :: string
  se_version :: nat
  se_metadata :: json

record entry_codec =
  entry_to_vec :: "state_entry \<Rightarrow> string rust_result"
  entry_from_slice :: "string \<Rightarrow> state_entry rust_result"

definition local_compare_and_swap ::
  "entry_codec \<Rightarrow> string \<Rightarrow> string option \<Rightarrow> string \<Rightarrow> store_world \<Rightarrow> bool rust_result \<times> store_world" where
  "local_compare_and_swap codec key old new w =
     (case old of
        Some data \<Rightarrow>
          (case entry_from_slice codec data of
             Inl e \<Rightarrow> (Inl (''CAS deserialize error: '' @ e), w)
           | Inr entry \<Rightarrow> compare_and_swap_row key (Some (se_version entry)) new ''application/json'' w)
      | None \<Rightarrow> compare_and_swap_row key None new ''application/json'' w)"

definition local_load :: "string \<Rightarrow> store_world \<Rightarrow> string option rust_result \<times> store_world" where
  "local_load key w =
     (let (r, w') = load_state key w in
      (case r of Inl e \<Rightarrow> Inl e | Inr found \<Rightarrow> Inr (map_option fst found), w'))"

definition local_backend :: "entry_codec \<Rightarrow> store_world state_backend" where
  "local_backend codec =
     \<lparr>be_save = (\<lambda>key value. save_state key value ''application/octet-stream''),
      be_save_with_content_type = save_state,
      be_load = local_load,
      be_delete = delete_state,
      be_exists = state_exists,
      be_compare_and_swap = local_compare_and_swap codec\<rparr>"

section \<open>The state machine\<close>

datatype state_transition =
    St_Created | St_Running | St_Paused | St_OscSyncing | St_Completed | St_Failed | St_Cancelled
  | St_RollingBack | St_FullyRolledBack | St_PartiallyRolledBack | St_RecoveryRequired

primrec transition_as_str :: "state_transition \<Rightarrow> string" where
  "transition_as_str St_Created = ''created''"
| "transition_as_str St_Running = ''running''"
| "transition_as_str St_Paused = ''paused''"
| "transition_as_str St_OscSyncing = ''osc_syncing''"
| "transition_as_str St_Completed = ''completed''"
| "transition_as_str St_Failed = ''failed''"
| "transition_as_str St_Cancelled = ''cancelled''"
| "transition_as_str St_RollingBack = ''rolling_back''"
| "transition_as_str St_FullyRolledBack = ''fully_rolled_back''"
| "transition_as_str St_PartiallyRolledBack = ''partially_rolled_back''"
| "transition_as_str St_RecoveryRequired = ''recovery_required''"

definition transition_from_str :: "string \<Rightarrow> state_transition option" where
  "transition_from_str s =
     (if s = ''created'' then Some St_Created
      else if s = ''running'' then Some St_Running
      else if s = ''paused'' then Some St_Paused
      else if s = ''osc_syncing'' then Some St_OscSyncing
      else if s = ''completed'' then Some St_Completed
      else if s = ''failed'' then Some St_Failed
      else if s = ''cancelled'' then Some St_Cancelled
      else if s = ''rolling_back'' then Some St_RollingBack
      else if s = ''fully_rolled_back'' then Some St_FullyRolledBack
      else if s = ''partially_rolled_back'' then Some St_PartiallyRolledBack
      else if s = ''recovery_required'' then Some St_RecoveryRequired
      else None)"

definition ALLOWED_TRANSITIONS :: "(state_transition \<times> state_transition list) list" where
  "ALLOWED_TRANSITIONS =
     [(St_Created, [St_Running, St_Cancelled]),
      (St_Running, [St_Paused, St_OscSyncing, St_Completed, St_Failed]),
      (St_Paused, [St_Running, St_Cancelled]),
      (St_OscSyncing, [St_Completed, St_Failed]),
      (St_Completed, [St_RollingBack, St_FullyRolledBack]),
      (St_Failed, [St_Running, St_Cancelled, St_RollingBack, St_RecoveryRequired]),
      (St_Cancelled, []),
      (St_RollingBack, [St_FullyRolledBack, St_PartiallyRolledBack, St_RecoveryRequired]),
      (St_FullyRolledBack, []),
      (St_PartiallyRolledBack, [St_RecoveryRequired]),
      (St_RecoveryRequired, [])]"

definition is_valid_transition :: "state_transition \<Rightarrow> state_transition \<Rightarrow> bool" where
  "is_valid_transition from_state to_state =
     list_ex (\<lambda>(state, allowed). state = from_state \<and> List.member allowed to_state) ALLOWED_TRANSITIONS"

definition STATE_KEY_PREFIX :: string where
  "STATE_KEY_PREFIX = ''state:''"

definition create_state ::
  "entry_codec \<Rightarrow> 'w state_backend \<Rightarrow> string \<Rightarrow> json \<Rightarrow> 'w \<Rightarrow> state_entry rust_result \<times> 'w" where
  "create_state codec b key metadata w =
     (let entry = \<lparr>se_key = key, se_current_state = transition_as_str St_Created, se_version = 1,
                   se_metadata = metadata\<rparr> in
      case entry_to_vec codec entry of
        Inl e \<Rightarrow> (Inl e, w)
      | Inr data \<Rightarrow>
          (case be_save b (STATE_KEY_PREFIX @ key) data w of
             (Inl e, w') \<Rightarrow> (Inl e, w')
           | (Inr _, w') \<Rightarrow> (Inr entry, w')))"

definition compare_and_swap_state ::
  "entry_codec \<Rightarrow> 'w state_backend \<Rightarrow> string \<Rightarrow> nat \<Rightarrow> state_entry \<Rightarrow> 'w \<Rightarrow> bool rust_result \<times> 'w" where
  "compare_and_swap_state codec b key expected_version new_state w =
     (let old_entry = \<lparr>se_key = key, se_current_state = [], se_version = expected_version, se_metadata = JNull\<rparr> in
      case entry_to_vec codec old_entry of
        Inl e \<Rightarrow> (Inl e, w)
      | Inr old_data \<Rightarrow>
          (case entry_to_vec codec new_state of
             Inl e \<Rightarrow> (Inl e, w)
           | Inr new_data \<Rightarrow> be_compare_and_swap b (STATE_KEY_PREFIX @ key) (Some old_data) new_data w))"

text \<open>One round of \<^verbatim>\<open>transition\<close>: the entry is loaded and the move is tried. \<open>None\<close> is a lost race.\<close>

definition transition_attempt ::
  "entry_codec \<Rightarrow> 'w state_backend \<Rightarrow> string \<Rightarrow> state_transition \<Rightarrow> 'w \<Rightarrow> state_entry rust_result option \<times> 'w" where
  "transition_attempt codec b key to_state w =
     (case be_load b (STATE_KEY_PREFIX @ key) w of
        (Inl e, w1) \<Rightarrow> (Some (Inl e), w1)
      | (Inr None, w1) \<Rightarrow> (Some (Inl (''State not found: '' @ key)), w1)
      | (Inr (Some data), w1) \<Rightarrow>
          (case entry_from_slice codec data of
             Inl e \<Rightarrow> (Some (Inl e), w1)
           | Inr entry \<Rightarrow>
               (case transition_from_str (se_current_state entry) of
                  None \<Rightarrow> (Some (Inl (''Invalid current state: '' @ se_current_state entry)), w1)
                | Some current \<Rightarrow>
                    if \<not> is_valid_transition current to_state
                    then (Some (Inl (''Invalid transition: '' @ transition_as_str current @ '' -> ''
                                       @ transition_as_str to_state)), w1)
                    else
                      (let moved = entry\<lparr>se_current_state := transition_as_str to_state,
                                         se_version := se_version entry + 1\<rparr> in
                       case compare_and_swap_state codec b key (se_version entry) moved w1 of
                         (Inl e, w2) \<Rightarrow> (Some (Inl e), w2)
                       | (Inr True, w2) \<Rightarrow> (Some (Inr moved), w2)
                       | (Inr False, w2) \<Rightarrow> (None, w2)))))"

text \<open>The loop of \<^verbatim>\<open>transition\<close>: \<^verbatim>\<open>for attempt in 0..=max_retries\<close>, with \<^verbatim>\<open>max_retries = 3\<close>, is four rounds.\<close>

primrec transition_rounds ::
  "nat \<Rightarrow> entry_codec \<Rightarrow> 'w state_backend \<Rightarrow> string \<Rightarrow> state_transition \<Rightarrow> 'w \<Rightarrow> state_entry rust_result \<times> 'w" where
  "transition_rounds 0 codec b key to_state w = (Inl (''CAS failed after 3 retries for state key: '' @ key), w)"
| "transition_rounds (Suc n) codec b key to_state w =
     (case transition_attempt codec b key to_state w of
        (Some r, w') \<Rightarrow> (r, w')
      | (None, w') \<Rightarrow> transition_rounds n codec b key to_state w')"

definition transition ::
  "entry_codec \<Rightarrow> 'w state_backend \<Rightarrow> string \<Rightarrow> state_transition \<Rightarrow> 'w \<Rightarrow> state_entry rust_result \<times> 'w" where
  "transition codec b key to_state w = transition_rounds (3 + 1) codec b key to_state w"

definition get_state ::
  "entry_codec \<Rightarrow> 'w state_backend \<Rightarrow> string \<Rightarrow> 'w \<Rightarrow> state_entry option rust_result \<times> 'w" where
  "get_state codec b key w =
     (case be_load b (STATE_KEY_PREFIX @ key) w of
        (Inl e, w') \<Rightarrow> (Inl e, w')
      | (Inr None, w') \<Rightarrow> (Inr None, w')
      | (Inr (Some data), w') \<Rightarrow>
          (case entry_from_slice codec data of Inl e \<Rightarrow> (Inl e, w') | Inr entry \<Rightarrow> (Inr (Some entry), w')))"

definition delete_entry :: "'w state_backend \<Rightarrow> string \<Rightarrow> 'w \<Rightarrow> unit rust_result \<times> 'w" where
  "delete_entry b key w = be_delete b (STATE_KEY_PREFIX @ key) w"


section \<open>What a backend promises\<close>

text \<open>How the row of a key may change under the writers of the table: not at all, or to a newer version.\<close>

definition row_grows :: "state_row option \<Rightarrow> state_row option \<Rightarrow> bool" where
  "row_grows r r' \<longleftrightarrow>
     r' = r \<or> (case r' of None \<Rightarrow> False
                | Some new \<Rightarrow> (case r of None \<Rightarrow> True | Some old \<Rightarrow> sr_version old < sr_version new))"

lemma row_grows_refl [simp]: "row_grows r r"
  by (simp add: row_grows_def)

lemma row_grows_trans [trans]: "row_grows a b \<Longrightarrow> row_grows b c \<Longrightarrow> row_grows a c"
  by (auto simp: row_grows_def split: option.splits)

lemma row_grows_from: "row_grows None r"
  by (cases r) (auto simp: row_grows_def)

lemma row_grows_version:
  "row_grows (Some row) r \<Longrightarrow> \<exists>row'. r = Some row' \<and> sr_version row \<le> sr_version row' \<and> (sr_version row' = sr_version row \<longrightarrow> row' = row)"
  by (auto simp: row_grows_def split: option.splits)

text \<open>A round either stops at the load, with an error, or ends with the swap.\<close>

definition swap_outcome :: "state_entry \<Rightarrow> bool rust_result \<Rightarrow> state_entry rust_result option" where
  "swap_outcome moved s = (case s of Inl e \<Rightarrow> Some (Inl e) | Inr won \<Rightarrow> if won then Some (Inr moved) else None)"

lemma swap_outcome_won: "Some (Inr m) = swap_outcome moved s \<Longrightarrow> s = Inr True \<and> m = moved"
  by (auto simp: swap_outcome_def split: sum.splits if_splits)

lemma transition_attempt_shape:
  assumes "be_load b (STATE_KEY_PREFIX @ key) w = (l, w1)"
    and "transition_attempt codec b key to_state w = (r, w')"
  shows "(w' = w1 \<and> (\<exists>e. r = Some (Inl e))) \<or>
    (\<exists>data e current old_data new_data s.
       l = Inr (Some data) \<and> entry_from_slice codec data = Inr e
     \<and> transition_from_str (se_current_state e) = Some current \<and> is_valid_transition current to_state
     \<and> entry_to_vec codec \<lparr>se_key = key, se_current_state = [], se_version = se_version e, se_metadata = JNull\<rparr>
         = Inr old_data
     \<and> entry_to_vec codec (e\<lparr>se_current_state := transition_as_str to_state, se_version := se_version e + 1\<rparr>)
         = Inr new_data
     \<and> be_compare_and_swap b (STATE_KEY_PREFIX @ key) (Some old_data) new_data w1 = (s, w')
     \<and> r = swap_outcome (e\<lparr>se_current_state := transition_as_str to_state, se_version := se_version e + 1\<rparr>) s)"
proof (cases "\<exists>data e current. l = Inr (Some data) \<and> entry_from_slice codec data = Inr e
                \<and> transition_from_str (se_current_state e) = Some current \<and> is_valid_transition current to_state")
  case False
  then show ?thesis
    using assms unfolding transition_attempt_def
    by (cases l; cases "projr l"; cases "entry_from_slice codec (the (projr l))";
        cases "transition_from_str (se_current_state (projr (entry_from_slice codec (the (projr l)))))") auto
next
  case True
  then obtain data e current where d: "l = Inr (Some data)" "entry_from_slice codec data = Inr e"
    "transition_from_str (se_current_state e) = Some current" "is_valid_transition current to_state" by blast
  let ?old = "\<lparr>se_key = key, se_current_state = [], se_version = se_version e, se_metadata = JNull\<rparr>"
  let ?moved = "e\<lparr>se_current_state := transition_as_str to_state, se_version := se_version e + 1\<rparr>"
  obtain s w2 where s: "compare_and_swap_state codec b key (se_version e) ?moved w1 = (s, w2)" by fastforce
  have r: "r = swap_outcome ?moved s" "w' = w2"
    using assms d s by (auto simp: transition_attempt_def swap_outcome_def split: sum.splits bool.splits)
  show ?thesis
  proof (cases "entry_to_vec codec ?old")
    case (Inl x)
    then have "s = Inl x" "w2 = w1" using s by (auto simp: compare_and_swap_state_def)
    then show ?thesis using r by (simp add: swap_outcome_def)
  next
    case old: (Inr old_data)
    show ?thesis
    proof (cases "entry_to_vec codec ?moved")
      case (Inl x)
      then have "s = Inl x" "w2 = w1" using s old by (auto simp: compare_and_swap_state_def)
      then show ?thesis using r by (simp add: swap_outcome_def)
    next
      case (Inr new_data)
      then have "be_compare_and_swap b (STATE_KEY_PREFIX @ key) (Some old_data) new_data w1 = (s, w2)"
        using s old by (simp add: compare_and_swap_state_def)
      then show ?thesis using r old Inr d by blast
    qed
  qed
qed

text \<open>
  What a row under the prefix of the state machine looks like: it decodes, to an entry in a known state whose
  version is covered by the version of the row. \<open>codec_ok\<close> is the round trip of the JSON library.
\<close>

definition entry_row_ok :: "entry_codec \<Rightarrow> state_row \<Rightarrow> bool" where
  "entry_row_ok codec row =
     (case entry_from_slice codec (sr_value row) of
        Inl _ \<Rightarrow> False
      | Inr e \<Rightarrow> transition_from_str (se_current_state e) \<noteq> None \<and> se_version e \<le> sr_version row)"

definition codec_ok :: "entry_codec \<Rightarrow> bool" where
  "codec_ok codec \<longleftrightarrow> (\<forall>e d. entry_to_vec codec e = Inr d \<longrightarrow> entry_from_slice codec d = Inr e)"

definition successor_data :: "entry_codec \<Rightarrow> nat \<Rightarrow> string \<Rightarrow> bool" where
  "successor_data codec v new =
     (case entry_from_slice codec new of
        Inl _ \<Rightarrow> False
      | Inr e \<Rightarrow> transition_from_str (se_current_state e) \<noteq> None \<and> se_version e \<le> v + 1)"

text \<open>A row was replaced by the move: the state it held allowed it, and the new row is the next version.\<close>

definition replaced_by_move ::
  "entry_codec \<Rightarrow> state_transition \<Rightarrow> state_row \<Rightarrow> state_entry \<Rightarrow> state_row option \<Rightarrow> bool" where
  "replaced_by_move codec to_state row moved r' \<longleftrightarrow>
     (\<exists>row' e current.
        entry_from_slice codec (sr_value row) = Inr e
      \<and> transition_from_str (se_current_state e) = Some current \<and> is_valid_transition current to_state
      \<and> moved = e\<lparr>se_current_state := transition_as_str to_state, se_version := se_version e + 1\<rparr>
      \<and> r' = Some row' \<and> entry_from_slice codec (sr_value row') = Inr moved
      \<and> sr_version row' = sr_version row + 1 \<and> se_version e = sr_version row)"

lemma transition_round_trip [simp]: "transition_from_str (transition_as_str t) = Some t"
  by (cases t) (simp_all add: transition_from_str_def)

text \<open>
  The contract of a versioned backend. \<open>view w k\<close> is the row of a key, \<open>ok\<close> what the client must know of the
  world. A load answers the row as it is when the call returns. A swap that succeeds found a row of the expected
  version, whatever the others did before, and left the new value one version on.
\<close>

locale versioned_backend =
  fixes view :: "'w \<Rightarrow> string \<Rightarrow> state_row option"
    and ok :: "'w \<Rightarrow> bool"
    and codec :: entry_codec
    and b :: "'w state_backend"
  assumes codec: "ok w \<Longrightarrow> codec_ok codec"
    and typed: "ok w \<Longrightarrow> view w (STATE_KEY_PREFIX @ k) = Some row \<Longrightarrow> entry_row_ok codec row"
    and load_grows: "ok w \<Longrightarrow> be_load b k w = (r, w') \<Longrightarrow> ok w' \<and> row_grows (view w k) (view w' k)"
    and load_reads: "ok w \<Longrightarrow> be_load b k w = (Inr found, w') \<Longrightarrow> found = map_option sr_value (view w' k)"
    and swap_grows:
      "ok w \<Longrightarrow> entry_from_slice codec data = Inr e \<Longrightarrow> successor_data codec (se_version e) new \<Longrightarrow>
         be_compare_and_swap b k (Some data) new w = (s, w') \<Longrightarrow> ok w' \<and> row_grows (view w k) (view w' k)"
    and swap_replaces:
      "ok w \<Longrightarrow> entry_from_slice codec data = Inr e \<Longrightarrow> be_compare_and_swap b k (Some data) new w = (Inr True, w') \<Longrightarrow>
         \<exists>row row'. row_grows (view w k) (Some row) \<and> sr_version row = se_version e
           \<and> view w' k = Some row' \<and> sr_value row' = new \<and> sr_version row' = sr_version row + 1"
begin

lemma codec_reads: "ok w \<Longrightarrow> entry_to_vec codec e = Inr d \<Longrightarrow> entry_from_slice codec d = Inr e"
  using codec [of w] by (simp add: codec_ok_def)

text \<open>The state machine's guarantee: a move that succeeds replaced the very row it was decided on.\<close>

lemma attempt_grows:
  assumes "ok w" "transition_attempt codec b key to_state w = (r, w')"
  shows "ok w' \<and> row_grows (view w (STATE_KEY_PREFIX @ key)) (view w' (STATE_KEY_PREFIX @ key))"
proof -
  let ?k = "STATE_KEY_PREFIX @ key"
  obtain l w1 where l: "be_load b ?k w = (l, w1)" by fastforce
  note g1 = load_grows [OF assms(1) l]
  from transition_attempt_shape [OF l assms(2)] show ?thesis
  proof (elim disjE exE conjE)
    fix e current old_data new_data s
    assume old: "entry_to_vec codec \<lparr>se_key = key, se_current_state = [], se_version = se_version e, se_metadata = JNull\<rparr>
                   = Inr old_data"
      and new: "entry_to_vec codec (e\<lparr>se_current_state := transition_as_str to_state, se_version := se_version e + 1\<rparr>)
                   = Inr new_data"
      and swap: "be_compare_and_swap b ?k (Some old_data) new_data w1 = (s, w')"
    have "successor_data codec (se_version e) new_data"
      using codec_reads [OF assms(1) new] by (simp add: successor_data_def)
    then show ?thesis
      using swap_grows [OF _ codec_reads [OF assms(1) old] _ swap] g1 row_grows_trans by auto
  qed (use g1 in simp)
qed

lemma attempt_replaces:
  assumes "ok w" "transition_attempt codec b key to_state w = (Some (Inr moved), w')"
  shows "\<exists>row. row_grows (view w (STATE_KEY_PREFIX @ key)) (Some row)
           \<and> replaced_by_move codec to_state row moved (view w' (STATE_KEY_PREFIX @ key))"
proof -
  let ?k = "STATE_KEY_PREFIX @ key"
  obtain l w1 where l: "be_load b ?k w = (l, w1)" by fastforce
  note g1 = load_grows [OF assms(1) l]
  obtain data e current old_data new_data where
      data: "l = Inr (Some data)" and e: "entry_from_slice codec data = Inr e"
    and current: "transition_from_str (se_current_state e) = Some current" "is_valid_transition current to_state"
    and moved: "moved = e\<lparr>se_current_state := transition_as_str to_state, se_version := se_version e + 1\<rparr>"
    and old: "entry_to_vec codec \<lparr>se_key = key, se_current_state = [], se_version = se_version e, se_metadata = JNull\<rparr>
                = Inr old_data"
    and new: "entry_to_vec codec moved = Inr new_data"
    and swap: "be_compare_and_swap b ?k (Some old_data) new_data w1 = (Inr True, w')"
    using transition_attempt_shape [OF l assms(2)] swap_outcome_won by (elim disjE exE conjE) (simp, metis)
  obtain seen where seen: "view w1 ?k = Some seen" and sv: "sr_value seen = data"
    using load_reads [OF assms(1) l [unfolded data]] by (cases "view w1 ?k") auto
  obtain row row' where row: "row_grows (view w1 ?k) (Some row)" "sr_version row = se_version e"
    and row': "view w' ?k = Some row'" "sr_value row' = new_data" "sr_version row' = sr_version row + 1"
    using swap_replaces [OF _ codec_reads [OF assms(1) old] swap] g1 by auto
  have "se_version e \<le> sr_version seen"
    using typed [OF _ seen] e g1 by (simp add: entry_row_ok_def sv)
  then have "row = seen" and "se_version e = sr_version seen"
    using row_grows_version [OF row(1) [unfolded seen]] row(2) by auto
  then have "replaced_by_move codec to_state seen moved (view w' ?k)"
    unfolding replaced_by_move_def using sv e current moved row' codec_reads [OF assms(1) new] by auto
  then show ?thesis using g1 seen by auto
qed

lemma rounds_grow:
  "ok w \<Longrightarrow> transition_rounds n codec b key to_state w = (r, w') \<Longrightarrow>
     ok w' \<and> row_grows (view w (STATE_KEY_PREFIX @ key)) (view w' (STATE_KEY_PREFIX @ key))"
proof (induction n arbitrary: w)
  case (Suc n)
  obtain a w1 where a: "transition_attempt codec b key to_state w = (a, w1)" by fastforce
  note g = attempt_grows [OF Suc.prems(1) a]
  show ?case
    using Suc.prems(2) Suc.IH [of w1] g row_grows_trans by (cases a) (auto simp: a)
qed simp

lemma rounds_replace:
  assumes "ok w" "transition_rounds n codec b key to_state w = (Inr moved, w')"
  shows "\<exists>row. row_grows (view w (STATE_KEY_PREFIX @ key)) (Some row)
           \<and> replaced_by_move codec to_state row moved (view w' (STATE_KEY_PREFIX @ key))"
  using assms
proof (induction n arbitrary: w)
  case (Suc n)
  obtain a w1 where a: "transition_attempt codec b key to_state w = (a, w1)" by fastforce
  note g = attempt_grows [OF Suc.prems(1) a]
  show ?case
  proof (cases a)
    case None
    then have "transition_rounds n codec b key to_state w1 = (Inr moved, w')" using Suc.prems(2) a by simp
    then show ?thesis using Suc.IH [of w1] g row_grows_trans by blast
  next
    case (Some x)
    then have "transition_attempt codec b key to_state w = (Some (Inr moved), w')" using Suc.prems(2) a by simp
    then show ?thesis by (rule attempt_replaces [OF Suc.prems(1)])
  qed
qed simp

end


section \<open>The local backend keeps the contract\<close>

definition table_typed :: "entry_codec \<Rightarrow> state_table \<Rightarrow> bool" where
  "table_typed codec t \<longleftrightarrow> (\<forall>k row. hm_get t (STATE_KEY_PREFIX @ k) = Some row \<longrightarrow> entry_row_ok codec row)"

text \<open>The other writers keep the entries typed and only replace a row by a newer version.\<close>

definition fair_turn :: "entry_codec \<Rightarrow> turn \<Rightarrow> bool" where
  "fair_turn codec u \<longleftrightarrow>
     (\<forall>t. table_typed codec t \<longrightarrow>
        table_typed codec (interference u t) \<and> (\<forall>k. row_grows (hm_get t k) (hm_get (interference u t) k)))"

definition world_ok :: "entry_codec \<Rightarrow> store_world \<Rightarrow> bool" where
  "world_ok codec w \<longleftrightarrow> codec_ok codec \<and> table_typed codec (state_rows w) \<and> list_all (fair_turn codec) (turns w)"

lemma with_conn_ok:
  assumes "world_ok codec w" "with_conn f w = (r, w')"
  obtains t where "table_typed codec t" "\<And>k. row_grows (hm_get (state_rows w) k) (hm_get t k)"
    "(r, state_rows w') = f t \<or> (state_rows w' = t \<and> (\<exists>e. r = Inl e))"
    "codec_ok codec" "list_all (fair_turn codec) (turns w')"
proof (cases "turns w")
  case Nil
  then show ?thesis
    using assms that [of "state_rows w"] by (auto simp: with_conn_def world_ok_def split: prod.splits)
next
  case (Cons u us)
  then show ?thesis
    using assms that [of "interference u (state_rows w)"]
    by (auto simp: with_conn_def world_ok_def fair_turn_def Let_def split: prod.splits option.splits)
qed

lemma table_typed_insert:
  "table_typed codec t \<Longrightarrow> (\<And>k'. k = STATE_KEY_PREFIX @ k' \<Longrightarrow> entry_row_ok codec row) \<Longrightarrow>
     table_typed codec (hm_insert k row t)"
  by (auto simp: table_typed_def store_laws)

lemma table_typed_remove: "table_typed codec t \<Longrightarrow> table_typed codec (hm_remove k t)"
  by (auto simp: table_typed_def store_laws split: if_splits)


lemma local_load_ok:
  assumes "world_ok codec w" "local_load k w = (r, w')"
  shows "world_ok codec w' \<and> row_grows (hm_get (state_rows w) k) (hm_get (state_rows w') k)
         \<and> (\<forall>found. r = Inr found \<longrightarrow> found = map_option sr_value (hm_get (state_rows w') k))"
proof -
  obtain r1 where l: "with_conn (\<lambda>t. (Inr (map_option (\<lambda>row. (sr_value row, sr_content_type row)) (hm_get t k)), t)) w
      = (r1, w')" and r: "r = (case r1 of Inl e \<Rightarrow> Inl e | Inr found \<Rightarrow> Inr (map_option fst found))"
    using assms(2) by (auto simp: local_load_def load_state_def split: prod.splits)
  from with_conn_ok [OF assms(1) l] show ?thesis
  proof cases
    case (1 t)
    then have "state_rows w' = t" by auto
    then show ?thesis
      using 1 r by (auto simp: world_ok_def option.map_comp comp_def)
  qed
qed

lemma compare_and_swap_row_Some:
  "compare_and_swap_row k (Some v) new ct =
     with_conn (\<lambda>t. case hm_get t k of
         None \<Rightarrow> (Inr False, t)
       | Some row \<Rightarrow>
           if sr_version row = v
           then (Inr True, hm_insert k (row\<lparr>sr_value := new, sr_content_type := ct,
                                            sr_version := sr_version row + 1\<rparr>) t)
           else (Inr False, t))"
  unfolding compare_and_swap_row_def
  by (rule arg_cong [where f = with_conn], rule ext) (simp split: option.split)

lemma local_swap_ok:
  assumes "world_ok codec w" "entry_from_slice codec data = Inr e"
    and "local_compare_and_swap codec k (Some data) new w = (s, w')"
  shows "successor_data codec (se_version e) new \<longrightarrow>
           world_ok codec w' \<and> row_grows (hm_get (state_rows w) k) (hm_get (state_rows w') k)"
    and "s = Inr True \<longrightarrow>
           (\<exists>row row'. row_grows (hm_get (state_rows w) k) (Some row) \<and> sr_version row = se_version e
              \<and> hm_get (state_rows w') k = Some row' \<and> sr_value row' = new \<and> sr_version row' = sr_version row + 1)"
proof -
  let ?f = "\<lambda>t. case hm_get t k of
         None \<Rightarrow> (Inr False, t)
       | Some row \<Rightarrow>
           if sr_version row = se_version e
           then (Inr True, hm_insert k (row\<lparr>sr_value := new, sr_content_type := ''application/json'',
                                            sr_version := sr_version row + 1\<rparr>) t)
           else (Inr False, t)"
  have c: "with_conn ?f w = (s, w')"
    using assms(2,3) by (simp only: local_compare_and_swap_def compare_and_swap_row_Some option.simps sum.simps)
  obtain t where t: "table_typed codec t" "\<And>k. row_grows (hm_get (state_rows w) k) (hm_get t k)"
      "(s, state_rows w') = ?f t \<or> (state_rows w' = t \<and> (\<exists>x. s = Inl x))"
      "codec_ok codec" "list_all (fair_turn codec) (turns w')"
    using with_conn_ok [OF assms(1) c] by blast
  consider (kept) "state_rows w' = t" "s \<noteq> Inr True"
    | (won) row where "hm_get t k = Some row" "sr_version row = se_version e" "s = Inr True"
        "state_rows w' = hm_insert k (row\<lparr>sr_value := new, sr_content_type := ''application/json'',
                                            sr_version := sr_version row + 1\<rparr>) t"
    using t(3) by (auto split: option.splits if_splits)
  note cases_of_swap = this
  show "successor_data codec (se_version e) new \<longrightarrow>
          world_ok codec w' \<and> row_grows (hm_get (state_rows w) k) (hm_get (state_rows w') k)"
    using cases_of_swap
  proof cases
    case kept
    then show ?thesis using t by (simp add: world_ok_def)
  next
    case won
    let ?row = "row\<lparr>sr_value := new, sr_content_type := ''application/json'', sr_version := sr_version row + 1\<rparr>"
    have "row_grows (Some row) (Some ?row)" by (simp add: row_grows_def)
    then have "row_grows (hm_get (state_rows w) k) (Some ?row)"
      by (rule row_grows_trans [OF t(2) [of k, unfolded won(1)]])
    then have g: "row_grows (hm_get (state_rows w) k) (hm_get (state_rows w') k)"
      unfolding won(4) by (simp add: store_laws)
    have "entry_row_ok codec ?row" if "successor_data codec (se_version e) new"
      using won(2) that by (auto simp: successor_data_def entry_row_ok_def split: sum.splits)
    then have "table_typed codec (state_rows w')" if "successor_data codec (se_version e) new"
      unfolding won(4) using that by (intro table_typed_insert [OF t(1)])
    then show ?thesis using g t(4,5) by (simp add: world_ok_def)
  qed
  show "s = Inr True \<longrightarrow>
          (\<exists>row row'. row_grows (hm_get (state_rows w) k) (Some row) \<and> sr_version row = se_version e
             \<and> hm_get (state_rows w') k = Some row' \<and> sr_value row' = new \<and> sr_version row' = sr_version row + 1)"
    using cases_of_swap
  proof cases
    case won
    have "row_grows (hm_get (state_rows w) k) (Some row)" using t(2) [of k] won(1) by simp
    moreover have "hm_get (state_rows w') k
        = Some (row\<lparr>sr_value := new, sr_content_type := ''application/json'', sr_version := sr_version row + 1\<rparr>)"
      unfolding won(4) by (simp add: store_laws)
    ultimately show ?thesis using won(2) by (intro impI exI conjI) auto
  qed simp
qed

interpretation local_store: versioned_backend "\<lambda>w k. hm_get (state_rows w) k" "world_ok codec" codec "local_backend codec"
  for codec
proof (unfold_locales, goal_cases)
  case (1 w) then show ?case by (simp add: world_ok_def)
next
  case (2 w k row) then show ?case by (auto simp: world_ok_def table_typed_def)
next
  case (3 w k r w') then show ?case using local_load_ok [of codec w k r w'] by (simp add: local_backend_def)
next
  case (4 w k found w') then show ?case using local_load_ok [of codec w k "Inr found" w'] by (simp add: local_backend_def)
next
  case (5 w data e new k s w') then show ?case using local_swap_ok(1) by (simp add: local_backend_def)
next
  case (6 w data e k new w') then show ?case using local_swap_ok(2) [of codec w data e k new "Inr True" w'] by (simp add: local_backend_def)
qed


section \<open>Well-typed rows\<close>

text \<open>No other writer: calls may still fail.\<close>

definition quiet :: "store_world \<Rightarrow> bool" where
  "quiet w \<longleftrightarrow> list_all (\<lambda>u. \<forall>t. interference u t = t) (turns w)"

text \<open>A codec and a table for the examples: an entry \<open>job\<close> that is created, and one that runs.\<close>

definition job_entry :: "string \<Rightarrow> nat \<Rightarrow> state_entry" where
  "job_entry state v = \<lparr>se_key = ''job'', se_current_state = state, se_version = v, se_metadata = JNull\<rparr>"

definition job_codec :: entry_codec where
  "job_codec =
     \<lparr>entry_to_vec = (\<lambda>e. if e = job_entry ''created'' 1 then Inr ''c1''
                          else if e = job_entry [] 1 then Inr ''v1''
                          else if e = job_entry ''running'' 2 then Inr ''r2'' else Inl ''unsupported''),
      entry_from_slice = (\<lambda>d. if d = ''c1'' then Inr (job_entry ''created'' 1)
                              else if d = ''v1'' then Inr (job_entry [] 1)
                              else if d = ''r2'' then Inr (job_entry ''running'' 2) else Inl ''expected value'')\<rparr>"

definition job_world :: store_world where
  "job_world =
     \<lparr>state_rows = [(''state:job'', \<lparr>sr_value = ''c1'', sr_content_type = ''application/octet-stream'',
                                     sr_version = 1, sr_payload = []\<rparr>)],
      turns = [\<lparr>interference = id, fault = None\<rparr>]\<rparr>"

lemma job_codec_ok: "codec_ok job_codec"
  by (simp add: codec_ok_def job_codec_def)

lemma job_world_ok: "world_ok job_codec job_world"
proof -
  have "fair_turn job_codec \<lparr>interference = id, fault = None\<rparr>" by (simp add: fair_turn_def)
  moreover have "table_typed job_codec (state_rows job_world)"
    by (simp add: table_typed_def job_world_def hm_get_def entry_row_ok_def job_codec_def job_entry_def
        transition_from_str_def)
  ultimately show ?thesis using job_codec_ok by (simp add: world_ok_def job_world_def)
qed

lemma job_world_quiet: "quiet job_world"
  by (simp add: quiet_def job_world_def)

text \<open>For the types alone the other writers may do more: they may also delete rows and start versions again.\<close>

definition world_typed :: "entry_codec \<Rightarrow> store_world \<Rightarrow> bool" where
  "world_typed codec w \<longleftrightarrow>
     codec_ok codec \<and> table_typed codec (state_rows w) \<and>
     list_all (\<lambda>u. \<forall>t. table_typed codec t \<longrightarrow> table_typed codec (interference u t)) (turns w)"

lemma job_world_typed: "world_typed job_codec job_world"
  using job_world_ok by (simp add: world_ok_def world_typed_def job_world_def)

lemma with_conn_typed:
  assumes "world_typed codec w" and "\<And>t. table_typed codec t \<Longrightarrow> table_typed codec (snd (f t))"
  shows "world_typed codec (snd (with_conn f w))"
proof (cases "turns w")
  case Nil
  then show ?thesis using assms by (simp add: with_conn_def world_typed_def split_beta)
next
  case (Cons u us)
  then show ?thesis using assms by (simp add: with_conn_def world_typed_def split_beta Let_def split: option.split)
qed

lemma load_typed: "world_typed codec w \<Longrightarrow> world_typed codec (snd (local_load k w))"
  unfolding local_load_def load_state_def split_beta Let_def by (simp add: with_conn_typed)

lemma load_typed_row:
  assumes "world_typed codec w" "local_load (STATE_KEY_PREFIX @ k) w = (Inr (Some data), w')"
    and "entry_from_slice codec data = Inr e"
  shows "transition_from_str (se_current_state e) \<noteq> None"
proof -
  have typed: "table_typed codec (state_rows w')" using load_typed [OF assms(1)] assms(2) by (metis snd_conv world_typed_def)
  have "map_option sr_value (hm_get (state_rows w') (STATE_KEY_PREFIX @ k)) = Some data"
    using assms(2) unfolding local_load_def load_state_def with_conn_def
    by (auto simp: Let_def option.map_comp comp_def split: list.splits option.splits sum.splits)
  then obtain row where "hm_get (state_rows w') (STATE_KEY_PREFIX @ k) = Some row" "sr_value row = data" by blast
  then have "entry_row_ok codec row" "sr_value row = data" using typed by (auto simp: table_typed_def)
  then show ?thesis using assms(3) by (simp add: entry_row_ok_def)
qed

lemma save_typed:
  assumes "world_typed codec w" "successor_data codec 0 data"
  shows "world_typed codec (snd (save_state k data ct w))"
  unfolding save_state_def
proof (rule with_conn_typed [OF assms(1)])
  fix t
  assume t: "table_typed codec t"
  have "entry_row_ok codec row" if "sr_value row = data" "1 \<le> sr_version row" for row
    using assms(2) that by (auto simp: successor_data_def entry_row_ok_def split: sum.splits)
  then show "table_typed codec (snd (Inr (), case hm_get t k of
        None \<Rightarrow> hm_insert k \<lparr>sr_value = data, sr_content_type = ct, sr_version = 1, sr_payload = []\<rparr> t
      | Some row \<Rightarrow> hm_insert k (row\<lparr>sr_value := data, sr_content_type := ct, sr_version := sr_version row + 1,
                                    sr_payload := []\<rparr>) t))"
    by (cases "hm_get t k") (simp_all add: table_typed_insert [OF t])
qed

lemma swap_typed:
  assumes "world_typed codec w" "entry_from_slice codec data = Inr e" "successor_data codec (se_version e) new"
  shows "world_typed codec (snd (local_compare_and_swap codec k (Some data) new w))"
proof -
  have row: "entry_row_ok codec row" if "sr_value row = new" "sr_version row = se_version e + 1" for row
    using assms(3) that by (auto simp: successor_data_def entry_row_ok_def split: sum.splits)
  show ?thesis
    unfolding local_compare_and_swap_def assms(2) option.simps sum.simps compare_and_swap_row_Some
    by (rule with_conn_typed [OF assms(1)]) (auto split: option.split intro!: table_typed_insert row)
qed

lemma swap_state_typed:
  assumes "world_typed codec w" "transition_from_str (se_current_state new_state) \<noteq> None" "se_version new_state \<le> v + 1"
  shows "world_typed codec (snd (compare_and_swap_state codec (local_backend codec) key v new_state w))"
proof -
  let ?old = "\<lparr>se_key = key, se_current_state = [], se_version = v, se_metadata = JNull\<rparr>"
  have codec: "codec_ok codec" using assms(1) by (simp add: world_typed_def)
  show ?thesis
  proof (cases "\<exists>old_data new_data. entry_to_vec codec ?old = Inr old_data \<and> entry_to_vec codec new_state = Inr new_data")
    case True
    then obtain old_data new_data where d: "entry_to_vec codec ?old = Inr old_data" "entry_to_vec codec new_state = Inr new_data"
      by blast
    then have "entry_from_slice codec old_data = Inr ?old" "successor_data codec v new_data"
      using codec assms(2,3) by (simp_all add: codec_ok_def successor_data_def)
    then show ?thesis
      using swap_typed [OF assms(1), of old_data ?old new_data] d by (simp add: compare_and_swap_state_def local_backend_def)
  next
    case False
    then show ?thesis
      using assms(1)
      by (cases "entry_to_vec codec ?old"; cases "entry_to_vec codec new_state") (auto simp: compare_and_swap_state_def)
  qed
qed

lemma attempt_typed:
  assumes "world_typed codec w"
  shows "world_typed codec (snd (transition_attempt codec (local_backend codec) key to_state w))"
proof -
  obtain l w1 where l: "be_load (local_backend codec) (STATE_KEY_PREFIX @ key) w = (l, w1)" by fastforce
  obtain r w' where a: "transition_attempt codec (local_backend codec) key to_state w = (r, w')" by fastforce
  have "local_load (STATE_KEY_PREFIX @ key) w = (l, w1)" using l by (simp add: local_backend_def)
  then have w1: "world_typed codec w1" using load_typed [OF assms, of "STATE_KEY_PREFIX @ key"] by simp
  from transition_attempt_shape [OF l a] show ?thesis
  proof (elim disjE exE conjE)
    fix e :: state_entry and current old_data new_data s
    let ?moved = "e\<lparr>se_current_state := transition_as_str to_state, se_version := se_version e + 1\<rparr>"
    assume old: "entry_to_vec codec \<lparr>se_key = key, se_current_state = [], se_version = se_version e, se_metadata = JNull\<rparr>
        = Inr old_data" and new: "entry_to_vec codec ?moved = Inr new_data"
      and swap: "be_compare_and_swap (local_backend codec) (STATE_KEY_PREFIX @ key) (Some old_data) new_data w1 = (s, w')"
    have "compare_and_swap_state codec (local_backend codec) key (se_version e) ?moved w1 = (s, w')"
      using old new swap by (simp add: compare_and_swap_state_def)
    then show ?thesis using swap_state_typed [OF w1, of ?moved "se_version e" key] a by simp
  qed (use w1 a in simp)
qed

lemma rounds_typed:
  "world_typed codec w \<Longrightarrow> world_typed codec (snd (transition_rounds n codec (local_backend codec) key to_state w))"
proof (induction n arbitrary: w)
  case (Suc n)
  obtain a w1 where a: "transition_attempt codec (local_backend codec) key to_state w = (a, w1)" by fastforce
  then have "world_typed codec w1" using attempt_typed [OF Suc.prems, of key to_state] by simp
  then show ?case using Suc.IH a by (cases a) simp_all
qed simp

lemma create_state_typed:
  assumes "world_typed codec w"
  shows "world_typed codec (snd (create_state codec (local_backend codec) key metadata w))"
proof -
  let ?e = "\<lparr>se_key = key, se_current_state = transition_as_str St_Created, se_version = 1, se_metadata = metadata\<rparr>"
  show ?thesis
  proof (cases "entry_to_vec codec ?e")
    case (Inl x)
    then show ?thesis using assms by (simp add: create_state_def)
  next
    case (Inr d)
    obtain s w1 where sv: "save_state (STATE_KEY_PREFIX @ key) d ''application/octet-stream'' w = (s, w1)"
      by (rule prod.exhaust)
    have "successor_data codec 0 d"
      using assms Inr transition_round_trip [of St_Created] by (simp add: successor_data_def world_typed_def codec_ok_def)
    then have "world_typed codec w1" using save_typed [OF assms] sv by (metis snd_conv)
    then show ?thesis using Inr sv by (cases s) (simp_all add: create_state_def local_backend_def)
  qed
qed

lemma get_state_typed:
  assumes "world_typed codec w" "get_state codec (local_backend codec) key w = (r, w')"
  shows "world_typed codec w' \<and> (\<forall>e. r = Inr (Some e) \<longrightarrow> transition_from_str (se_current_state e) \<noteq> None)"
proof -
  obtain l w1 where l: "local_load (STATE_KEY_PREFIX @ key) w = (l, w1)" by fastforce
  have "w' = w1" using assms(2) l by (auto simp: get_state_def local_backend_def split: sum.splits option.splits)
  then have "world_typed codec w'" using load_typed [OF assms(1)] l by (metis snd_conv)
  moreover have "transition_from_str (se_current_state e) \<noteq> None" if found: "r = Inr (Some e)" for e
  proof -
    obtain data where "l = Inr (Some data)" "entry_from_slice codec data = Inr e"
      using assms(2) l found by (auto simp: get_state_def local_backend_def split: sum.splits option.splits)
    then show ?thesis using load_typed_row [OF assms(1)] l by blast
  qed
  ultimately show ?thesis by blast
qed

lemma delete_entry_typed: "world_typed codec w \<Longrightarrow> world_typed codec (snd (delete_entry (local_backend codec) key w))"
  by (simp add: delete_entry_def local_backend_def delete_state_def with_conn_typed table_typed_remove)

text \<open>
  C23. The rows of the state machine stay well typed. As long as the other writers keep them so, whatever else they
  write or delete and whichever calls fail, after creating, moving, reading or deleting any entry every row under
  the prefix decodes to an entry in one of the eleven states whose version the version of the row covers; and an
  entry that is read is in such a state. The direct swap, which writes the caller's entry as it is, keeps this if
  that entry is in one of the states and at most one version past the expected one.
\<close>

theorem state_rows_stay_typed:
  assumes "world_typed codec w"
  shows "world_typed codec (snd (create_state codec (local_backend codec) key metadata w))
       \<and> world_typed codec (snd (transition codec (local_backend codec) key to_state w))
       \<and> world_typed codec (snd (delete_entry (local_backend codec) key w))
       \<and> world_typed codec (snd (get_state codec (local_backend codec) key w))
       \<and> (\<forall>e. fst (get_state codec (local_backend codec) key w) = Inr (Some e) \<longrightarrow>
             transition_from_str (se_current_state e) \<noteq> None)
       \<and> (transition_from_str (se_current_state new_state) \<noteq> None \<and> se_version new_state \<le> expected + 1 \<longrightarrow>
             world_typed codec (snd (compare_and_swap_state codec (local_backend codec) key expected new_state w)))"
proof -
  obtain r w' where g: "get_state codec (local_backend codec) key w = (r, w')" by fastforce
  show ?thesis
    using create_state_typed [OF assms, of key metadata] rounds_typed [OF assms, of "3 + 1" key to_state]
      delete_entry_typed [OF assms, of key] get_state_typed [OF assms g] swap_state_typed [OF assms, of new_state expected key]
    unfolding transition_def g fst_conv snd_conv by blast
qed

theorem state_rows_stay_typed_witness:
  "world_typed job_codec job_world
   \<and> world_typed job_codec (snd (transition job_codec (local_backend job_codec) ''job'' St_Running job_world))
   \<and> world_typed job_codec
       (snd (compare_and_swap_state job_codec (local_backend job_codec) ''job'' 1 (job_entry ''running'' 2) job_world))"
proof -
  have "transition_from_str (se_current_state (job_entry ''running'' 2)) \<noteq> None \<and> se_version (job_entry ''running'' 2) \<le> 1 + 1"
    by (simp add: job_entry_def transition_from_str_def)
  then show ?thesis
    using job_world_typed
      state_rows_stay_typed [OF job_world_typed, of "''job''" JNull St_Running "job_entry ''running'' 2" 1] by blast
qed

section \<open>Concurrent transitions\<close>

text \<open>
  C12. Moves of the same entry by several tasks or processes are serialised. Between the load and the swap of each
  round the others may write anything that keeps the entries typed, as long as each write of theirs to a row
  raises its version; deleting the row and creating it again, which starts its versions from 1, is excluded. Then
  a transition that answers success replaced a row whose entry was in a state that \<open>ALLOWED_TRANSITIONS\<close> lets move
  to the new one, and the new row is that row's next version: no write of another task is lost, and no move is
  made from a state that was no longer current.
\<close>

theorem transition_replaces_the_row_it_read:
  assumes "world_ok codec w"
    and "transition codec (local_backend codec) key to_state w = (Inr moved, w')"
  shows "\<exists>row. row_grows (hm_get (state_rows w) (STATE_KEY_PREFIX @ key)) (Some row)
           \<and> replaced_by_move codec to_state row moved (hm_get (state_rows w') (STATE_KEY_PREFIX @ key))"
  using local_store.rounds_replace [OF assms(1)] assms(2) unfolding transition_def by blast

lemma job_runs:
  "fst (transition job_codec (local_backend job_codec) ''job'' St_Running job_world) = Inr (job_entry ''running'' 2)"
  by code_simp

theorem transition_replaces_the_row_it_read_witness:
  "\<exists>row. row_grows (hm_get (state_rows job_world) (STATE_KEY_PREFIX @ ''job'')) (Some row)
     \<and> replaced_by_move job_codec St_Running row (job_entry ''running'' 2)
         (hm_get (state_rows (snd (transition job_codec (local_backend job_codec) ''job'' St_Running job_world)))
            (STATE_KEY_PREFIX @ ''job''))"
  by (rule transition_replaces_the_row_it_read [OF job_world_ok]) (metis job_runs prod.collapse)

section \<open>An entry created twice\<close>

lemma with_conn_quiet:
  assumes "quiet w" "with_conn f w = (r, w')"
  shows "quiet w' \<and> ((r, state_rows w') = f (state_rows w) \<or> (state_rows w' = state_rows w \<and> (\<exists>e. r = Inl e)))"
  using assms by (cases "turns w") (auto simp: with_conn_def quiet_def Let_def split: prod.splits option.splits)

lemma load_quiet:
  assumes "quiet w" "be_load (local_backend codec) k w = (r, w')"
  shows "quiet w' \<and> state_rows w' = state_rows w
         \<and> (\<forall>found. r = Inr found \<longrightarrow> found = map_option sr_value (hm_get (state_rows w) k))"
proof -
  obtain r1 where l: "with_conn (\<lambda>t. (Inr (map_option (\<lambda>row. (sr_value row, sr_content_type row)) (hm_get t k)), t)) w
      = (r1, w')" and r: "r = (case r1 of Inl e \<Rightarrow> Inl e | Inr found \<Rightarrow> Inr (map_option fst found))"
    using assms(2) by (auto simp: local_backend_def local_load_def load_state_def split: prod.splits)
  show ?thesis
    using with_conn_quiet [OF assms(1) l] r by (auto simp: option.map_comp comp_def)
qed

lemma swap_quiet_lost:
  assumes "quiet w" "be_compare_and_swap (local_backend codec) k (Some data) new w = (s, w')"
    and "entry_from_slice codec data = Inr e" "hm_get (state_rows w) k = Some row" "sr_version row \<noteq> se_version e"
  shows "quiet w' \<and> state_rows w' = state_rows w \<and> s \<noteq> Inr True"
  using with_conn_quiet [OF assms(1)] assms(2-5)
  by (fastforce simp: local_backend_def local_compare_and_swap_def compare_and_swap_row_Some)

text \<open>An entry behind its row: no round succeeds or changes anything.\<close>

lemma lagging_entry_attempt:
  assumes "quiet w" "codec_ok codec" "hm_get (state_rows w) (STATE_KEY_PREFIX @ key) = Some row"
    and "entry_from_slice codec (sr_value row) = Inr e" "se_version e \<noteq> sr_version row"
    and "transition_attempt codec (local_backend codec) key to_state w = (r, w')"
  shows "quiet w' \<and> state_rows w' = state_rows w \<and> (\<forall>m. r \<noteq> Some (Inr m))"
proof -
  let ?k = "STATE_KEY_PREFIX @ key" and ?b = "local_backend codec"
  obtain l w1 where l: "be_load ?b ?k w = (l, w1)" by fastforce
  note q = load_quiet [OF assms(1) l]
  from transition_attempt_shape [OF l assms(6)] show ?thesis
  proof (elim disjE exE conjE)
    fix data e' current old_data new_data s
    assume d: "l = Inr (Some data)" "entry_from_slice codec data = Inr e'"
      and old: "entry_to_vec codec \<lparr>se_key = key, se_current_state = [], se_version = se_version e', se_metadata = JNull\<rparr>
                  = Inr old_data"
      and swap: "be_compare_and_swap ?b ?k (Some old_data) new_data w1 = (s, w')"
      and r: "r = swap_outcome (e'\<lparr>se_current_state := transition_as_str to_state, se_version := se_version e' + 1\<rparr>) s"
    have "e' = e" using q d assms(3,4) by auto
    then have "quiet w' \<and> state_rows w' = state_rows w1 \<and> s \<noteq> Inr True"
      using swap_quiet_lost [OF _ swap, of _ row] q assms(2,3,5) old by (auto simp: codec_ok_def)
    then show ?thesis using q r swap_outcome_won by metis
  qed (use q in auto)
qed

lemma lagging_entry_rounds:
  assumes "quiet w" "codec_ok codec" "hm_get (state_rows w) (STATE_KEY_PREFIX @ key) = Some row"
    and "entry_from_slice codec (sr_value row) = Inr e" "se_version e \<noteq> sr_version row"
    and "transition_rounds n codec (local_backend codec) key to_state w = (r, w')"
  shows "quiet w' \<and> state_rows w' = state_rows w \<and> (\<exists>err. r = Inl err)"
  using assms(1,3,6)
proof (induction n arbitrary: w)
  case (Suc n)
  obtain a w1 where a: "transition_attempt codec (local_backend codec) key to_state w = (a, w1)" by fastforce
  note q = lagging_entry_attempt [OF Suc.prems(1) assms(2) Suc.prems(2) assms(4,5) a]
  show ?case
  proof (cases a)
    case None
    then show ?thesis using Suc.IH [of w1] Suc.prems q a by simp
  next
    case (Some x)
    then show ?thesis using Suc.prems(3) q a by (cases x) auto
  qed
qed auto

text \<open>
  C28. Creating an entry over an existing one breaks it for good. The row's version goes on from the old row's, the
  entry inside starts again at 1, and every swap compares the two: with no other writer at work, no transition of
  that entry succeeds afterwards, to any state, and none changes the table.
\<close>

theorem recreated_entry_is_stuck:
  assumes "codec_ok codec" "quiet w"
    and "hm_get (state_rows w) (STATE_KEY_PREFIX @ key) = Some row" "1 \<le> sr_version row"
    and "create_state codec (local_backend codec) key metadata w = (Inr e, w1)"
    and "transition codec (local_backend codec) key to_state w1 = (r, w2)"
  shows "(\<exists>err. r = Inl err) \<and> state_rows w2 = state_rows w1 \<and> quiet w2"
proof -
  let ?k = "STATE_KEY_PREFIX @ key"
  obtain d where d: "entry_to_vec codec e = Inr d" "se_version e = 1"
    and save: "save_state ?k d ''application/octet-stream'' w = (Inr (), w1)"
    using assms(5) by (auto simp: create_state_def local_backend_def Let_def split: sum.splits prod.splits)
  obtain row1 where q: "quiet w1" and row1: "hm_get (state_rows w1) ?k = Some row1" "sr_value row1 = d"
      "sr_version row1 = sr_version row + 1"
    using with_conn_quiet [OF assms(2) save [unfolded save_state_def]] assms(3) by (auto simp: store_laws)
  have "entry_from_slice codec (sr_value row1) = Inr e" using assms(1) d row1 by (simp add: codec_ok_def)
  then show ?thesis
    using lagging_entry_rounds [OF q assms(1) row1(1)] d(2) row1(3) assms(4,6) unfolding transition_def by auto
qed


lemma job_created_again:
  "fst (create_state job_codec (local_backend job_codec) ''job'' JNull job_world) = Inr (job_entry ''created'' 1)"
  by code_simp

theorem recreated_entry_is_stuck_witness:
  "\<exists>err. fst (transition job_codec (local_backend job_codec) ''job'' St_Running
                (snd (create_state job_codec (local_backend job_codec) ''job'' JNull job_world))) = Inl err"
proof -
  obtain w1 where c: "create_state job_codec (local_backend job_codec) ''job'' JNull job_world
      = (Inr (job_entry ''created'' 1), w1)"
    using job_created_again by (metis prod.collapse)
  obtain r w2 where t: "transition job_codec (local_backend job_codec) ''job'' St_Running w1 = (r, w2)"
    by (rule prod.exhaust)
  have "hm_get (state_rows job_world) (STATE_KEY_PREFIX @ ''job'') =
      Some \<lparr>sr_value = ''c1'', sr_content_type = ''application/octet-stream'', sr_version = 1, sr_payload = []\<rparr>"
    by (simp add: job_world_def hm_get_def STATE_KEY_PREFIX_def)
  from recreated_entry_is_stuck [OF job_codec_ok job_world_quiet this _ c t] show ?thesis by (simp add: c t)
qed

end
