(* ===== verification/Two_Phase_Commit.thy ===== *)
theory Two_Phase_Commit
  imports State_Store
begin

text \<open>
  The two-phase commit coordinator of \<^verbatim>\<open>src/crates/dbx-core/src/query/two_phase_commit.rs\<close>, over a state
  backend and the state machine of the theory \<open>State_Store\<close>.

  The participants are trait objects whose answers the coordinator cannot foresee: an argument gives the answer to
  a call from everything that happened before. A participant is named by its place in memory, so that two with the
  same id stay apart. The world keeps the history: each call of a participant with its answer, and each status the
  coordinator wrote to the transaction log. The history is only observed, no operation reads it. The backend is
  arbitrary except where a theorem names the local one; the clock is an argument.

  \<^item> \<open>commit_only_after_a_unanimous_vote\<close>: no commit is sent before every participant has voted yes and the decision
    is in the log, none after a rollback, none to a participant that acknowledged, and at most three to each.
  \<^item> \<open>logged_outcome_is_what_happened\<close>: what \<open>execute\<close> writes as the final status is what the participants answered.
  \<^item> \<open>recovery_follows_the_log\<close>: what \<open>recover\<close> calls and writes for a log it has read, in every case, errors of the
    participants and of the store included.
  \<^item> \<open>recovery_reaches_a_final_status\<close>: with a working store and willing participants \<open>recover\<close> ends every
    interrupted transaction, and running it again calls nobody.
  \<^item> \<open>recovery_forgets_a_commit\<close> and \<open>state_entry_stays_created\<close>: two places where the records say less than what
    happened.
\<close>

section \<open>Data\<close>

datatype tpc_status =
  Tx_Preparing | Tx_Prepared | Tx_Committing | Tx_Committed | Tx_RollingBack | Tx_RolledBack | Tx_Mixed | Tx_Unknown

primrec status_as_str :: "tpc_status \<Rightarrow> string" where
  "status_as_str Tx_Preparing = ''preparing''"
| "status_as_str Tx_Prepared = ''prepared''"
| "status_as_str Tx_Committing = ''committing''"
| "status_as_str Tx_Committed = ''committed''"
| "status_as_str Tx_RollingBack = ''rolling_back''"
| "status_as_str Tx_RolledBack = ''rolled_back''"
| "status_as_str Tx_Mixed = ''mixed''"
| "status_as_str Tx_Unknown = ''unknown''"

definition status_from_str :: "string \<Rightarrow> tpc_status" where
  "status_from_str s =
     (if s = ''preparing'' then Tx_Preparing
      else if s = ''prepared'' then Tx_Prepared
      else if s = ''committing'' then Tx_Committing
      else if s = ''committed'' then Tx_Committed
      else if s = ''rolling_back'' then Tx_RollingBack
      else if s = ''rolled_back'' then Tx_RolledBack
      else if s = ''mixed'' then Tx_Mixed
      else Tx_Unknown)"

record vote_result =
  vr_participant_id :: string
  vr_vote :: bool
  vr_reason :: "string option"

record participant_commit_result =
  cr_participant_id :: string
  cr_committed :: bool
  cr_error :: "string option"

record participant_info =
  pi_id :: string
  pi_name :: string
  pi_role :: string

record transaction_log =
  tl_transaction_id :: string
  tl_status :: string
  tl_participants :: "participant_info list"
  tl_created_at :: string
  tl_updated_at :: string
  tl_metadata :: json

record participant =
  pt_handle :: nat
  pt_id :: string
  pt_name :: string
  pt_role :: string

datatype participant_call = Call_prepare | Call_commit | Call_rollback

datatype tx_event =
    Called participant_call nat "unit rust_result"
  | Logged string

record log_codec =
  log_to_vec :: "transaction_log \<Rightarrow> string rust_result"
  log_from_slice :: "string \<Rightarrow> transaction_log rust_result"

record 'w two_phase_commit =
  tpc_backend :: "'w state_backend"
  tpc_entry_codec :: entry_codec
  tpc_log_codec :: log_codec
  tpc_answer :: "tx_event list \<Rightarrow> participant_call \<Rightarrow> nat \<Rightarrow> unit rust_result"
  tpc_now :: "nat \<Rightarrow> string"

record 'w tx_world =
  tx_store :: 'w
  tx_history :: "tx_event list"
  tx_ticks :: nat

definition on_store :: "('w \<Rightarrow> 'a \<times> 'w) \<Rightarrow> 'w tx_world \<Rightarrow> 'a \<times> 'w tx_world" where
  "on_store f w = (let (r, s) = f (tx_store w) in (r, w\<lparr>tx_store := s\<rparr>))"

definition utc_now :: "'w two_phase_commit \<Rightarrow> 'w tx_world \<Rightarrow> string \<times> 'w tx_world" where
  "utc_now c w = (tpc_now c (tx_ticks w), w\<lparr>tx_ticks := tx_ticks w + 1\<rparr>)"

definition call_participant ::
  "'w two_phase_commit \<Rightarrow> participant_call \<Rightarrow> participant \<Rightarrow> 'w tx_world \<Rightarrow> unit rust_result \<times> 'w tx_world" where
  "call_participant c call p w =
     (let r = tpc_answer c (tx_history w) call (pt_handle p) in
      (r, w\<lparr>tx_history := tx_history w @ [Called call (pt_handle p) r]\<rparr>))"

section \<open>The transaction log\<close>

definition new_log ::
  "'w two_phase_commit \<Rightarrow> string \<Rightarrow> participant_info list \<Rightarrow> json \<Rightarrow> 'w tx_world \<Rightarrow> transaction_log \<times> 'w tx_world" where
  "new_log c transaction_id infos metadata w =
     (let (created, w1) = utc_now c w; (updated, w2) = utc_now c w1 in
      (\<lparr>tl_transaction_id = transaction_id, tl_status = status_as_str Tx_Preparing, tl_participants = infos,
        tl_created_at = created, tl_updated_at = updated, tl_metadata = metadata\<rparr>, w2))"

definition log_key :: "string \<Rightarrow> string" where
  "log_key transaction_id = ''2pc:tx:'' @ transaction_id"

definition save_log :: "'w two_phase_commit \<Rightarrow> transaction_log \<Rightarrow> 'w tx_world \<Rightarrow> unit rust_result \<times> 'w tx_world" where
  "save_log c log w =
     (case log_to_vec (tpc_log_codec c) log of
        Inl e \<Rightarrow> (Inl e, w)
      | Inr data \<Rightarrow>
          (case on_store (be_save (tpc_backend c) (log_key (tl_transaction_id log)) data) w of
             (Inl e, w') \<Rightarrow> (Inl e, w')
           | (Inr _, w') \<Rightarrow> (Inr (), w'\<lparr>tx_history := tx_history w' @ [Logged (tl_status log)]\<rparr>)))"

definition load_log ::
  "'w two_phase_commit \<Rightarrow> string \<Rightarrow> 'w tx_world \<Rightarrow> transaction_log option rust_result \<times> 'w tx_world" where
  "load_log c transaction_id w =
     (case on_store (be_load (tpc_backend c) (log_key transaction_id)) w of
        (Inl e, w') \<Rightarrow> (Inl e, w')
      | (Inr None, w') \<Rightarrow> (Inr None, w')
      | (Inr (Some data), w') \<Rightarrow>
          (case log_from_slice (tpc_log_codec c) data of
             Inl e \<Rightarrow> (Inl e, w')
           | Inr log \<Rightarrow> (Inr (Some log), w')))"

definition update_status ::
  "'w two_phase_commit \<Rightarrow> string \<Rightarrow> tpc_status \<Rightarrow> 'w tx_world \<Rightarrow> transaction_log rust_result \<times> 'w tx_world" where
  "update_status c transaction_id status w =
     (case load_log c transaction_id w of
        (Inl e, w1) \<Rightarrow> (Inl e, w1)
      | (Inr None, w1) \<Rightarrow> (Inl (''Transaction not found: '' @ transaction_id), w1)
      | (Inr (Some found), w1) \<Rightarrow>
          (let (now, w2) = utc_now c w1;
               log = found\<lparr>tl_status := status_as_str status, tl_updated_at := now\<rparr> in
           case save_log c log w2 of
             (Inl e, w3) \<Rightarrow> (Inl e, w3)
           | (Inr _, w3) \<Rightarrow> (Inr log, w3)))"

section \<open>The phases\<close>

text \<open>The loop over the participants; the flag tells that it ran to the end.\<close>

primrec prepare_loop ::
  "'w two_phase_commit \<Rightarrow> participant list \<Rightarrow> vote_result list \<Rightarrow> 'w tx_world \<Rightarrow> vote_result list \<times> bool \<times> 'w tx_world" where
  "prepare_loop c [] results w = (results, True, w)"
| "prepare_loop c (p # ps) results w =
     (case call_participant c Call_prepare p w of
        (Inr _, w') \<Rightarrow>
          prepare_loop c ps (results @ [\<lparr>vr_participant_id = pt_id p, vr_vote = True, vr_reason = None\<rparr>]) w'
      | (Inl e, w') \<Rightarrow>
          (results @ [\<lparr>vr_participant_id = pt_id p, vr_vote = False, vr_reason = Some e\<rparr>], False, w'))"

definition prepare_phase ::
  "'w two_phase_commit \<Rightarrow> string \<Rightarrow> participant list \<Rightarrow> 'w tx_world \<Rightarrow> vote_result list rust_result \<times> 'w tx_world" where
  "prepare_phase c transaction_id participants w =
     (case update_status c transaction_id Tx_Preparing w of
        (Inl e, w1) \<Rightarrow> (Inl e, w1)
      | (Inr _, w1) \<Rightarrow>
          (let (results, complete, w2) = prepare_loop c participants [] w1 in
           if \<not> complete then (Inr results, w2)
           else
             (case update_status c transaction_id Tx_Prepared w2 of
                (Inl e, w3) \<Rightarrow> (Inl e, w3)
              | (Inr _, w3) \<Rightarrow> (Inr results, w3))))"

text \<open>One attempt over the pending participants; \<open>retry\<close> is \<^verbatim>\<open>attempt < max_retries\<close>.\<close>

primrec commit_round ::
  "'w two_phase_commit \<Rightarrow> bool \<Rightarrow> participant list \<Rightarrow> participant_commit_result list \<Rightarrow> participant list \<Rightarrow> 'w tx_world
     \<Rightarrow> participant_commit_result list \<times> participant list \<times> 'w tx_world" where
  "commit_round c retry [] results next_pending w = (results, next_pending, w)"
| "commit_round c retry (p # ps) results next_pending w =
     (case call_participant c Call_commit p w of
        (Inr _, w') \<Rightarrow>
          commit_round c retry ps
            (results @ [\<lparr>cr_participant_id = pt_id p, cr_committed = True, cr_error = None\<rparr>]) next_pending w'
      | (Inl e, w') \<Rightarrow>
          if retry then commit_round c retry ps results (next_pending @ [p]) w'
          else commit_round c retry ps
                 (results @ [\<lparr>cr_participant_id = pt_id p, cr_committed = False, cr_error = Some e\<rparr>]) next_pending w')"

text \<open>The loop \<^verbatim>\<open>for attempt in 0..=max_retries\<close>: the argument counts the attempts that are left.\<close>

primrec commit_rounds ::
  "nat \<Rightarrow> 'w two_phase_commit \<Rightarrow> participant list \<Rightarrow> participant_commit_result list \<Rightarrow> 'w tx_world
     \<Rightarrow> participant_commit_result list \<times> 'w tx_world" where
  "commit_rounds 0 c pending results w = (results, w)"
| "commit_rounds (Suc n) c pending results w =
     (let (results', pending', w') = commit_round c (0 < n) pending results [] w in
      if pending' = [] then (results', w') else commit_rounds n c pending' results' w')"

definition commit_phase ::
  "'w two_phase_commit \<Rightarrow> participant list \<Rightarrow> nat \<Rightarrow> 'w tx_world \<Rightarrow> participant_commit_result list \<times> 'w tx_world" where
  "commit_phase c participants max_retries w = commit_rounds (max_retries + 1) c participants [] w"

primrec rollback_loop ::
  "'w two_phase_commit \<Rightarrow> participant list \<Rightarrow> string list \<Rightarrow> 'w tx_world \<Rightarrow> string list \<times> 'w tx_world" where
  "rollback_loop c [] errors w = (errors, w)"
| "rollback_loop c (p # ps) errors w =
     (case call_participant c Call_rollback p w of
        (Inl e, w') \<Rightarrow> rollback_loop c ps (errors @ [pt_id p @ '': '' @ e]) w'
      | (Inr _, w') \<Rightarrow> rollback_loop c ps errors w')"

definition rollback_phase :: "'w two_phase_commit \<Rightarrow> participant list \<Rightarrow> 'w tx_world \<Rightarrow> unit rust_result \<times> 'w tx_world" where
  "rollback_phase c participants w =
     (let (errors, w') = rollback_loop c participants [] w in
      (if errors = [] then Inr () else Inl (join ''; '' errors), w'))"

section \<open>Execution\<close>

definition all_committed :: "participant list \<Rightarrow> participant_commit_result list \<Rightarrow> bool" where
  "all_committed participants results \<longleftrightarrow>
     participants = [] \<or> (results \<noteq> [] \<and> list_all cr_committed results)"

definition commit_failures :: "participant_commit_result list \<Rightarrow> string list" where
  "commit_failures results =
     map (\<lambda>r. cr_participant_id r @ '': '' @ (case cr_error r of None \<Rightarrow> ''unknown'' | Some e \<Rightarrow> e))
       (filter (\<lambda>r. \<not> cr_committed r) results)"

definition vote_rejections :: "vote_result list \<Rightarrow> string list" where
  "vote_rejections votes =
     map (\<lambda>v. vr_participant_id v @ '': '' @ (case vr_reason v of None \<Rightarrow> ''no reason'' | Some e \<Rightarrow> e))
       (filter (\<lambda>v. \<not> vr_vote v) votes)"

definition machine_key :: "string \<Rightarrow> string" where
  "machine_key transaction_id = ''2pc_'' @ transaction_id"

definition move_machine :: "'w two_phase_commit \<Rightarrow> string \<Rightarrow> state_transition \<Rightarrow> 'w tx_world \<Rightarrow> 'w tx_world" where
  "move_machine c transaction_id to_state w =
     snd (on_store (transition (tpc_entry_codec c) (tpc_backend c) (machine_key transaction_id) to_state) w)"

text \<open>The branch of \<^verbatim>\<open>execute\<close> where all have agreed.\<close>

definition execute_commit ::
  "'w two_phase_commit \<Rightarrow> string \<Rightarrow> participant list \<Rightarrow> 'w tx_world \<Rightarrow> transaction_log rust_result \<times> 'w tx_world" where
  "execute_commit c transaction_id participants w =
     (case update_status c transaction_id Tx_Committing w of
        (Inl e, w1) \<Rightarrow> (Inl e, w1)
      | (Inr _, w1) \<Rightarrow>
          (let (results, w2) = commit_phase c participants 2 w1 in
           if all_committed participants results then
             (case update_status c transaction_id Tx_Committed w2 of
                (Inl e, w3) \<Rightarrow> (Inl e, w3)
              | (Inr log, w3) \<Rightarrow> (Inr log, move_machine c transaction_id St_Completed w3))
           else
             (case update_status c transaction_id Tx_RollingBack w2 of
                (Inl e, w3) \<Rightarrow> (Inl e, w3)
              | (Inr _, w3) \<Rightarrow>
                  (let w4 = snd (rollback_phase c participants w3);
                       final_status = (if list_ex cr_committed results then Tx_Mixed else Tx_RolledBack) in
                   case update_status c transaction_id final_status w4 of
                     (Inl e, w5) \<Rightarrow> (Inl e, w5)
                   | (Inr log, w5) \<Rightarrow>
                       (Inl (''Commit phase failed: '' @ join ''; '' (commit_failures results) @ ''. Status: ''
                              @ tl_status log),
                        move_machine c transaction_id St_Failed w5)))))"

text \<open>The branch where one has refused.\<close>

definition execute_abort ::
  "'w two_phase_commit \<Rightarrow> string \<Rightarrow> participant list \<Rightarrow> vote_result list \<Rightarrow> 'w tx_world
     \<Rightarrow> transaction_log rust_result \<times> 'w tx_world" where
  "execute_abort c transaction_id participants votes w =
     (case update_status c transaction_id Tx_RollingBack w of
        (Inl e, w1) \<Rightarrow> (Inl e, w1)
      | (Inr _, w1) \<Rightarrow>
          (let w2 = snd (rollback_phase c participants w1) in
           case update_status c transaction_id Tx_RolledBack w2 of
             (Inl e, w3) \<Rightarrow> (Inl e, w3)
           | (Inr log, w3) \<Rightarrow>
               (Inl (''Prepare phase failed: participants did not agree. Rejections: ['' @ join '', '' (vote_rejections votes)
                      @ '']. Status: '' @ tl_status log),
                move_machine c transaction_id St_Failed w3)))"

definition execute ::
  "'w two_phase_commit \<Rightarrow> string \<Rightarrow> participant list \<Rightarrow> json \<Rightarrow> 'w tx_world \<Rightarrow> transaction_log rust_result \<times> 'w tx_world" where
  "execute c transaction_id participants metadata w =
     (let infos = map (\<lambda>p. \<lparr>pi_id = pt_id p, pi_name = pt_name p, pi_role = pt_role p\<rparr>) participants;
          (log, w1) = new_log c transaction_id infos metadata w in
      case save_log c log w1 of
        (Inl e, w2) \<Rightarrow> (Inl e, w2)
      | (Inr _, w2) \<Rightarrow>
          (case on_store (create_state (tpc_entry_codec c) (tpc_backend c) (machine_key transaction_id)
                            (JObject [(''phase'', JString ''begin'')])) w2 of
             (Inl e, w3) \<Rightarrow> (Inl e, w3)
           | (Inr _, w3) \<Rightarrow>
               (case prepare_phase c transaction_id participants w3 of
                  (Inl e, w4) \<Rightarrow> (Inl e, w4)
                | (Inr votes, w4) \<Rightarrow>
                    if list_all vr_vote votes then execute_commit c transaction_id participants w4
                    else execute_abort c transaction_id participants votes w4)))"

definition recover ::
  "'w two_phase_commit \<Rightarrow> string \<Rightarrow> participant list \<Rightarrow> 'w tx_world \<Rightarrow> transaction_log rust_result \<times> 'w tx_world" where
  "recover c transaction_id participants w =
     (case load_log c transaction_id w of
        (Inl e, w1) \<Rightarrow> (Inl e, w1)
      | (Inr None, w1) \<Rightarrow> (Inl (''No transaction log found for: '' @ transaction_id), w1)
      | (Inr (Some log), w1) \<Rightarrow>
          (let roll_back = (\<lambda>w. case rollback_phase c participants w of
                                 (Inl e, w') \<Rightarrow> (Inl e, w')
                               | (Inr _, w') \<Rightarrow> update_status c transaction_id Tx_RolledBack w') in
           case status_from_str (tl_status log) of
             Tx_Preparing \<Rightarrow> roll_back w1
           | Tx_Prepared \<Rightarrow> roll_back w1
           | Tx_Committing \<Rightarrow>
               (let (results, w2) = commit_phase c participants 2 w1 in
                if all_committed participants results then update_status c transaction_id Tx_Committed w2
                else
                  (case rollback_phase c participants w2 of
                     (Inl e, w3) \<Rightarrow> (Inl e, w3)
                   | (Inr _, w3) \<Rightarrow>
                       (let final_status = (if list_ex cr_committed results then Tx_Mixed else Tx_RolledBack) in
                        case update_status c transaction_id final_status w3 of
                          (Inl e, w4) \<Rightarrow> (Inl e, w4)
                        | (Inr _, w4) \<Rightarrow>
                            (Inl (''Recovery failed during commit: '' @ join ''; '' (commit_failures results)), w4))))
           | Tx_RollingBack \<Rightarrow> roll_back w1
           | Tx_Committed \<Rightarrow> (Inr log, w1)
           | Tx_RolledBack \<Rightarrow> (Inr log, w1)
           | Tx_Mixed \<Rightarrow> (Inr log, w1)
           | Tx_Unknown \<Rightarrow> (Inl (''Unknown transaction status for '' @ transaction_id @ '': cannot recover''), w1)))"


section \<open>What the history tells\<close>

fun commits_of :: "nat \<Rightarrow> tx_event list \<Rightarrow> unit rust_result list" where
  "commits_of h [] = []"
| "commits_of h (Called Call_commit h' r # es) = (if h' = h then r # commits_of h es else commits_of h es)"
| "commits_of h (_ # es) = commits_of h es"

definition acknowledged :: "tx_event list \<Rightarrow> participant \<Rightarrow> bool" where
  "acknowledged es p \<longleftrightarrow> Inr () \<in> set (commits_of (pt_handle p) es)"

definition emits :: "tx_event list \<Rightarrow> 'w tx_world \<Rightarrow> 'w tx_world \<Rightarrow> bool" where
  "emits es w w' \<longleftrightarrow> tx_history w' = tx_history w @ es"

primrec event_call :: "tx_event \<Rightarrow> participant_call option" where
  "event_call (Called call h r) = Some call"
| "event_call (Logged s) = None"

abbreviation only :: "participant_call option \<Rightarrow> tx_event list \<Rightarrow> bool" where
  "only k es \<equiv> (\<forall>e \<in> set es. event_call e = k)"

lemma commits_of_append [simp]: "commits_of h (a @ b) = commits_of h a @ commits_of h b"
  by (induction h a rule: commits_of.induct) auto

lemma commits_of_other [simp]: "\<forall>e \<in> set es. event_call e \<noteq> Some Call_commit \<Longrightarrow> commits_of h es = []"
  by (induction h es rule: commits_of.induct) auto

lemma only_no_commits: "only k es \<Longrightarrow> k \<noteq> Some Call_commit \<Longrightarrow> commits_of h es = []"
  by (rule commits_of_other) auto

lemma emits_trans: "emits a w w1 \<Longrightarrow> emits b w1 w2 \<Longrightarrow> emits (a @ b) w w2"
  by (simp add: emits_def)

lemma emits_refl [simp]: "emits [] w w"
  by (simp add: emits_def)

lemma split_inside:
  assumes "xs @ ys @ zs = pre @ x # post" "x \<notin> set xs" "x \<notin> set zs"
  shows "\<exists>p. pre = xs @ p \<and> set p \<subseteq> set ys"
  using assms(1,2)
proof (induction xs arbitrary: pre)
  case Nil
  then have "ys @ zs = pre @ x # post" by simp
  then show ?case using assms(3) by (auto simp: append_eq_append_conv2 append_eq_Cons_conv Cons_eq_append_conv)
next
  case (Cons a xs)
  then obtain pre' where "pre = a # pre'" by (cases pre) auto
  then show ?case using Cons by auto
qed

subsection \<open>Log operations\<close>

definition logged :: "tpc_status \<Rightarrow> 'a rust_result \<Rightarrow> tx_event list" where
  "logged status r = (case r of Inl _ \<Rightarrow> [] | Inr _ \<Rightarrow> [Logged (status_as_str status)])"

lemma logged_simps [simp]: "logged st (Inl e) = []" "logged st (Inr x) = [Logged (status_as_str st)]"
  by (simp_all add: logged_def)

lemma on_store_emits: "on_store f w = (r, w') \<Longrightarrow> emits [] w w'"
  by (auto simp: on_store_def emits_def split: prod.splits)

lemma utc_now_emits: "utc_now c w = (r, w') \<Longrightarrow> emits [] w w'"
  by (auto simp: utc_now_def emits_def)

lemma move_machine_emits: "emits [] w (move_machine c tx to_state w)"
  using on_store_emits unfolding move_machine_def by (metis prod.collapse)

lemma save_log_emits:
  assumes "save_log c log w = (r, w')"
  shows "emits (case r of Inl _ \<Rightarrow> [] | Inr _ \<Rightarrow> [Logged (tl_status log)]) w w'"
proof (cases "log_to_vec (tpc_log_codec c) log")
  case (Inl e)
  then show ?thesis using assms by (auto simp: save_log_def)
next
  case (Inr data)
  obtain x w1 where x: "on_store (be_save (tpc_backend c) (log_key (tl_transaction_id log)) data) w = (x, w1)"
    by (rule prod.exhaust)
  show ?thesis using assms Inr x on_store_emits [OF x] by (cases x) (auto simp: save_log_def emits_def)
qed

lemma load_log_emits:
  assumes "load_log c tx w = (r, w')"
  shows "emits [] w w'"
proof -
  obtain x w1 where x: "on_store (be_load (tpc_backend c) (log_key tx)) w = (x, w1)" by (rule prod.exhaust)
  have "w' = w1" using assms x by (auto simp: load_log_def split: sum.splits option.splits)
  then show ?thesis using on_store_emits [OF x] by simp
qed

lemma update_status_emits:
  assumes "update_status c tx st w = (r, w')"
  shows "emits (logged st r) w w' \<and> (\<forall>log. r = Inr log \<longrightarrow> tl_status log = status_as_str st)"
proof -
  obtain l w1 where l: "load_log c tx w = (l, w1)" by (rule prod.exhaust)
  note e1 = load_log_emits [OF l]
  show ?thesis
  proof (cases "\<exists>log. l = Inr (Some log)")
    case False
    then have "w' = w1 \<and> (\<exists>e. r = Inl e)"
      using assms l by (auto simp: update_status_def split: sum.splits option.splits)
    then show ?thesis using e1 by auto
  next
    case True
    then obtain log where log: "l = Inr (Some log)" by blast
    obtain now w2 where n: "utc_now c w1 = (now, w2)" by (rule prod.exhaust)
    let ?log = "log\<lparr>tl_status := status_as_str st, tl_updated_at := now\<rparr>"
    obtain x w3 where x: "save_log c ?log w2 = (x, w3)" by (rule prod.exhaust)
    have "emits ([] @ [] @ (case x of Inl _ \<Rightarrow> [] | Inr _ \<Rightarrow> [Logged (tl_status ?log)])) w w3"
      by (intro emits_trans [OF e1] emits_trans [OF utc_now_emits [OF n]] save_log_emits [OF x])
    then show ?thesis using assms l log n x by (cases x) (auto simp: update_status_def)
  qed
qed


subsection \<open>The phases\<close>

lemma call_participant_emits:
  "call_participant c call p w = (r, w') \<Longrightarrow> emits [Called call (pt_handle p) r] w w'"
  by (auto simp: call_participant_def emits_def Let_def)

lemma prepare_loop_emits:
  assumes "prepare_loop c ps acc w = (votes, complete, w')"
  shows "\<exists>es new. emits es w w' \<and> only (Some Call_prepare) es \<and> votes = acc @ new
    \<and> (complete \<longrightarrow> es = map (\<lambda>p. Called Call_prepare (pt_handle p) (Inr ())) ps)
    \<and> (list_all vr_vote new \<longleftrightarrow> complete)"
  using assms
proof (induction ps arbitrary: acc w)
  case (Cons p ps)
  obtain r w1 where r: "call_participant c Call_prepare p w = (r, w1)" by (rule prod.exhaust)
  note e1 = call_participant_emits [OF r]
  show ?case
  proof (cases r)
    case (Inl e)
    then show ?thesis using Cons.prems r e1 by (auto intro!: exI [of _ "[Called Call_prepare (pt_handle p) r]"])
  next
    case (Inr u)
    let ?vote = "\<lparr>vr_participant_id = pt_id p, vr_vote = True, vr_reason = None\<rparr>"
    have "prepare_loop c ps (acc @ [?vote]) w1 = (votes, complete, w')" using Cons.prems r Inr by simp
    then obtain es new where e2: "emits es w1 w'" and es: "only (Some Call_prepare) es" "votes = (acc @ [?vote]) @ new"
      "complete \<longrightarrow> es = map (\<lambda>p. Called Call_prepare (pt_handle p) (Inr ())) ps" "list_all vr_vote new \<longleftrightarrow> complete"
      using Cons.IH by blast
    have "emits (Called Call_prepare (pt_handle p) r # es) w w'" using emits_trans [OF e1 e2] by simp
    then show ?thesis
      using es Inr by (intro exI [of _ "Called Call_prepare (pt_handle p) r # es"] exI [of _ "?vote # new"]) auto
  qed
qed (auto intro!: exI [of _ "[]"])

lemma rollback_loop_emits:
  assumes "rollback_loop c ps errors w = (errors', w')"
  shows "\<exists>es. emits es w w' \<and> only (Some Call_rollback) es"
  using assms
proof (induction ps arbitrary: errors w)
  case (Cons p ps)
  obtain r w1 where r: "call_participant c Call_rollback p w = (r, w1)" by (rule prod.exhaust)
  note e1 = call_participant_emits [OF r]
  obtain errors1 where "rollback_loop c ps errors1 w1 = (errors', w')" using Cons.prems r by (cases r) auto
  then obtain es where e2: "emits es w1 w'" and es: "only (Some Call_rollback) es" using Cons.IH by blast
  show ?case using emits_trans [OF e1 e2] es by (intro exI [of _ "[Called Call_rollback (pt_handle p) r] @ es"]) auto
qed (auto intro!: exI [of _ "[]"])

lemma rollback_phase_emits:
  assumes "rollback_phase c ps w = (r, w')"
  shows "\<exists>es. emits es w w' \<and> only (Some Call_rollback) es"
  using assms rollback_loop_emits unfolding rollback_phase_def by (fastforce split: prod.splits)

text \<open>
  One attempt calls each pending participant once. \<open>ans\<close> is what they answered; the ones that failed are pending
  for the next attempt, or recorded as failed in the last.
\<close>

lemma commit_round_emits:
  assumes "commit_round c retry ps results nx w = (results', nx', w')" "distinct (map pt_handle ps)"
  shows "\<exists>es ans new. emits es w w' \<and> only (Some Call_commit) es
    \<and> (\<forall>h. commits_of h es = (if h \<in> pt_handle ` set ps then [ans h] else []))
    \<and> results' = results @ new \<and> nx' = nx @ (if retry then filter (\<lambda>p. ans (pt_handle p) \<noteq> Inr ()) ps else [])
    \<and> (list_ex cr_committed new \<longleftrightarrow> (\<exists>p \<in> set ps. ans (pt_handle p) = Inr ()))
    \<and> (list_all cr_committed new \<longleftrightarrow> retry \<or> (\<forall>p \<in> set ps. ans (pt_handle p) = Inr ()))
    \<and> (new = [] \<longrightarrow> ps = [] \<or> (retry \<and> (\<forall>p \<in> set ps. ans (pt_handle p) \<noteq> Inr ())))"
  using assms
proof (induction ps arbitrary: results nx w)
  case (Cons p ps)
  let ?h = "pt_handle p"
  obtain r w1 where r: "call_participant c Call_commit p w = (r, w1)" by (rule prod.exhaust)
  note e1 = call_participant_emits [OF r]
  define here where "here = (case r of
      Inr _ \<Rightarrow> [\<lparr>cr_participant_id = pt_id p, cr_committed = True, cr_error = None\<rparr>]
    | Inl e \<Rightarrow> if retry then [] else [\<lparr>cr_participant_id = pt_id p, cr_committed = False, cr_error = Some e\<rparr>])"
  define again where "again = (if retry \<and> r \<noteq> Inr () then [p] else [])"
  have "commit_round c retry ps (results @ here) (nx @ again) w1 = (results', nx', w')"
    using Cons.prems(1) r by (cases r) (auto simp: here_def again_def)
  from Cons.IH [OF this] Cons.prems(2) obtain es ans new where e2: "emits es w1 w'" and es: "only (Some Call_commit) es"
    and ans: "\<forall>h. commits_of h es = (if h \<in> pt_handle ` set ps then [ans h] else [])"
    and res: "results' = (results @ here) @ new"
      "nx' = (nx @ again) @ (if retry then filter (\<lambda>p. ans (pt_handle p) \<noteq> Inr ()) ps else [])"
      "list_ex cr_committed new \<longleftrightarrow> (\<exists>p \<in> set ps. ans (pt_handle p) = Inr ())"
      "list_all cr_committed new \<longleftrightarrow> retry \<or> (\<forall>p \<in> set ps. ans (pt_handle p) = Inr ())"
      "new = [] \<longrightarrow> ps = [] \<or> (retry \<and> (\<forall>p \<in> set ps. ans (pt_handle p) \<noteq> Inr ()))"
    by auto
  let ?ans = "ans(?h := r)"
  have fresh: "?h \<notin> pt_handle ` set ps" using Cons.prems(2) by auto
  then have same: "?ans (pt_handle q) = ans (pt_handle q)" if "q \<in> set ps" for q
    using that by (metis fun_upd_other imageI)
  then have keep: "filter (\<lambda>q. ?ans (pt_handle q) \<noteq> Inr ()) ps = filter (\<lambda>q. ans (pt_handle q) \<noteq> Inr ()) ps"
    by (intro filter_cong) auto
  have "emits (Called Call_commit ?h r # es) w w'" using emits_trans [OF e1 e2] by simp
  moreover have "\<forall>h. commits_of h (Called Call_commit ?h r # es) = (if h \<in> pt_handle ` set (p # ps) then [?ans h] else [])"
    using ans fresh by auto
  moreover have "nx' = nx @ (if retry then filter (\<lambda>q. ?ans (pt_handle q) \<noteq> Inr ()) (p # ps) else [])"
    using res(2) keep by (auto simp: again_def)
  moreover have "list_ex cr_committed (here @ new) \<longleftrightarrow> (\<exists>q \<in> set (p # ps). ?ans (pt_handle q) = Inr ())"
    using res(3) same by (cases r) (auto simp: here_def)
  moreover have "list_all cr_committed (here @ new) \<longleftrightarrow> retry \<or> (\<forall>q \<in> set (p # ps). ?ans (pt_handle q) = Inr ())"
    using res(4) same by (cases r) (auto simp: here_def)
  moreover have "here @ new = [] \<longrightarrow> retry \<and> (\<forall>q \<in> set (p # ps). ?ans (pt_handle q) \<noteq> Inr ())"
    using res(5) same by (cases r) (auto simp: here_def)
  ultimately show ?case
    using es res(1) by (intro exI [of _ "Called Call_commit ?h r # es"] exI [of _ ?ans] exI [of _ "here @ new"]) auto
qed (auto intro!: exI [of _ "[]"])


text \<open>All attempts together: a participant is called until it acknowledges, and at most once per attempt.\<close>

definition commit_run :: "nat \<Rightarrow> participant list \<Rightarrow> tx_event list \<Rightarrow> participant_commit_result list \<Rightarrow> bool" where
  "commit_run n ps es new \<longleftrightarrow> only (Some Call_commit) es
    \<and> (\<forall>h. h \<notin> pt_handle ` set ps \<longrightarrow> commits_of h es = [])
    \<and> (\<forall>p \<in> set ps. length (commits_of (pt_handle p) es) \<le> n \<and> Inr () \<notin> set (butlast (commits_of (pt_handle p) es)))
    \<and> (list_ex cr_committed new \<longleftrightarrow> (\<exists>p \<in> set ps. acknowledged es p))
    \<and> (list_all cr_committed new \<longleftrightarrow> (\<forall>p \<in> set ps. acknowledged es p))
    \<and> (ps \<noteq> [] \<longrightarrow> new \<noteq> [])"

lemma commit_run_once:
  assumes round: "\<forall>h. commits_of h es = (if h \<in> pt_handle ` set ps then [ans h] else [])" "only (Some Call_commit) es"
      "list_ex cr_committed new \<longleftrightarrow> (\<exists>p \<in> set ps. ans (pt_handle p) = Inr ())"
      "list_all cr_committed new \<longleftrightarrow> (\<forall>p \<in> set ps. ans (pt_handle p) = Inr ())" "ps \<noteq> [] \<longrightarrow> new \<noteq> []"
  shows "commit_run (Suc n) ps es new"
proof -
  have one: "commits_of (pt_handle p) es = [ans (pt_handle p)]" if "p \<in> set ps" for p using round(1) that by auto
  then have "acknowledged es p \<longleftrightarrow> ans (pt_handle p) = Inr ()" if "p \<in> set ps" for p
    using that by (simp add: acknowledged_def eq_commute)
  then show ?thesis using one round by (simp add: commit_run_def)
qed

lemma commit_run_again:
  assumes round: "\<forall>h. commits_of h es1 = (if h \<in> pt_handle ` set ps then [ans h] else [])" "only (Some Call_commit) es1"
      "list_ex cr_committed new1 \<longleftrightarrow> (\<exists>p \<in> set ps. ans (pt_handle p) = Inr ())" "list_all cr_committed new1"
    and rest: "commit_run n failed es2 new2" "failed = filter (\<lambda>p. ans (pt_handle p) \<noteq> Inr ()) ps" "failed \<noteq> []"
    and dist: "distinct (map pt_handle ps)"
  shows "commit_run (Suc n) ps (es1 @ es2) (new1 @ new2)"
proof -
  have ok: "pt_handle p \<notin> pt_handle ` set failed" if "p \<in> set ps" "ans (pt_handle p) = Inr ()" for p
    using that dist by (auto simp: rest(2))
  have settled: "commits_of (pt_handle p) es2 = []" if "p \<in> set ps" "ans (pt_handle p) = Inr ()" for p
    using rest(1) ok [OF that] by (simp add: commit_run_def)
  have one: "commits_of (pt_handle p) es1 = [ans (pt_handle p)]" if "p \<in> set ps" for p using round(1) that by auto
  have ack: "acknowledged (es1 @ es2) p \<longleftrightarrow> ans (pt_handle p) = Inr () \<or> acknowledged es2 p" if "p \<in> set ps" for p
    using one [OF that] by (auto simp: acknowledged_def)
  have "length (commits_of (pt_handle p) (es1 @ es2)) \<le> Suc n
      \<and> Inr () \<notin> set (butlast (commits_of (pt_handle p) (es1 @ es2)))" if p: "p \<in> set ps" for p
  proof (cases "ans (pt_handle p) = Inr ()")
    case True
    then show ?thesis using one [OF p] settled [OF p] by simp
  next
    case False
    then have "p \<in> set failed" using p by (simp add: rest(2))
    then show ?thesis using rest(1) one [OF p] False by (auto simp: commit_run_def)
  qed
  moreover have "\<forall>h. h \<notin> pt_handle ` set ps \<longrightarrow> commits_of h (es1 @ es2) = []"
    using round(1) rest(1,2) by (auto simp: commit_run_def)
  moreover have "(\<exists>p \<in> set ps. acknowledged (es1 @ es2) p) \<longleftrightarrow> list_ex cr_committed (new1 @ new2)"
    using ack round(3) rest(1,2) by (auto simp: commit_run_def)
  moreover have "(\<forall>p \<in> set ps. acknowledged (es1 @ es2) p) \<longleftrightarrow> list_all cr_committed (new1 @ new2)"
    using ack round(4) rest(1,2) by (auto simp: commit_run_def)
  ultimately show ?thesis
    using round(2) rest by (auto simp: commit_run_def)
qed

lemma commit_rounds_emits:
  assumes "commit_rounds (Suc n) c ps results w = (results', w')" "distinct (map pt_handle ps)"
  shows "\<exists>es new. emits es w w' \<and> results' = results @ new \<and> commit_run (Suc n) ps es new"
  using assms
proof (induction n arbitrary: ps results w)
  case 0
  obtain res nx w1 where r: "commit_round c False ps results [] w = (res, nx, w1)" by (metis prod.exhaust)
  from commit_round_emits [OF r 0(2)] obtain es ans new where e: "emits es w w1" "only (Some Call_commit) es"
      "\<forall>h. commits_of h es = (if h \<in> pt_handle ` set ps then [ans h] else [])" "res = results @ new" "nx = []"
      "list_ex cr_committed new \<longleftrightarrow> (\<exists>p \<in> set ps. ans (pt_handle p) = Inr ())"
      "list_all cr_committed new \<longleftrightarrow> (\<forall>p \<in> set ps. ans (pt_handle p) = Inr ())" "new = [] \<longrightarrow> ps = []"
    by (elim exE conjE) (rule that, assumption, assumption, assumption, assumption, simp_all)
  have "commit_run (Suc 0) ps es new" using e(8) by (intro commit_run_once [OF e(3,2,6,7)]) auto
  moreover have "results' = res" "w' = w1" using 0 r e(5) by auto
  ultimately show ?case using e(1,4) by auto
next
  case (Suc n)
  obtain res nx w1 where r: "commit_round c True ps results [] w = (res, nx, w1)" by (metis prod.exhaust)
  from commit_round_emits [OF r Suc.prems(2)] obtain es ans new where e: "emits es w w1" "only (Some Call_commit) es"
      "\<forall>h. commits_of h es = (if h \<in> pt_handle ` set ps then [ans h] else [])" "res = results @ new"
      "nx = filter (\<lambda>p. ans (pt_handle p) \<noteq> Inr ()) ps"
      "list_ex cr_committed new \<longleftrightarrow> (\<exists>p \<in> set ps. ans (pt_handle p) = Inr ())"
      "list_all cr_committed new" "new = [] \<longrightarrow> ps = [] \<or> (\<forall>p \<in> set ps. ans (pt_handle p) \<noteq> Inr ())"
    by (elim exE conjE) (rule that, assumption, assumption, assumption, assumption, simp_all)
  show ?case
  proof (cases "nx = []")
    case True
    then have "\<forall>p \<in> set ps. ans (pt_handle p) = Inr ()" using e(5) by (auto simp: filter_empty_conv)
    then have "commit_run (Suc (Suc n)) ps es new"
      using e(7,8) by (intro commit_run_once [OF e(3,2,6)]) auto
    moreover have "results' = res" "w' = w1" using Suc.prems(1) r True by auto
    ultimately show ?thesis using e(1,4) by auto
  next
    case False
    then have "commit_rounds (Suc n) c nx res w1 = (results', w')" using Suc.prems(1) r by simp
    moreover have "distinct (map pt_handle nx)" using Suc.prems(2) by (simp add: e(5) distinct_map_filter)
    ultimately obtain es2 new2 where e2: "emits es2 w1 w'" "results' = res @ new2" "commit_run (Suc n) nx es2 new2"
      using Suc.IH by blast
    then have "commit_run (Suc (Suc n)) ps (es @ es2) (new @ new2)"
      using commit_run_again [OF e(3,2,6,7) e2(3) e(5) False Suc.prems(2)] by blast
    then show ?thesis using emits_trans [OF e(1) e2(1)] e(4) e2(2) by auto
  qed
qed

lemma commit_phase_emits:
  assumes "commit_phase c ps 2 w = (results, w')" "distinct (map pt_handle ps)"
  shows "\<exists>es. emits es w w' \<and> commit_run 3 ps es results"
  using commit_rounds_emits [of 2 c ps "[]" w results w'] assms by (auto simp: commit_phase_def numeral_eq_Suc)

lemma all_committed_acknowledged:
  "commit_run n ps es results \<Longrightarrow> all_committed ps results \<longleftrightarrow> (\<forall>p \<in> set ps. acknowledged es p)"
  by (auto simp: commit_run_def all_committed_def)


subsection \<open>A whole execution\<close>

abbreviation voted_yes :: "participant list \<Rightarrow> tx_event list" where
  "voted_yes ps \<equiv> map (\<lambda>p. Called Call_prepare (pt_handle p) (Inr ())) ps"

text \<open>The commits of a run: each participant at most three times, and not after it acknowledged.\<close>

definition commits_ok :: "participant list \<Rightarrow> tx_event list \<Rightarrow> bool" where
  "commits_ok ps es \<longleftrightarrow>
     (\<forall>h. h \<notin> pt_handle ` set ps \<longrightarrow> commits_of h es = [])
   \<and> (\<forall>p \<in> set ps. length (commits_of (pt_handle p) es) \<le> 3 \<and> Inr () \<notin> set (butlast (commits_of (pt_handle p) es)))"

text \<open>The statuses that are logged agree with the acknowledgements.\<close>

definition outcome_ok ::
  "participant list \<Rightarrow> tx_event list \<Rightarrow> transaction_log rust_result \<Rightarrow> tx_event list \<Rightarrow> bool" where
  "outcome_ok ps commits r logs \<longleftrightarrow>
     (Logged (status_as_str Tx_Committed) \<in> set logs \<longrightarrow> (\<forall>p \<in> set ps. acknowledged commits p))
   \<and> (Logged (status_as_str Tx_RolledBack) \<in> set logs \<longrightarrow> (\<forall>p \<in> set ps. \<not> acknowledged commits p))
   \<and> (Logged (status_as_str Tx_Mixed) \<in> set logs \<longrightarrow>
        (\<exists>p \<in> set ps. acknowledged commits p) \<and> (\<exists>p \<in> set ps. \<not> acknowledged commits p))
   \<and> (\<forall>log. r = Inr log \<longrightarrow>
        tl_status log = status_as_str Tx_Committed \<and> Logged (status_as_str Tx_Committed) \<in> set logs)"

text \<open>What follows the vote: the decision, the commits, and then only log writes and rollbacks.\<close>

definition decision_run :: "participant list \<Rightarrow> bool \<Rightarrow> transaction_log rust_result \<Rightarrow> tx_event list \<Rightarrow> bool" where
  "decision_run ps agreed r es \<longleftrightarrow>
     (\<exists>B C D. es = B @ C @ D \<and> only None B \<and> only (Some Call_commit) C
        \<and> (\<forall>e \<in> set D. event_call e \<in> {None, Some Call_rollback})
        \<and> (C \<noteq> [] \<longrightarrow> agreed \<and> Logged (status_as_str Tx_Committing) \<in> set B)
        \<and> commits_ok ps C \<and> outcome_ok ps C r (B @ D))"

lemma decision_run_stopped: "decision_run ps agreed (Inl e) []"
  by (auto simp: decision_run_def commits_ok_def outcome_ok_def)

lemma execute_abort_emits:
  assumes "execute_abort c tx ps votes w = (r, w')"
  shows "\<exists>es. emits es w w' \<and> decision_run ps False r es"
proof -
  obtain x w1 where x: "update_status c tx Tx_RollingBack w = (x, w1)" by (rule prod.exhaust)
  note e1 = update_status_emits [OF x, THEN conjunct1]
  show ?thesis
  proof (cases x)
    case (Inl e)
    then show ?thesis using assms x e1 decision_run_stopped by (auto simp: execute_abort_def)
  next
    case (Inr l)
    obtain rb w2 where rb: "rollback_phase c ps w1 = (rb, w2)" by (rule prod.exhaust)
    obtain R where R: "emits R w1 w2" "only (Some Call_rollback) R" using rollback_phase_emits [OF rb] by blast
    obtain y w3 where y: "update_status c tx Tx_RolledBack w2 = (y, w3)" by (rule prod.exhaust)
    note e3 = update_status_emits [OF y, THEN conjunct1]
    have fin: "emits [] w3 w' \<and> (\<exists>e. r = Inl e)"
      using assms x Inr rb y move_machine_emits [of w3 c tx St_Failed] by (cases y) (auto simp: execute_abort_def)
    let ?D = "[Logged (status_as_str Tx_RollingBack)] @ R @ logged Tx_RolledBack y @ []"
    have "emits ?D w w'"
      using e1 Inr R(1) e3 fin by (intro emits_trans) auto
    moreover have "decision_run ps False r ?D"
      unfolding decision_run_def using R(2) fin
      by (intro exI [of _ "[]"] exI [of _ ?D]) (cases y; auto simp: commits_ok_def outcome_ok_def acknowledged_def)
    ultimately show ?thesis by blast
  qed
qed

lemma decision_committed:
  assumes "commit_run 3 ps C results" "all_committed ps results"
    and "\<forall>log. r = Inr log \<longrightarrow> tl_status log = status_as_str Tx_Committed"
  shows "decision_run ps True r ([Logged (status_as_str Tx_Committing)] @ C @ logged Tx_Committed r)"
proof -
  have "\<forall>p \<in> set ps. acknowledged C p" using all_committed_acknowledged [OF assms(1)] assms(2) by simp
  then have "outcome_ok ps C r ([Logged (status_as_str Tx_Committing)] @ logged Tx_Committed r)"
    using assms(3) by (cases r) (auto simp: outcome_ok_def)
  moreover have "commits_ok ps C" "only (Some Call_commit) C" using assms(1) by (auto simp: commit_run_def commits_ok_def)
  moreover have "\<forall>ev \<in> set (logged Tx_Committed r). event_call ev \<in> {None, Some Call_rollback}"
    by (cases r) auto
  ultimately show ?thesis
    unfolding decision_run_def
    by (intro exI [of _ "[Logged (status_as_str Tx_Committing)]"] exI [of _ C] exI [of _ "logged Tx_Committed r"]) simp
qed

lemma decision_failed:
  assumes "commit_run 3 ps C results" "\<not> all_committed ps results" "only (Some Call_rollback) R" "r = Inl e"
    "st = (if list_ex cr_committed results then Tx_Mixed else Tx_RolledBack)"
  shows "decision_run ps True r
           ([Logged (status_as_str Tx_Committing)] @ C @ logged Tx_RollingBack x @ R @ logged st y)"
proof -
  have "\<exists>p \<in> set ps. \<not> acknowledged C p" using all_committed_acknowledged [OF assms(1)] assms(2) by simp
  moreover have "list_ex cr_committed results \<longleftrightarrow> (\<exists>p \<in> set ps. acknowledged C p)"
    using assms(1) by (simp add: commit_run_def)
  ultimately have "outcome_ok ps C r ([Logged (status_as_str Tx_Committing)] @ logged Tx_RollingBack x @ R @ logged st y)"
    using assms(3,4,5) by (cases x; cases y) (auto simp: outcome_ok_def)
  moreover have "commits_ok ps C" "only (Some Call_commit) C" using assms(1) by (auto simp: commit_run_def commits_ok_def)
  moreover have "\<forall>ev \<in> set (logged Tx_RollingBack x @ R @ logged st y). event_call ev \<in> {None, Some Call_rollback}"
    using assms(3) by (cases x; cases y) auto
  ultimately show ?thesis
    unfolding decision_run_def
    by (intro exI [of _ "[Logged (status_as_str Tx_Committing)]"] exI [of _ C]
        exI [of _ "logged Tx_RollingBack x @ R @ logged st y"]) simp
qed


lemma execute_commit_emits:
  assumes "execute_commit c tx ps w = (r, w')" "distinct (map pt_handle ps)"
  shows "\<exists>es. emits es w w' \<and> decision_run ps True r es"
proof -
  obtain x w1 where x: "update_status c tx Tx_Committing w = (x, w1)" by (rule prod.exhaust)
  note e1 = update_status_emits [OF x, THEN conjunct1]
  obtain results w2 where res: "commit_phase c ps 2 w1 = (results, w2)" by (rule prod.exhaust)
  obtain C where C: "emits C w1 w2" "commit_run 3 ps C results" using commit_phase_emits [OF res assms(2)] by blast
  show ?thesis
  proof (cases x)
    case (Inl e)
    then show ?thesis using assms x e1 decision_run_stopped by (auto simp: execute_commit_def)
  next
    case begun: (Inr l)
    show ?thesis
    proof (cases "all_committed ps results")
      case True
      obtain y w3 where y: "update_status c tx Tx_Committed w2 = (y, w3)" by (rule prod.exhaust)
      have fin: "r = y \<and> emits [] w3 w'"
        using assms(1) x begun res True y move_machine_emits [of w3 c tx St_Completed]
        by (cases y) (auto simp: execute_commit_def)
      have "emits ([Logged (status_as_str Tx_Committing)] @ C @ logged Tx_Committed y @ []) w w'"
        using e1 begun C(1) update_status_emits [OF y] fin by (intro emits_trans) auto
      then show ?thesis
        using decision_committed [OF C(2) True, of y] update_status_emits [OF y] fin by auto
    next
      case False
      let ?st = "if list_ex cr_committed results then Tx_Mixed else Tx_RolledBack"
      obtain u w3 where u: "update_status c tx Tx_RollingBack w2 = (u, w3)" by (rule prod.exhaust)
      note e3 = update_status_emits [OF u, THEN conjunct1]
      obtain rb w4 where rb: "rollback_phase c ps w3 = (rb, w4)" by (rule prod.exhaust)
      obtain R where R: "emits R w3 w4" "only (Some Call_rollback) R" using rollback_phase_emits [OF rb] by blast
      obtain y w5 where y: "update_status c tx ?st w4 = (y, w5)" by (rule prod.exhaust)
      note e5 = update_status_emits [OF y, THEN conjunct1]
      show ?thesis
      proof (cases u)
        case (Inl e)
        have "r = Inl e" "w' = w3" using assms(1) x begun res False u Inl by (auto simp: execute_commit_def)
        moreover have "emits ([Logged (status_as_str Tx_Committing)] @ C @ logged Tx_RollingBack u) w w3"
          using e1 begun C(1) e3 by (intro emits_trans) auto
        ultimately show ?thesis
          using decision_failed [OF C(2) False, of "[]" r e ?st u "Inl e"] by auto
      next
        case (Inr l)
        have fin: "(\<exists>e. r = Inl e) \<and> emits [] w5 w'"
          using assms(1) x begun res False u Inr rb y move_machine_emits [of w5 c tx St_Failed]
          by (cases y) (auto simp: execute_commit_def Let_def)
        then have "emits ([Logged (status_as_str Tx_Committing)] @ C @ logged Tx_RollingBack u @ R @ logged ?st y @ []) w w'"
          using e1 begun C(1) e3 R(1) e5 by (intro emits_trans) auto
        then show ?thesis using decision_failed [OF C(2) False R(2) _ refl, of r _ u y] fin by auto
      qed
    qed
  qed
qed

lemma prepare_phase_emits:
  assumes "prepare_phase c tx ps w = (r, w')"
  shows "\<exists>A V B. emits (A @ V @ B) w w' \<and> set A \<subseteq> {Logged (status_as_str Tx_Preparing)} \<and> only (Some Call_prepare) V
    \<and> set B \<subseteq> {Logged (status_as_str Tx_Prepared)}
    \<and> (\<forall>votes. r = Inr votes \<and> list_all vr_vote votes \<longrightarrow> V = voted_yes ps)"
proof -
  obtain x w1 where x: "update_status c tx Tx_Preparing w = (x, w1)" by (rule prod.exhaust)
  note e1 = update_status_emits [OF x, THEN conjunct1]
  obtain votes complete w2 where v: "prepare_loop c ps [] w1 = (votes, complete, w2)" by (metis prod.exhaust)
  obtain V where V: "emits V w1 w2" "only (Some Call_prepare) V" "complete \<longrightarrow> V = voted_yes ps"
      "list_all vr_vote votes \<longleftrightarrow> complete"
    using prepare_loop_emits [OF v] by auto
  obtain y w3 where y: "update_status c tx Tx_Prepared w2 = (y, w3)" by (rule prod.exhaust)
  note e3 = update_status_emits [OF y, THEN conjunct1]
  show ?thesis
  proof (cases x)
    case (Inl e)
    then show ?thesis using assms x e1 by (auto simp: prepare_phase_def intro!: exI [of _ "[]"])
  next
    case (Inr l)
    show ?thesis
    proof (cases complete)
      case True
      have "w' = w3" using assms x Inr v True y by (cases y) (auto simp: prepare_phase_def)
      then have "emits ([Logged (status_as_str Tx_Preparing)] @ V @ logged Tx_Prepared y) w w'"
        using e1 Inr V(1) e3 by (intro emits_trans) auto
      then show ?thesis using V(2,3) True
        by (intro exI [of _ "[Logged (status_as_str Tx_Preparing)]"] exI [of _ V] exI [of _ "logged Tx_Prepared y"])
           (cases y; simp)
    next
      case False
      then have "w' = w2 \<and> r = Inr votes" using assms x Inr v by (auto simp: prepare_phase_def)
      moreover have "emits ([Logged (status_as_str Tx_Preparing)] @ V) w w2"
        using e1 Inr V(1) by (intro emits_trans) auto
      ultimately show ?thesis using V(2,4) False
        by (intro exI [of _ "[Logged (status_as_str Tx_Preparing)]"] exI [of _ V] exI [of _ "[]"]) simp
    qed
  qed
qed


definition tx_run :: "participant list \<Rightarrow> transaction_log rust_result \<Rightarrow> tx_event list \<Rightarrow> bool" where
  "tx_run ps r es \<longleftrightarrow>
     (\<exists>A V E agreed. es = A @ V @ E \<and> set A \<subseteq> {Logged (status_as_str Tx_Preparing)} \<and> only (Some Call_prepare) V
        \<and> decision_run ps agreed r E \<and> (agreed \<longrightarrow> V = voted_yes ps))"

lemma tx_run_stopped:
  assumes "set A \<subseteq> {Logged (status_as_str Tx_Preparing)}" "only (Some Call_prepare) V" "decision_run ps False (Inl e) E"
  shows "tx_run ps (Inl e) (A @ V @ E)"
  using assms unfolding tx_run_def by blast

lemma decision_run_logged:
  assumes "decision_run ps agreed r E" "set L \<subseteq> {Logged (status_as_str Tx_Prepared)}"
  shows "decision_run ps agreed r (L @ E)"
proof -
  obtain B C D where d: "E = B @ C @ D" "only None B" "only (Some Call_commit) C"
      "\<forall>e \<in> set D. event_call e \<in> {None, Some Call_rollback}"
      "C \<noteq> [] \<longrightarrow> agreed \<and> Logged (status_as_str Tx_Committing) \<in> set B" "commits_ok ps C" "outcome_ok ps C r (B @ D)"
    using assms(1) unfolding decision_run_def by blast
  have "only None (L @ B)" using d(2) assms(2) by auto
  moreover have "outcome_ok ps C r ((L @ B) @ D)" using d(7) assms(2) by (auto simp: outcome_ok_def)
  ultimately show ?thesis
    unfolding decision_run_def using d by (intro exI [of _ "L @ B"] exI [of _ C] exI [of _ D]) simp
qed

lemma decision_run_error: "only None L \<Longrightarrow> set L \<subseteq> {Logged (status_as_str Tx_Prepared)} \<Longrightarrow> decision_run ps False (Inl e) L"
  using decision_run_logged [OF decision_run_stopped, of L] by simp

lemma execute_emits:
  assumes "execute c tx ps metadata w = (r, w')" "distinct (map pt_handle ps)"
  shows "\<exists>es. emits es w w' \<and> tx_run ps r es"
proof -
  let ?infos = "map (\<lambda>p. \<lparr>pi_id = pt_id p, pi_name = pt_name p, pi_role = pt_role p\<rparr>) ps"
  let ?create = "create_state (tpc_entry_codec c) (tpc_backend c) (machine_key tx) (JObject [(''phase'', JString ''begin'')])"
  obtain log w1 where l: "new_log c tx ?infos metadata w = (log, w1)" by (rule prod.exhaust)
  have e1: "emits [] w w1" and st: "tl_status log = status_as_str Tx_Preparing"
    using l by (auto simp: new_log_def utc_now_def emits_def Let_def)
  obtain x w2 where x: "save_log c log w1 = (x, w2)" by (rule prod.exhaust)
  note e2 = save_log_emits [OF x]
  obtain y w3 where y: "on_store ?create w2 = (y, w3)" by (rule prod.exhaust)
  note e3 = on_store_emits [OF y]
  obtain v w4 where v: "prepare_phase c tx ps w3 = (v, w4)" by (rule prod.exhaust)
  obtain A V B where e4: "emits (A @ V @ B) w3 w4" and A: "set A \<subseteq> {Logged (status_as_str Tx_Preparing)}"
      "only (Some Call_prepare) V" "set B \<subseteq> {Logged (status_as_str Tx_Prepared)}"
      "\<forall>votes. v = Inr votes \<and> list_all vr_vote votes \<longrightarrow> V = voted_yes ps"
    using prepare_phase_emits [OF v] by blast
  let ?A = "[Logged (status_as_str Tx_Preparing)]"
  have none: "tx_run ps (Inl e) []" and some: "tx_run ps (Inl e) ?A" for e
    using tx_run_stopped [OF _ _ decision_run_stopped, of "[]" "[]" ps e] tx_run_stopped [OF _ _ decision_run_stopped, of ?A "[]" ps e]
    by simp_all
  consider e where "x = Inl e" | e where "x = Inr ()" "y = Inl e" | e where "x = Inr ()" "isl y = False" "v = Inl e"
    | votes where "x = Inr ()" "isl y = False" "v = Inr votes"
    by (cases x; cases y; cases v) auto
  then show ?thesis
  proof cases
    case 1
    then have "r = Inl e" "w' = w2" using assms(1) l x by (auto simp: execute_def)
    then show ?thesis using emits_trans [OF e1 e2] 1 none by auto
  next
    case 2
    then have "r = Inl e" "w' = w3" using assms(1) l x y by (auto simp: execute_def)
    then show ?thesis using emits_trans [OF emits_trans [OF e1 e2] e3] 2 st some by auto
  next
    case 3
    then have "r = Inl e" "w' = w4" using assms(1) l x y v by (cases y; auto simp: execute_def)+
    moreover have "emits (?A @ A @ V @ B) w w4" using emits_trans [OF emits_trans [OF emits_trans [OF e1 e2] e3] e4] 3 st by simp
    moreover have "tx_run ps (Inl e) ((?A @ A) @ V @ B)"
      using A(1-3) by (intro tx_run_stopped decision_run_error) auto
    ultimately show ?thesis by auto
  next
    case 4
    let ?agreed = "list_all vr_vote votes"
    have "(if ?agreed then execute_commit c tx ps w4 else execute_abort c tx ps votes w4) = (r, w')"
      using assms(1) l x y v 4 by (cases y; auto simp: execute_def)+
    then obtain E where E: "emits E w4 w'" "decision_run ps ?agreed r E"
      using execute_commit_emits [OF _ assms(2)] execute_abort_emits by (cases ?agreed) (simp, blast, simp, blast)
    have "emits (?A @ A @ V @ B @ E) w w'"
      using emits_trans [OF emits_trans [OF emits_trans [OF emits_trans [OF e1 e2] e3] e4] E(1)] 4 st by simp
    moreover have "tx_run ps r ((?A @ A) @ V @ (B @ E))"
      unfolding tx_run_def using A(1,2,4) decision_run_logged [OF E(2) A(3)] 4
      by (intro exI [of _ "?A @ A"] exI [of _ V] exI [of _ "B @ E"] exI [of _ ?agreed]) auto
    ultimately show ?thesis by auto
  qed
qed

lemma tx_runE:
  assumes "tx_run ps r es"
  obtains A V B C D agreed where "es = (A @ V @ B) @ C @ D"
    "set A \<subseteq> {Logged (status_as_str Tx_Preparing)}" "only (Some Call_prepare) V" "agreed \<longrightarrow> V = voted_yes ps"
    "only None B" "only (Some Call_commit) C" "\<forall>e \<in> set D. event_call e \<in> {None, Some Call_rollback}"
    "C \<noteq> [] \<longrightarrow> agreed \<and> Logged (status_as_str Tx_Committing) \<in> set B" "commits_ok ps C" "outcome_ok ps C r (B @ D)"
    "\<And>h. commits_of h es = commits_of h C"
proof -
  obtain A V E agreed where a: "es = A @ V @ E" "set A \<subseteq> {Logged (status_as_str Tx_Preparing)}"
      "only (Some Call_prepare) V" "decision_run ps agreed r E" "agreed \<longrightarrow> V = voted_yes ps"
    using assms unfolding tx_run_def by blast
  obtain B C D where d: "E = B @ C @ D" "only None B" "only (Some Call_commit) C"
      "\<forall>e \<in> set D. event_call e \<in> {None, Some Call_rollback}"
      "C \<noteq> [] \<longrightarrow> agreed \<and> Logged (status_as_str Tx_Committing) \<in> set B" "commits_ok ps C" "outcome_ok ps C r (B @ D)"
    using a(4) unfolding decision_run_def by blast
  have "commits_of h A = []" "commits_of h V = []" "commits_of h B = []" "commits_of h D = []" for h
    using a(2,3) d(2,4) by (auto intro!: commits_of_other)
  then have "commits_of h es = commits_of h C" for h by (simp add: a(1) d(1))
  then show thesis using a d by (intro that [of A V B C D agreed]) simp_all
qed

section \<open>Two participants\<close>

text \<open>For the examples: two participants, a codec for the logs of one transaction, and two temperaments.\<close>

definition pair :: "participant list" where
  "pair = [\<lparr>pt_handle = 0, pt_id = ''a'', pt_name = ''A'', pt_role = ''worker''\<rparr>,
           \<lparr>pt_handle = 1, pt_id = ''b'', pt_name = ''B'', pt_role = ''worker''\<rparr>]"

definition pair_log :: "string \<Rightarrow> transaction_log" where
  "pair_log status =
     \<lparr>tl_transaction_id = ''t'', tl_status = status,
      tl_participants = [\<lparr>pi_id = ''a'', pi_name = ''A'', pi_role = ''worker''\<rparr>,
                         \<lparr>pi_id = ''b'', pi_name = ''B'', pi_role = ''worker''\<rparr>],
      tl_created_at = ''now'', tl_updated_at = ''now'', tl_metadata = JNull\<rparr>"

definition pair_entry :: state_entry where
  "pair_entry = \<lparr>se_key = ''2pc_t'', se_current_state = ''created'', se_version = 1,
                 se_metadata = JObject [(''phase'', JString ''begin'')]\<rparr>"

definition pair_codec :: entry_codec where
  "pair_codec = \<lparr>entry_to_vec = (\<lambda>e. if e = pair_entry then Inr ''c'' else Inl ''unsupported''),
                 entry_from_slice = (\<lambda>d. if d = ''c'' then Inr pair_entry else Inl ''expected value'')\<rparr>"

definition pair_log_codec :: log_codec where
  "pair_log_codec = \<lparr>log_to_vec = (\<lambda>l. if l = pair_log (tl_status l) then Inr (tl_status l) else Inl ''unsupported''),
                     log_from_slice = (\<lambda>d. Inr (pair_log d))\<rparr>"

definition agreeable :: "tx_event list \<Rightarrow> participant_call \<Rightarrow> nat \<Rightarrow> unit rust_result" where
  "agreeable es call h = Inr ()"

definition second_cannot_commit :: "tx_event list \<Rightarrow> participant_call \<Rightarrow> nat \<Rightarrow> unit rust_result" where
  "second_cannot_commit es call h = (if call = Call_commit \<and> h = 1 then Inl ''lost'' else Inr ())"

definition pair_coordinator ::
  "(tx_event list \<Rightarrow> participant_call \<Rightarrow> nat \<Rightarrow> unit rust_result) \<Rightarrow> store_world two_phase_commit" where
  "pair_coordinator answer =
     \<lparr>tpc_backend = local_backend pair_codec, tpc_entry_codec = pair_codec, tpc_log_codec = pair_log_codec,
      tpc_answer = answer, tpc_now = (\<lambda>_. ''now'')\<rparr>"

definition pair_world :: "turn list \<Rightarrow> store_world tx_world" where
  "pair_world ts = \<lparr>tx_store = \<lparr>state_rows = [], turns = ts\<rparr>, tx_history = [], tx_ticks = 0\<rparr>"

abbreviation pair_run ::
  "(tx_event list \<Rightarrow> participant_call \<Rightarrow> nat \<Rightarrow> unit rust_result) \<Rightarrow> turn list
     \<Rightarrow> transaction_log rust_result \<times> store_world tx_world" where
  "pair_run answer ts \<equiv> execute (pair_coordinator answer) ''t'' pair JNull (pair_world ts)"

lemma pair_world_history [simp]: "tx_history (pair_world ts) = []"
  by (simp add: pair_world_def)

lemma pair_distinct: "distinct (map pt_handle pair)"
  by (simp add: pair_def)

section \<open>Guarantees of an execution\<close>

text \<open>
  C4. Two-phase commit keeps its discipline, on any backend, whatever it answers, and for any participants,
  whatever they answer and whenever they fail. A commit is sent only when every participant has voted yes, the
  decision to commit has been written to the log, and no rollback has been sent; no participant is asked again
  after it acknowledged, none is asked more than three times, and nobody outside the transaction is asked.
\<close>

theorem commit_only_after_a_unanimous_vote:
  assumes "execute c tx ps metadata w = (r, w')" "distinct (map pt_handle ps)"
  shows "\<exists>es. tx_history w' = tx_history w @ es
    \<and> (\<forall>pre h a post. es = pre @ Called Call_commit h a # post \<longrightarrow>
         Logged (status_as_str Tx_Committing) \<in> set pre \<and> set (voted_yes ps) \<subseteq> set pre
         \<and> (\<forall>e \<in> set pre. event_call e \<noteq> Some Call_rollback)
         \<and> h \<in> pt_handle ` set ps)
    \<and> (\<forall>p \<in> set ps. length (commits_of (pt_handle p) es) \<le> 3
         \<and> Inr () \<notin> set (butlast (commits_of (pt_handle p) es)))"
proof -
  obtain es where e: "emits es w w'" "tx_run ps r es" using execute_emits [OF assms] by blast
  obtain A V B C D agreed where run: "es = (A @ V @ B) @ C @ D"
      and A: "set A \<subseteq> {Logged (status_as_str Tx_Preparing)}" "only (Some Call_prepare) V" "agreed \<longrightarrow> V = voted_yes ps"
      and B: "only None B" "only (Some Call_commit) C" "\<forall>e \<in> set D. event_call e \<in> {None, Some Call_rollback}"
      "C \<noteq> [] \<longrightarrow> agreed \<and> Logged (status_as_str Tx_Committing) \<in> set B" "commits_ok ps C"
      and out: "outcome_ok ps C r (B @ D)" and own: "\<And>h. commits_of h es = commits_of h C"
    by (rule tx_runE [OF e(2)]) (rule that)
  have before: "\<forall>e \<in> set (A @ V @ B). event_call e \<in> {None, Some Call_prepare}" using A B by auto
  have "Logged (status_as_str Tx_Committing) \<in> set pre \<and> set (voted_yes ps) \<subseteq> set pre
         \<and> (\<forall>e \<in> set pre. event_call e \<noteq> Some Call_rollback) \<and> h \<in> pt_handle ` set ps"
    if split: "es = pre @ Called Call_commit h a # post" for pre h a post
  proof -
    let ?call = "Called Call_commit h a"
    have away: "?call \<notin> set (A @ V @ B)" "?call \<notin> set D"
      using bspec [OF before, of ?call] bspec [OF B(3), of ?call] by auto
    then obtain p where p: "pre = (A @ V @ B) @ p" "set p \<subseteq> set C"
      using split_inside [OF _ away, of C pre post] run split by metis
    have "?call \<in> set C" using away split run by (metis Un_iff in_set_conv_decomp set_append)
    then have C: "agreed" "Logged (status_as_str Tx_Committing) \<in> set B" using B(4) by auto
    have "commits_of h es \<noteq> []" by (simp add: split)
    then have "h \<in> pt_handle ` set ps" using B(5) own by (auto simp: commits_ok_def)
    moreover have "event_call e \<noteq> Some Call_rollback" if "e \<in> set pre" for e
    proof -
      have "e \<in> set (A @ V @ B) \<or> e \<in> set C" using that p by auto
      then show ?thesis using bspec [OF before, of e] bspec [OF B(2), of e] by auto
    qed
    moreover have "set (voted_yes ps) \<subseteq> set pre" using p(1) C(1) A(3) by auto
    ultimately show ?thesis using p(1) C(2) by simp
  qed
  moreover have "\<forall>p \<in> set ps. length (commits_of (pt_handle p) es) \<le> 3
      \<and> Inr () \<notin> set (butlast (commits_of (pt_handle p) es))"
    using B(5) by (simp add: own commits_ok_def)
  ultimately show ?thesis using e(1) unfolding emits_def by (intro exI [of _ es] conjI allI impI) blast+
qed

theorem commit_only_after_a_unanimous_vote_witness:
  "length (commits_of 1 (tx_history (snd (pair_run second_cannot_commit [])))) \<le> 3"
proof -
  obtain r w' where run: "pair_run second_cannot_commit [] = (r, w')" by (rule prod.exhaust)
  have "\<exists>p \<in> set pair. pt_handle p = 1" by (simp add: pair_def)
  then show ?thesis
    using commit_only_after_a_unanimous_vote [OF run pair_distinct] by (fastforce simp: run)
qed

text \<open>
  C6. The status that \<open>execute\<close> leaves in the log is what happened, on any backend. It writes \<^verbatim>\<open>committed\<close> only
  when every participant has acknowledged a commit, \<^verbatim>\<open>rolled_back\<close> only when none has, and \<^verbatim>\<open>mixed\<close> only when some
  have and some have not; and it answers success only with a log that says \<^verbatim>\<open>committed\<close>, after writing it.
\<close>

theorem logged_outcome_is_what_happened:
  assumes "execute c tx ps metadata w = (r, w')" "distinct (map pt_handle ps)"
  shows "\<exists>es. tx_history w' = tx_history w @ es
    \<and> (Logged ''committed'' \<in> set es \<longrightarrow> (\<forall>p \<in> set ps. acknowledged es p))
    \<and> (Logged ''rolled_back'' \<in> set es \<longrightarrow> (\<forall>p \<in> set ps. \<not> acknowledged es p))
    \<and> (Logged ''mixed'' \<in> set es \<longrightarrow>
         (\<exists>p \<in> set ps. acknowledged es p) \<and> (\<exists>p \<in> set ps. \<not> acknowledged es p))
    \<and> (\<forall>log. r = Inr log \<longrightarrow> tl_status log = ''committed'' \<and> Logged ''committed'' \<in> set es)"
proof -
  obtain es where e: "emits es w w'" "tx_run ps r es" using execute_emits [OF assms] by blast
  obtain A V B C D agreed where run: "es = (A @ V @ B) @ C @ D"
      and A: "set A \<subseteq> {Logged (status_as_str Tx_Preparing)}" "only (Some Call_prepare) V" "agreed \<longrightarrow> V = voted_yes ps"
      and B: "only None B" "only (Some Call_commit) C" "\<forall>e \<in> set D. event_call e \<in> {None, Some Call_rollback}"
      "C \<noteq> [] \<longrightarrow> agreed \<and> Logged (status_as_str Tx_Committing) \<in> set B" "commits_ok ps C"
      and out: "outcome_ok ps C r (B @ D)" and own: "\<And>h. commits_of h es = commits_of h C"
    by (rule tx_runE [OF e(2)]) (rule that)
  have ack: "acknowledged es p = acknowledged C p" for p by (simp add: acknowledged_def own)
  have logs: "Logged s \<in> set es \<longleftrightarrow> Logged s \<in> set (B @ D)" if "s \<noteq> ''preparing''" for s
    using that A B(2) by (auto simp: run)
  show ?thesis
    using e(1) out unfolding emits_def outcome_ok_def
    by (intro exI [of _ es]) (simp add: ack logs)
qed


lemma pair_mixed: "List.member (tx_history (snd (pair_run second_cannot_commit []))) (Logged ''mixed'')"
  by code_simp

theorem logged_outcome_is_what_happened_witness:
  "(\<exists>p \<in> set pair. acknowledged (tx_history (snd (pair_run second_cannot_commit []))) p)
   \<and> (\<exists>p \<in> set pair. \<not> acknowledged (tx_history (snd (pair_run second_cannot_commit []))) p)"
proof -
  obtain r w' where run: "pair_run second_cannot_commit [] = (r, w')" by (rule prod.exhaust)
  have "Logged ''mixed'' \<in> set (tx_history w')" using pair_mixed by (simp add: run)
  then show ?thesis
    using logged_outcome_is_what_happened [OF run pair_distinct] by (simp add: run)
qed

section \<open>The state entry of a transaction\<close>

text \<open>The phases call the participants and leave the store alone.\<close>

lemma call_participant_store: "call_participant c call p w = (r, w') \<Longrightarrow> tx_store w' = tx_store w"
  by (auto simp: call_participant_def Let_def)

lemma prepare_loop_store: "prepare_loop c ps acc w = (votes, complete, w') \<Longrightarrow> tx_store w' = tx_store w"
proof (induction ps arbitrary: acc w)
  case (Cons p ps)
  obtain r w1 where r: "call_participant c Call_prepare p w = (r, w1)" by (rule prod.exhaust)
  then show ?case using Cons call_participant_store [OF r] by (cases r) auto
qed simp

lemma rollback_loop_store: "rollback_loop c ps errors w = (errors', w') \<Longrightarrow> tx_store w' = tx_store w"
proof (induction ps arbitrary: errors w)
  case (Cons p ps)
  obtain r w1 where r: "call_participant c Call_rollback p w = (r, w1)" by (rule prod.exhaust)
  then show ?case using Cons call_participant_store [OF r] by (cases r) auto
qed simp

lemma rollback_phase_store: "rollback_phase c ps w = (r, w') \<Longrightarrow> tx_store w' = tx_store w"
  using rollback_loop_store by (fastforce simp: rollback_phase_def split: prod.splits)

lemma commit_round_store: "commit_round c retry ps results nx w = (results', nx', w') \<Longrightarrow> tx_store w' = tx_store w"
proof (induction ps arbitrary: results nx w)
  case (Cons p ps)
  obtain r w1 where r: "call_participant c Call_commit p w = (r, w1)" by (rule prod.exhaust)
  then show ?case using Cons call_participant_store [OF r] by (cases r) (auto split: if_splits)
qed simp

lemma commit_rounds_store: "commit_rounds n c ps results w = (results', w') \<Longrightarrow> tx_store w' = tx_store w"
proof (induction n arbitrary: ps results w)
  case (Suc n)
  obtain res nx w1 where r: "commit_round c (0 < n) ps results [] w = (res, nx, w1)" by (metis prod.exhaust)
  then show ?case using Suc commit_round_store [OF r] by (auto split: if_splits)
qed simp

lemma commit_phase_store: "commit_phase c ps n w = (results, w') \<Longrightarrow> tx_store w' = tx_store w"
  using commit_rounds_store unfolding commit_phase_def by blast

lemmas phase_stores = prepare_loop_store rollback_phase_store commit_phase_store

text \<open>The entry of the state machine is in its first state, and nobody else writes.\<close>

definition entry_created :: "entry_codec \<Rightarrow> string \<Rightarrow> store_world \<Rightarrow> bool" where
  "entry_created codec tx s \<longleftrightarrow> quiet s \<and>
     (\<exists>row e. hm_get (state_rows s) (STATE_KEY_PREFIX @ machine_key tx) = Some row
        \<and> entry_from_slice codec (sr_value row) = Inr e \<and> se_current_state e = ''created'')"


lemma log_key_apart: "STATE_KEY_PREFIX @ k \<noteq> log_key tx"
  by (simp add: STATE_KEY_PREFIX_def log_key_def)

lemma save_state_quiet:
  assumes "quiet s" "save_state k data ct s = (r, s')"
  shows "quiet s' \<and> (\<forall>k'. k' \<noteq> k \<longrightarrow> hm_get (state_rows s') k' = hm_get (state_rows s) k')
         \<and> (r = Inr () \<longrightarrow> (\<exists>row. hm_get (state_rows s') k = Some row \<and> sr_value row = data))"
  using with_conn_quiet [OF assms(1) assms(2) [unfolded save_state_def]]
  by (cases "hm_get (state_rows s) k") (auto simp: store_laws)

lemma entry_created_save_log:
  assumes "tpc_backend c = local_backend codec" "entry_created codec t (tx_store w)" "save_log c log w = (r, w')"
  shows "entry_created codec t (tx_store w')"
proof (cases "log_to_vec (tpc_log_codec c) log")
  case (Inl e)
  then show ?thesis using assms by (auto simp: save_log_def)
next
  case (Inr data)
  obtain x s where x: "save_state (log_key (tl_transaction_id log)) data ''application/octet-stream'' (tx_store w) = (x, s)"
    by (rule prod.exhaust)
  have "entry_created codec t s"
    using save_state_quiet [OF _ x] assms(2) log_key_apart [of "machine_key t"] by (simp add: entry_created_def)
  moreover have "tx_store w' = s"
    using assms(1,3) Inr x by (cases x) (auto simp: save_log_def on_store_def local_backend_def)
  ultimately show ?thesis by simp
qed

lemma entry_created_load_log:
  assumes "tpc_backend c = local_backend codec" "entry_created codec t (tx_store w)" "load_log c tx w = (r, w')"
  shows "entry_created codec t (tx_store w')"
proof -
  obtain x s where x: "be_load (local_backend codec) (log_key tx) (tx_store w) = (x, s)" by (rule prod.exhaust)
  have "entry_created codec t s" using load_quiet [OF _ x] assms(2) by (simp add: entry_created_def)
  moreover have "tx_store w' = s"
    using assms(1,3) x by (auto simp: load_log_def on_store_def split: sum.splits option.splits)
  ultimately show ?thesis by simp
qed

lemma entry_created_update_status:
  assumes "tpc_backend c = local_backend codec" "entry_created codec t (tx_store w)" "update_status c tx st w = (r, w')"
  shows "entry_created codec t (tx_store w')"
proof -
  obtain l w1 where l: "load_log c tx w = (l, w1)" by (rule prod.exhaust)
  note c1 = entry_created_load_log [OF assms(1,2) l]
  show ?thesis
  proof (cases "\<exists>log. l = Inr (Some log)")
    case False
    then have "w' = w1" using assms(3) l by (auto simp: update_status_def split: sum.splits option.splits)
    then show ?thesis using c1 by simp
  next
    case True
    then obtain log where log: "l = Inr (Some log)" by blast
    obtain now w2 where n: "utc_now c w1 = (now, w2)" by (rule prod.exhaust)
    obtain x w3 where x: "save_log c (log\<lparr>tl_status := status_as_str st, tl_updated_at := now\<rparr>) w2 = (x, w3)"
      by (rule prod.exhaust)
    have "entry_created codec t (tx_store w2)" using c1 n by (auto simp: utc_now_def)
    then have "entry_created codec t (tx_store w3)" by (rule entry_created_save_log [OF assms(1) _ x])
    moreover have "w' = w3" using assms(3) l log n x by (cases x) (auto simp: update_status_def)
    ultimately show ?thesis by simp
  qed
qed

lemma entry_created_move_machine:
  assumes "tpc_backend c = local_backend codec" "tpc_entry_codec c = codec" "entry_created codec tx (tx_store w)"
    and "to_state \<in> {St_Completed, St_Failed}"
  shows "entry_created codec tx (tx_store (move_machine c tx to_state w))"
proof -
  let ?b = "local_backend codec" and ?k = "STATE_KEY_PREFIX @ machine_key tx"
  obtain l s1 where l: "be_load ?b ?k (tx_store w) = (l, s1)" by (rule prod.exhaust)
  obtain row e where row: "hm_get (state_rows (tx_store w)) ?k = Some row" "entry_from_slice codec (sr_value row) = Inr e"
      "se_current_state e = ''created''" and q: "quiet (tx_store w)"
    using assms(3) by (auto simp: entry_created_def)
  note load = load_quiet [OF q l]
  obtain a s2 where a: "transition_attempt codec ?b (machine_key tx) to_state (tx_store w) = (a, s2)" by (rule prod.exhaust)
  have "\<not> is_valid_transition St_Created to_state"
    using assms(4) by (auto simp: is_valid_transition_def ALLOWED_TRANSITIONS_def)
  moreover have "current = St_Created"
    if "l = Inr (Some data)" "entry_from_slice codec data = Inr e'" "transition_from_str (se_current_state e') = Some current"
    for data e' current
    using that load row by (simp add: transition_from_str_def)
  ultimately obtain err where "s2 = s1" "a = Some (Inl err)"
    using transition_attempt_shape [OF l a] by blast
  then have "transition codec ?b (machine_key tx) to_state (tx_store w) = (Inl err, s1)"
    using a by (simp add: transition_def numeral_eq_Suc)
  then have "tx_store (move_machine c tx to_state w) = s1"
    using assms(1,2) by (simp add: move_machine_def on_store_def)
  then show ?thesis using load assms(3) by (simp add: entry_created_def)
qed

lemma entry_created_prepare_phase:
  assumes "tpc_backend c = local_backend codec" "entry_created codec t (tx_store w)" "prepare_phase c tx ps w = (r, w')"
  shows "entry_created codec t (tx_store w')"
proof -
  obtain x w1 where x: "update_status c tx Tx_Preparing w = (x, w1)" by (rule prod.exhaust)
  obtain votes complete w2 where v: "prepare_loop c ps [] w1 = (votes, complete, w2)" by (metis prod.exhaust)
  obtain y w3 where y: "update_status c tx Tx_Prepared w2 = (y, w3)" by (rule prod.exhaust)
  note c1 = entry_created_update_status [OF assms(1,2) x]
  then have c2: "entry_created codec t (tx_store w2)" using prepare_loop_store [OF v] by simp
  note c3 = entry_created_update_status [OF assms(1) c2 y]
  have "w' = w1 \<or> w' = w2 \<or> w' = w3"
    using assms(3) x v y by (cases x; cases y) (auto simp: prepare_phase_def split: if_splits)
  then show ?thesis using c1 c2 c3 by auto
qed

lemma save_log_quiet:
  assumes "tpc_backend c = local_backend codec" "quiet (tx_store w)" "save_log c log w = (r, w')"
  shows "quiet (tx_store w')"
proof (cases "log_to_vec (tpc_log_codec c) log")
  case (Inl e)
  then show ?thesis using assms(2,3) by (auto simp: save_log_def)
next
  case (Inr data)
  obtain x s where x: "save_state (log_key (tl_transaction_id log)) data ''application/octet-stream'' (tx_store w) = (x, s)"
    by (rule prod.exhaust)
  have "tx_store w' = s"
    using assms(1,3) Inr x by (cases x) (auto simp: save_log_def on_store_def local_backend_def)
  then show ?thesis using save_state_quiet [OF assms(2) x] by simp
qed

lemma entry_created_create:
  assumes "codec_ok codec" "quiet s" "create_state codec (local_backend codec) (machine_key tx) metadata s = (Inr e, s')"
  shows "entry_created codec tx s'"
proof -
  let ?e = "\<lparr>se_key = machine_key tx, se_current_state = transition_as_str St_Created, se_version = 1, se_metadata = metadata\<rparr>"
  obtain d where d: "entry_to_vec codec ?e = Inr d"
    using assms(3) by (cases "entry_to_vec codec ?e") (auto simp: create_state_def Let_def)
  obtain x s1 where x: "save_state (STATE_KEY_PREFIX @ machine_key tx) d ''application/octet-stream'' s = (x, s1)"
    by (rule prod.exhaust)
  then have save: "save_state (STATE_KEY_PREFIX @ machine_key tx) d ''application/octet-stream'' s = (Inr (), s')"
    using assms(3) d by (cases x) (auto simp: create_state_def local_backend_def Let_def)
  have "entry_from_slice codec d = Inr ?e" using assms(1) d by (simp add: codec_ok_def)
  then show ?thesis using save_state_quiet [OF assms(2) save] by (auto simp: entry_created_def)
qed

lemma entry_created_commit:
  assumes "tpc_backend c = local_backend codec" "tpc_entry_codec c = codec" "entry_created codec tx (tx_store w)"
    and "execute_commit c tx ps w = (Inr log, w')"
  shows "entry_created codec tx (tx_store w')"
proof -
  obtain x w1 where x: "update_status c tx Tx_Committing w = (x, w1)" by (rule prod.exhaust)
  obtain results w2 where res: "commit_phase c ps 2 w1 = (results, w2)" by (rule prod.exhaust)
  obtain y w3 where y: "update_status c tx Tx_Committed w2 = (y, w3)" by (rule prod.exhaust)
  note c1 = entry_created_update_status [OF assms(1,3) x]
  then have c2: "entry_created codec tx (tx_store w2)" using commit_phase_store [OF res] by simp
  note c3 = entry_created_update_status [OF assms(1) c2 y]
  have "w' = move_machine c tx St_Completed w3"
    using assms(4) x res y by (auto simp: execute_commit_def Let_def split: sum.splits if_splits prod.splits)
  then show ?thesis using entry_created_move_machine [OF assms(1,2) c3] by simp
qed

lemma execute_abort_fails: "execute_abort c tx ps votes w = (r, w') \<Longrightarrow> \<exists>e. r = Inl e"
  by (auto simp: execute_abort_def Let_def split: sum.splits prod.splits)

lemma execute_success:
  assumes "execute c tx ps metadata w = (Inr log, w')"
    and "new_log c tx (map (\<lambda>p. \<lparr>pi_id = pt_id p, pi_name = pt_name p, pi_role = pt_role p\<rparr>) ps) metadata w = (l, w1)"
    and "save_log c l w1 = (x, w2)"
    and "on_store (create_state (tpc_entry_codec c) (tpc_backend c) (machine_key tx)
           (JObject [(''phase'', JString ''begin'')])) w2 = (y, w3)"
    and "prepare_phase c tx ps w3 = (v, w4)"
  shows "(\<exists>e. y = Inr e) \<and> (\<exists>votes. v = Inr votes) \<and> execute_commit c tx ps w4 = (Inr log, w')"
  using assms execute_abort_fails [of c tx ps _ w4 "Inr log" w']
  by (cases x; cases y; cases v) (auto simp: execute_def Let_def split: if_splits)

text \<open>
  C30. The state machine is never told the outcome. The entry that \<open>execute\<close> creates for a transaction is in the state
  \<^verbatim>\<open>created\<close>, from which \<open>ALLOWED_TRANSITIONS\<close> leads only to \<^verbatim>\<open>running\<close> and \<^verbatim>\<open>cancelled\<close>: with the local
  backend and no other writer, after a transaction that was committed and reported as such the entry still says
  \<^verbatim>\<open>created\<close>, because the transition to \<^verbatim>\<open>completed\<close> is refused and its error is dropped.
\<close>

theorem state_entry_stays_created:
  assumes "tpc_backend c = local_backend (tpc_entry_codec c)" "codec_ok (tpc_entry_codec c)" "quiet (tx_store w)"
    and "execute c tx ps metadata w = (Inr log, w')"
  shows "\<exists>row e. hm_get (state_rows (tx_store w')) (STATE_KEY_PREFIX @ machine_key tx) = Some row
           \<and> entry_from_slice (tpc_entry_codec c) (sr_value row) = Inr e \<and> se_current_state e = ''created''"
proof -
  let ?codec = "tpc_entry_codec c" and ?md = "JObject [(''phase'', JString ''begin'')]"
  let ?infos = "map (\<lambda>p. \<lparr>pi_id = pt_id p, pi_name = pt_name p, pi_role = pt_role p\<rparr>) ps"
  obtain l w1 where l: "new_log c tx ?infos metadata w = (l, w1)" by (rule prod.exhaust)
  obtain x w2 where x: "save_log c l w1 = (x, w2)" by (rule prod.exhaust)
  obtain y w3 where y: "on_store (create_state ?codec (tpc_backend c) (machine_key tx) ?md) w2 = (y, w3)"
    by (rule prod.exhaust)
  obtain v w4 where v: "prepare_phase c tx ps w3 = (v, w4)" by (rule prod.exhaust)
  have steps: "\<exists>e. y = Inr e" "\<exists>votes. v = Inr votes" "execute_commit c tx ps w4 = (Inr log, w')"
    using execute_success [OF assms(4) l x y v] by auto
  have "quiet (tx_store w1)" using assms(3) l by (auto simp: new_log_def utc_now_def Let_def)
  then have "quiet (tx_store w2)" by (rule save_log_quiet [OF assms(1) _ x])
  then have "entry_created ?codec tx (tx_store w3)"
    using entry_created_create [OF assms(2)] steps(1) y assms(1) by (auto simp: on_store_def split: prod.splits)
  then have "entry_created ?codec tx (tx_store w4)" by (rule entry_created_prepare_phase [OF assms(1) _ v])
  then have "entry_created ?codec tx (tx_store w')" by (rule entry_created_commit [OF assms(1) refl _ steps(3)])
  then show ?thesis by (simp add: entry_created_def)
qed


lemma pair_coordinator_fields [simp]:
  "tpc_backend (pair_coordinator a) = local_backend pair_codec" "tpc_entry_codec (pair_coordinator a) = pair_codec"
  "tpc_log_codec (pair_coordinator a) = pair_log_codec" "tpc_now (pair_coordinator a) n = ''now''"
  "tpc_answer (pair_coordinator a) = a"
  by (simp_all add: pair_coordinator_def)

lemma pair_commits: "fst (pair_run agreeable []) = Inr (pair_log ''committed'')"
  by code_simp

theorem state_entry_stays_created_witness:
  "\<exists>row e. hm_get (state_rows (tx_store (snd (pair_run agreeable [])))) (STATE_KEY_PREFIX @ machine_key ''t'') = Some row
     \<and> entry_from_slice pair_codec (sr_value row) = Inr e \<and> se_current_state e = ''created''"
proof -
  obtain w' where run: "pair_run agreeable [] = (Inr (pair_log ''committed''), w')"
    using pair_commits by (metis prod.collapse)
  have "codec_ok pair_codec" by (simp add: codec_ok_def pair_codec_def)
  moreover have "quiet (tx_store (pair_world []))" by (simp add: quiet_def pair_world_def)
  ultimately show ?thesis using state_entry_stays_created [OF _ _ _ run] by (simp add: run)
qed

section \<open>Recovery\<close>

text \<open>
  The store works and nobody else uses it, the log of the transaction is there, and the codec reads back what it
  writes of that log.
\<close>

definition log_present :: "store_world two_phase_commit \<Rightarrow> string \<Rightarrow> transaction_log \<Rightarrow> store_world tx_world \<Rightarrow> bool" where
  "log_present c tx log w \<longleftrightarrow>
     turns (tx_store w) = [] \<and> tl_transaction_id log = tx
   \<and> (\<exists>row. hm_get (state_rows (tx_store w)) (log_key tx) = Some row
        \<and> log_from_slice (tpc_log_codec c) (sr_value row) = Inr log)
   \<and> (\<forall>st n. \<exists>d. let log' = log\<lparr>tl_status := status_as_str st, tl_updated_at := tpc_now c n\<rparr> in
        log_to_vec (tpc_log_codec c) log' = Inr d \<and> log_from_slice (tpc_log_codec c) d = Inr log')"

text \<open>Every participant does what it is asked, whatever happened before.\<close>

definition willing :: "'w two_phase_commit \<Rightarrow> participant_call \<Rightarrow> bool" where
  "willing c call \<longleftrightarrow> (\<forall>es h. tpc_answer c es call h = Inr ())"

lemma load_log_present:
  assumes "tpc_backend c = local_backend codec" "log_present c tx log w"
  shows "load_log c tx w = (Inr (Some log), w)"
proof -
  obtain row where row: "hm_get (state_rows (tx_store w)) (log_key tx) = Some row"
      "log_from_slice (tpc_log_codec c) (sr_value row) = Inr log" and t: "turns (tx_store w) = []"
    using assms(2) by (auto simp: log_present_def)
  have "be_load (local_backend codec) (log_key tx) (tx_store w) = (Inr (Some (sr_value row)), tx_store w)"
    using row(1) t by (simp add: local_backend_def local_load_def load_state_def with_conn_def)
  then show ?thesis using row(2) assms(1) by (simp add: load_log_def on_store_def)
qed

lemma update_status_present:
  assumes "tpc_backend c = local_backend codec" "log_present c tx log w"
  shows "\<exists>log' w'. update_status c tx st w = (Inr log', w') \<and> log_present c tx log' w' \<and> tl_status log' = status_as_str st
           \<and> tx_history w' = tx_history w @ [Logged (status_as_str st)]"
proof -
  let ?now = "tpc_now c (tx_ticks w)"
  let ?log = "log\<lparr>tl_status := status_as_str st, tl_updated_at := ?now\<rparr>" and ?s = "tx_store w"
  obtain d where d: "log_to_vec (tpc_log_codec c) ?log = Inr d" "log_from_slice (tpc_log_codec c) d = Inr ?log"
    using assms(2) by (auto simp: log_present_def Let_def)
  obtain row where row: "hm_get (state_rows ?s) (log_key tx) = Some row" and t: "turns ?s = []" "tl_transaction_id log = tx"
    using assms(2) by (auto simp: log_present_def)
  let ?row = "row\<lparr>sr_value := d, sr_content_type := ''application/octet-stream'', sr_version := sr_version row + 1, sr_payload := []\<rparr>"
  let ?s' = "?s\<lparr>state_rows := hm_insert (log_key tx) ?row (state_rows ?s)\<rparr>"
  let ?w' = "w\<lparr>tx_ticks := tx_ticks w + 1, tx_store := ?s', tx_history := tx_history w @ [Logged (status_as_str st)]\<rparr>"
  have "be_save (local_backend codec) (log_key tx) d ?s = (Inr (), ?s')"
    using row t(1) by (simp add: local_backend_def save_state_def with_conn_def)
  then have "update_status c tx st w = (Inr ?log, ?w')"
    using assms(1) d(1) t(2)
    by (simp add: update_status_def load_log_present [OF assms] utc_now_def save_log_def on_store_def)
  moreover have "log_present c tx ?log ?w'"
    using assms(2) d(2) t by (auto simp: log_present_def store_laws Let_def)
  ultimately show ?thesis by simp
qed

lemma log_present_store: "log_present c tx log w \<Longrightarrow> tx_store w' = tx_store w \<Longrightarrow> log_present c tx log w'"
  by (simp add: log_present_def)

lemma rollback_loop_willing: "willing c Call_rollback \<Longrightarrow> fst (rollback_loop c ps errors w) = errors"
  by (induction ps arbitrary: errors w) (simp_all add: call_participant_def willing_def Let_def)

lemma commit_round_willing:
  assumes "willing c Call_commit"
  shows "\<exists>w'. commit_round c retry ps results nx w =
       (results @ map (\<lambda>p. \<lparr>cr_participant_id = pt_id p, cr_committed = True, cr_error = None\<rparr>) ps, nx, w')"
proof (induction ps arbitrary: results w)
  case (Cons p ps)
  obtain w1 where "call_participant c Call_commit p w = (Inr (), w1)"
    using assms by (simp add: call_participant_def willing_def Let_def)
  then show ?case using Cons [of "results @ [\<lparr>cr_participant_id = pt_id p, cr_committed = True, cr_error = None\<rparr>]" w1]
    by simp
qed simp

lemma commit_phase_willing:
  assumes "willing c Call_commit" "commit_phase c ps 2 w = (results, w')"
  shows "all_committed ps results"
proof -
  obtain w1 where "commit_round c True ps [] [] w =
      (map (\<lambda>p. \<lparr>cr_participant_id = pt_id p, cr_committed = True, cr_error = None\<rparr>) ps, [], w1)"
    using commit_round_willing [OF assms(1), of True ps "[]" "[]" w] by auto
  then show ?thesis using assms(2) by (auto simp: commit_phase_def numeral_eq_Suc all_committed_def list_all_iff)
qed

lemma recover_rolls_back:
  assumes "tpc_backend c = local_backend codec" "log_present c tx log w" "willing c Call_rollback"
    and "status_from_str (tl_status log) \<in> {Tx_Preparing, Tx_Prepared, Tx_RollingBack}"
  shows "\<exists>log' w' es. recover c tx ps w = (Inr log', w') \<and> log_present c tx log' w' \<and> tl_status log' = ''rolled_back''
           \<and> tx_history w' = tx_history w @ es \<and> (\<forall>h. commits_of h es = [])"
proof -
  obtain rb w1 where rb: "rollback_phase c ps w = (rb, w1)" by (rule prod.exhaust)
  then have ok: "rb = Inr ()"
    using rollback_loop_willing [OF assms(3), of ps "[]" w] by (auto simp: rollback_phase_def split: prod.splits)
  obtain R where R: "tx_history w1 = tx_history w @ R" "only (Some Call_rollback) R"
    using rollback_phase_emits [OF rb] by (auto simp: emits_def)
  obtain log' w' where u: "update_status c tx Tx_RolledBack w1 = (Inr log', w')" "log_present c tx log' w'"
      "tl_status log' = ''rolled_back''" "tx_history w' = tx_history w1 @ [Logged (status_as_str Tx_RolledBack)]"
    using update_status_present [OF assms(1) log_present_store [OF assms(2) rollback_phase_store [OF rb]], of Tx_RolledBack]
    by auto
  have "recover c tx ps w = (Inr log', w')"
    using assms(4) rb ok u(1) by (auto simp: recover_def load_log_present [OF assms(1,2)])
  moreover have "commits_of h (R @ [Logged (status_as_str Tx_RolledBack)]) = []" for h
    using only_no_commits [OF R(2)] by simp
  ultimately show ?thesis using u R(1) by (metis append_assoc)
qed

lemma recover_final:
  assumes "tpc_backend c = local_backend codec" "log_present c tx log w"
    and "status_from_str (tl_status log) \<in> {Tx_Committed, Tx_RolledBack, Tx_Mixed}"
  shows "recover c tx ps w = (Inr log, w)"
  using assms(3) by (auto simp: recover_def load_log_present [OF assms(1,2)])

lemma recover_commits:
  assumes "tpc_backend c = local_backend codec" "log_present c tx log w" "willing c Call_commit"
    and "status_from_str (tl_status log) = Tx_Committing"
  shows "\<exists>log' w'. recover c tx ps w = (Inr log', w') \<and> log_present c tx log' w' \<and> tl_status log' = ''committed''"
proof -
  obtain results w1 where r: "commit_phase c ps 2 w = (results, w1)" by (rule prod.exhaust)
  note ok = commit_phase_willing [OF assms(3) r]
  obtain log' w' where u: "update_status c tx Tx_Committed w1 = (Inr log', w')" "log_present c tx log' w'"
      "tl_status log' = ''committed''"
    using update_status_present [OF assms(1) log_present_store [OF assms(2) commit_phase_store [OF r]], of Tx_Committed]
    by auto
  then show ?thesis using assms(4) r ok by (simp add: recover_def load_log_present [OF assms(1,2)])
qed

text \<open>
  When the store works and the participants do what they are asked, \<open>recover\<close> on a log in any known status answers
  with a log in a final status and stores it: rolled back, unless the log said committing, or was final and is left
  as it is. Running it again answers the same log, calls no participant and writes nothing.
\<close>

theorem recovery_reaches_a_final_status:
  assumes "tpc_backend c = local_backend codec" "log_present c tx log w"
    and "willing c Call_commit" "willing c Call_rollback"
    and "status_from_str (tl_status log) \<noteq> Tx_Unknown"
  shows "\<exists>log' w'. recover c tx ps w = (Inr log', w') \<and> log_present c tx log' w'
    \<and> tl_status log' =
        (case status_from_str (tl_status log) of
           Tx_Committing \<Rightarrow> ''committed''
         | Tx_Committed \<Rightarrow> tl_status log | Tx_Mixed \<Rightarrow> tl_status log | Tx_RolledBack \<Rightarrow> tl_status log
         | _ \<Rightarrow> ''rolled_back'')
    \<and> recover c tx ps w' = (Inr log', w')"
proof -
  let ?st = "status_from_str (tl_status log)"
  have again: "recover c tx ps w' = (Inr log', w')"
    if "log_present c tx log' w'" "tl_status log' \<in> {''committed'', ''rolled_back''}" for log' w'
    using recover_final [OF assms(1) that(1)] that(2) by (auto simp: status_from_str_def)
  consider "?st \<in> {Tx_Preparing, Tx_Prepared, Tx_RollingBack}" | "?st = Tx_Committing"
    | "?st \<in> {Tx_Committed, Tx_RolledBack, Tx_Mixed}"
    using assms(5) by (cases ?st) auto
  then show ?thesis
  proof cases
    case 1
    then show ?thesis using recover_rolls_back [OF assms(1,2,4) 1, of ps] again by fastforce
  next
    case 2
    then show ?thesis using recover_commits [OF assms(1,2,3) 2, of ps] again by fastforce
  next
    case 3
    then show ?thesis using recover_final [OF assms(1,2) 3, of ps] assms(2) by auto
  qed
qed

lemma pair_log_present:
  assumes "turns (tx_store w) = []" "map_option sr_value (hm_get (state_rows (tx_store w)) (log_key ''t'')) = Some status"
  shows "log_present (pair_coordinator a) ''t'' (pair_log status) w"
  using assms by (auto simp: log_present_def pair_log_codec_def pair_log_def Let_def)

definition stopped_world :: "store_world tx_world" where
  "stopped_world =
     \<lparr>tx_store = \<lparr>state_rows = [(''2pc:tx:t'', \<lparr>sr_value = ''committing'', sr_content_type = ''application/octet-stream'',
                                              sr_version = 5, sr_payload = []\<rparr>)], turns = []\<rparr>,
      tx_history = [], tx_ticks = 0\<rparr>"

theorem recovery_reaches_a_final_status_witness:
  "\<exists>log' w'. recover (pair_coordinator agreeable) ''t'' pair stopped_world = (Inr log', w') \<and> tl_status log' = ''committed''"
proof -
  have "log_present (pair_coordinator agreeable) ''t'' (pair_log ''committing'') stopped_world"
    by (rule pair_log_present) (simp_all add: stopped_world_def hm_get_def log_key_def)
  moreover have "willing (pair_coordinator agreeable) call" for call by (simp add: willing_def agreeable_def)
  moreover have "status_from_str (tl_status (pair_log ''committing'')) = Tx_Committing"
    by (simp add: pair_log_def status_from_str_def)
  ultimately show ?thesis
    using recovery_reaches_a_final_status [of "pair_coordinator agreeable" pair_codec "''t''" "pair_log ''committing''"
        stopped_world pair] by fastforce
qed

text \<open>What recovery does in any case. A rollback asks every participant once, in order, and reports whether all did it.\<close>

definition rolled_back :: "tx_event list \<Rightarrow> participant \<Rightarrow> bool" where
  "rolled_back es p \<longleftrightarrow> Called Call_rollback (pt_handle p) (Inr ()) \<in> set es"

definition rollback_calls :: "participant list \<Rightarrow> unit rust_result list \<Rightarrow> tx_event list" where
  "rollback_calls ps answers = map2 (\<lambda>p r. Called Call_rollback (pt_handle p) r) ps answers"

lemma rollback_calls_only: "only (Some Call_rollback) (rollback_calls ps answers)"
  by (auto simp: rollback_calls_def set_zip)

lemma rollback_calls_done:
  "length answers = length ps \<Longrightarrow> list_all (\<lambda>r. r = Inr ()) answers \<Longrightarrow> p \<in> set ps \<Longrightarrow>
   rolled_back (rollback_calls ps answers @ es) p"
  by (induction ps answers rule: list_induct2') (auto simp: rolled_back_def rollback_calls_def)

lemma rollback_loop_calls:
  assumes "rollback_loop c ps errors w = (errors', w')"
  shows "\<exists>answers. length answers = length ps \<and> emits (rollback_calls ps answers) w w'
    \<and> (errors' = [] \<longleftrightarrow> errors = [] \<and> list_all (\<lambda>r. r = Inr ()) answers)"
  using assms
proof (induction ps arbitrary: errors w)
  case (Cons p ps)
  obtain r w1 where r: "call_participant c Call_rollback p w = (r, w1)" by (rule prod.exhaust)
  note e1 = call_participant_emits [OF r]
  define errors1 where "errors1 = (case r of Inl e \<Rightarrow> errors @ [pt_id p @ '': '' @ e] | Inr _ \<Rightarrow> errors)"
  have "rollback_loop c ps errors1 w1 = (errors', w')" using Cons.prems r by (cases r) (auto simp: errors1_def)
  then obtain answers where a: "length answers = length ps" "emits (rollback_calls ps answers) w1 w'"
      "errors' = [] \<longleftrightarrow> errors1 = [] \<and> list_all (\<lambda>r. r = Inr ()) answers"
    using Cons.IH by blast
  have "errors1 = [] \<longleftrightarrow> errors = [] \<and> r = Inr ()" by (cases r) (simp_all add: errors1_def)
  moreover have "emits (rollback_calls (p # ps) (r # answers)) w w'"
    using emits_trans [OF e1 a(2)] by (simp add: rollback_calls_def)
  ultimately show ?case using a by (intro exI [of _ "r # answers"]) auto
qed (auto simp: rollback_calls_def)

lemma rollback_phase_calls:
  assumes "rollback_phase c ps w = (r, w')"
  shows "\<exists>answers. length answers = length ps \<and> emits (rollback_calls ps answers) w w'
    \<and> (r = Inr () \<longleftrightarrow> list_all (\<lambda>r. r = Inr ()) answers)"
proof -
  obtain errors w1 where l: "rollback_loop c ps [] w = (errors, w1)" by (rule prod.exhaust)
  then have "w' = w1" "r = Inr () \<longleftrightarrow> errors = []" using assms by (auto simp: rollback_phase_def split: if_splits)
  then show ?thesis using rollback_loop_calls [OF l] by auto
qed

text \<open>The two ways recovery can go for a log that is not final.\<close>

definition undo_run :: "participant list \<Rightarrow> transaction_log rust_result \<Rightarrow> tx_event list \<Rightarrow> bool" where
  "undo_run ps r es \<longleftrightarrow>
     (\<exists>answers. length answers = length ps \<and>
        (if list_all (\<lambda>a. a = Inr ()) answers then es = rollback_calls ps answers @ logged Tx_RolledBack r
         else es = rollback_calls ps answers \<and> (\<exists>e. r = Inl e))) \<and>
     (\<forall>log. r = Inr log \<longrightarrow> tl_status log = status_as_str Tx_RolledBack)"

definition redo_run :: "participant list \<Rightarrow> transaction_log rust_result \<Rightarrow> tx_event list \<Rightarrow> bool" where
  "redo_run ps r es \<longleftrightarrow>
     (\<exists>C D. es = C @ D \<and> only (Some Call_commit) C \<and> commits_ok ps C
        \<and> (\<forall>e \<in> set D. event_call e \<in> {None, Some Call_rollback})
        \<and> outcome_ok ps C r D
        \<and> (Logged (status_as_str Tx_RolledBack) \<in> set D \<or> Logged (status_as_str Tx_Mixed) \<in> set D \<longrightarrow>
             (\<forall>p \<in> set ps. rolled_back D p)))"

lemma recover_undoes:
  assumes "rollback_phase c ps w = (rb, w1)"
    and "(case rb of Inl e \<Rightarrow> (Inl e, w1) | Inr _ \<Rightarrow> update_status c tx Tx_RolledBack w1) = (r, w')"
  shows "\<exists>es. emits es w w' \<and> undo_run ps r es"
proof -
  obtain answers where a: "length answers = length ps" "emits (rollback_calls ps answers) w w1"
      "rb = Inr () \<longleftrightarrow> list_all (\<lambda>r. r = Inr ()) answers"
    using rollback_phase_calls [OF assms(1)] by blast
  show ?thesis
  proof (cases rb)
    case (Inl e)
    then have "r = Inl e" "w' = w1" "\<not> list_all (\<lambda>r. r = Inr ()) answers" using assms(2) a(3) by auto
    then show ?thesis using a by (intro exI [of _ "rollback_calls ps answers"]) (auto simp: undo_run_def)
  next
    case (Inr u)
    then have u: "update_status c tx Tx_RolledBack w1 = (r, w')" and all: "list_all (\<lambda>r. r = Inr ()) answers"
      using assms(2) a(3) by auto
    note e2 = update_status_emits [OF u]
    have "emits (rollback_calls ps answers @ logged Tx_RolledBack r) w w'" using emits_trans [OF a(2)] e2 by blast
    moreover have "undo_run ps r (rollback_calls ps answers @ logged Tx_RolledBack r)"
      using a(1) all e2 by (auto simp: undo_run_def)
    ultimately show ?thesis by blast
  qed
qed

lemma redo_committed:
  assumes "commit_run 3 ps C results" "all_committed ps results"
    and "\<forall>log. r = Inr log \<longrightarrow> tl_status log = status_as_str Tx_Committed"
  shows "redo_run ps r (C @ logged Tx_Committed r)"
proof -
  have "\<forall>p \<in> set ps. acknowledged C p" using all_committed_acknowledged [OF assms(1)] assms(2) by simp
  then have "outcome_ok ps C r (logged Tx_Committed r)" using assms(3) by (cases r) (auto simp: outcome_ok_def)
  moreover have "commits_ok ps C" "only (Some Call_commit) C" using assms(1) by (auto simp: commit_run_def commits_ok_def)
  moreover have "\<forall>ev \<in> set (logged Tx_Committed r). event_call ev \<in> {None, Some Call_rollback}"
    "Logged (status_as_str Tx_RolledBack) \<notin> set (logged Tx_Committed r)"
    "Logged (status_as_str Tx_Mixed) \<notin> set (logged Tx_Committed r)"
    by (cases r; simp)+
  ultimately show ?thesis unfolding redo_run_def by blast
qed

lemma redo_failed:
  assumes "commit_run 3 ps C results" "\<not> all_committed ps results" "r = Inl e" "only (Some Call_rollback) R"
    "L = [] \<or> (\<forall>p \<in> set ps. rolled_back (R @ L) p)"
    "set L \<subseteq> {Logged (status_as_str (if list_ex cr_committed results then Tx_Mixed else Tx_RolledBack))}"
  shows "redo_run ps r (C @ R @ L)"
proof -
  have "\<exists>p \<in> set ps. \<not> acknowledged C p" using all_committed_acknowledged [OF assms(1)] assms(2) by simp
  moreover have "list_ex cr_committed results \<longleftrightarrow> (\<exists>p \<in> set ps. acknowledged C p)"
    using assms(1) by (simp add: commit_run_def)
  moreover have no_log: "Logged x \<notin> set R" for x using assms(4) by fastforce
  ultimately have "outcome_ok ps C r (R @ L)"
    using assms(3,6) by (cases "list_ex cr_committed results") (auto simp: outcome_ok_def)
  moreover have "commits_ok ps C" "only (Some Call_commit) C" using assms(1) by (auto simp: commit_run_def commits_ok_def)
  moreover have "\<forall>ev \<in> set (R @ L). event_call ev \<in> {None, Some Call_rollback}" using assms(4,6) by auto
  moreover have "Logged x \<in> set (R @ L) \<longrightarrow> (\<forall>p \<in> set ps. rolled_back (R @ L) p)" for x using assms(5) no_log by auto
  ultimately show ?thesis unfolding redo_run_def by blast
qed

lemma recover_redoes:
  assumes "distinct (map pt_handle ps)" "commit_phase c ps 2 w = (results, w1)"
    and "(if all_committed ps results then update_status c tx Tx_Committed w1
          else (case rollback_phase c ps w1 of
                  (Inl e, w2) \<Rightarrow> (Inl e, w2)
                | (Inr _, w2) \<Rightarrow>
                    (case update_status c tx (if list_ex cr_committed results then Tx_Mixed else Tx_RolledBack) w2 of
                       (Inl e, w3) \<Rightarrow> (Inl e, w3)
                     | (Inr _, w3) \<Rightarrow>
                         (Inl (''Recovery failed during commit: '' @ join ''; '' (commit_failures results)), w3)))) = (r, w')"
  shows "\<exists>es. emits es w w' \<and> redo_run ps r es"
proof -
  obtain C where C: "emits C w w1" "commit_run 3 ps C results" using commit_phase_emits [OF assms(2,1)] by blast
  show ?thesis
  proof (cases "all_committed ps results")
    case True
    then have u: "update_status c tx Tx_Committed w1 = (r, w')" using assms(3) by simp
    note e2 = update_status_emits [OF u]
    then have "emits (C @ logged Tx_Committed r) w w'" using emits_trans [OF C(1)] by blast
    then show ?thesis using redo_committed [OF C(2) True] e2 by blast
  next
    case False
    let ?st = "if list_ex cr_committed results then Tx_Mixed else Tx_RolledBack"
    obtain rb w2 where rb: "rollback_phase c ps w1 = (rb, w2)" by (rule prod.exhaust)
    obtain answers where a: "length answers = length ps" "emits (rollback_calls ps answers) w1 w2"
        "rb = Inr () \<longleftrightarrow> list_all (\<lambda>r. r = Inr ()) answers"
      using rollback_phase_calls [OF rb] by blast
    note R = rollback_calls_only [of ps answers]
    show ?thesis
    proof (cases rb)
      case (Inl e)
      then have "r = Inl e" "w' = w2" using assms(3) False rb by auto
      then show ?thesis
        using redo_failed [OF C(2) False _ R, of r e "[]"] emits_trans [OF C(1) a(2)] by auto
    next
      case (Inr u)
      obtain y w3 where y: "update_status c tx ?st w2 = (y, w3)" by (rule prod.exhaust)
      have all: "list_all (\<lambda>r. r = Inr ()) answers" using a(3) Inr by simp
      have "w' = w3" and failed: "\<exists>e. r = Inl e" using assms(3) False rb Inr y by (auto split: sum.splits)
      have "emits (C @ rollback_calls ps answers @ logged ?st y) w w'"
        using C(1) a(2) update_status_emits [OF y] \<open>w' = w3\<close> by (intro emits_trans) auto
      moreover have "\<forall>p \<in> set ps. rolled_back (rollback_calls ps answers @ logged ?st y) p"
        using rollback_calls_done [OF a(1) all] by blast
      moreover have "set (logged ?st y) \<subseteq> {Logged (status_as_str ?st)}" by (cases y) simp_all
      ultimately show ?thesis using redo_failed [OF C(2) False _ R] failed by blast
    qed
  qed
qed

text \<open>
  C17. What recovery does for a log it has read, on any backend and whatever the participants answer. A log that is
  preparing, prepared or rolling back is undone: no commit is called, every participant is asked to roll back once
  and in order, and \<^verbatim>\<open>rolled_back\<close> is written and answered only if all of them did, otherwise the answer is an error
  and nothing is written. A log that is committing is redone: commits go only to the participants, at most three
  times each and never after an acknowledgement, and no commit follows a rollback; \<^verbatim>\<open>committed\<close> is written only if all
  have acknowledged, \<^verbatim>\<open>rolled_back\<close> only if none has, \<^verbatim>\<open>mixed\<close> only if some but not all have, the last two only when
  all have rolled back, and success is answered only with \<^verbatim>\<open>committed\<close> written. The acknowledgements are those of this
  run. For a final log nobody is called and nothing is written, and an unknown status is an error.
\<close>

theorem recovery_follows_the_log:
  assumes "distinct (map pt_handle ps)" "load_log c tx w = (Inr (Some log), w1)" "recover c tx ps w = (r, w')"
  shows "\<exists>es. tx_history w' = tx_history w @ es \<and>
    (if status_from_str (tl_status log) \<in> {Tx_Preparing, Tx_Prepared, Tx_RollingBack} then undo_run ps r es
     else if status_from_str (tl_status log) = Tx_Committing then redo_run ps r es
     else es = [] \<and> (if status_from_str (tl_status log) = Tx_Unknown then \<exists>e. r = Inl e else r = Inr log))"
proof -
  let ?st = "status_from_str (tl_status log)"
  have h: "tx_history w1 = tx_history w" using load_log_emits [OF assms(2)] by (simp add: emits_def)
  obtain rb w2 where rb: "rollback_phase c ps w1 = (rb, w2)" by (rule prod.exhaust)
  obtain results w3 where cp: "commit_phase c ps 2 w1 = (results, w3)" by (rule prod.exhaust)
  consider (undo) "?st \<in> {Tx_Preparing, Tx_Prepared, Tx_RollingBack}" | (redo) "?st = Tx_Committing"
    | (final) "?st \<in> {Tx_Committed, Tx_RolledBack, Tx_Mixed}" | (unknown) "?st = Tx_Unknown"
    by (cases ?st) auto
  then show ?thesis
  proof cases
    case undo
    then have "(case rb of Inl e \<Rightarrow> (Inl e, w2) | Inr _ \<Rightarrow> update_status c tx Tx_RolledBack w2) = (r, w')"
      using assms(2,3) rb by (cases rb) (auto simp: recover_def)
    from recover_undoes [OF rb this] show ?thesis using undo h by (auto simp: emits_def)
  next
    case redo
    then have "\<exists>es. emits es w1 w' \<and> redo_run ps r es"
      using assms(2,3) cp unfolding recover_def Let_def
      by (intro recover_redoes [OF assms(1) cp, of tx]) (simp split del: if_split)
    then show ?thesis using redo h by (auto simp: emits_def)
  next
    case final
    then have "r = Inr log" "w' = w1" using assms(2,3) by (auto simp: recover_def)
    then show ?thesis using final h by auto
  next
    case unknown
    then have "w' = w1" "\<exists>e. r = Inl e" using assms(2,3) by (auto simp: recover_def)
    then show ?thesis using unknown h by auto
  qed
qed

theorem recovery_follows_the_log_witness:
  "\<exists>es. tx_history (snd (recover (pair_coordinator second_cannot_commit) ''t'' pair stopped_world)) = es \<and>
     redo_run pair (fst (recover (pair_coordinator second_cannot_commit) ''t'' pair stopped_world)) es"
proof -
  let ?c = "pair_coordinator second_cannot_commit"
  have "log_present ?c ''t'' (pair_log ''committing'') stopped_world"
    by (rule pair_log_present) (simp_all add: stopped_world_def hm_get_def log_key_def)
  then have load: "load_log ?c ''t'' stopped_world = (Inr (Some (pair_log ''committing'')), stopped_world)"
    using load_log_present [of ?c pair_codec] by simp
  have status: "status_from_str (tl_status (pair_log ''committing'')) = Tx_Committing"
    by (simp add: pair_log_def status_from_str_def)
  have "tx_history stopped_world = []" by (simp add: stopped_world_def)
  then show ?thesis
    using recovery_follows_the_log [OF pair_distinct load prod.collapse [symmetric]] by (simp add: status)
qed

text \<open>
  C29. A commit can be forgotten. When the coordinator stops between \<^verbatim>\<open>rolling_back\<close> and the final status, the log no
  longer tells that some participants had acknowledged a commit before: recovery rolls everybody back, answers
  success and records \<^verbatim>\<open>rolled_back\<close>, for a transaction that \<open>execute\<close> would have recorded as \<^verbatim>\<open>mixed\<close>.
\<close>

theorem recovery_forgets_a_commit:
  assumes "tpc_backend c = local_backend codec" "log_present c tx log w" "willing c Call_rollback"
    and "tl_status log = ''rolling_back''" "acknowledged (tx_history w) p"
  shows "\<exists>log' w'. recover c tx ps w = (Inr log', w') \<and> log_present c tx log' w' \<and> tl_status log' = ''rolled_back''
           \<and> acknowledged (tx_history w') p"
proof -
  have "status_from_str (tl_status log) \<in> {Tx_Preparing, Tx_Prepared, Tx_RollingBack}"
    using assms(4) by (simp add: status_from_str_def)
  from recover_rolls_back [OF assms(1-3) this, of ps] show ?thesis
    using assms(5) by (auto simp: acknowledged_def)
qed


text \<open>The store fails once, on the load before the final status is written.\<close>

definition late_failure :: "turn list" where
  "late_failure = replicate 10 \<lparr>interference = id, fault = None\<rparr> @ [\<lparr>interference = id, fault = Some ''disk I/O error''\<rparr>]"

lemma late_failure_leaves:
  "length (turns (tx_store (snd (pair_run second_cannot_commit late_failure)))) = 0"
  "map_option sr_value (hm_get (state_rows (tx_store (snd (pair_run second_cannot_commit late_failure)))) (log_key ''t''))
     = Some ''rolling_back''"
  "acknowledged (tx_history (snd (pair_run second_cannot_commit late_failure)))
     \<lparr>pt_handle = 0, pt_id = ''a'', pt_name = ''A'', pt_role = ''worker''\<rparr>"
  by code_simp+

theorem recovery_forgets_a_commit_witness:
  "\<exists>log' w'. recover (pair_coordinator second_cannot_commit) ''t'' pair (snd (pair_run second_cannot_commit late_failure))
       = (Inr log', w') \<and> tl_status log' = ''rolled_back''
     \<and> acknowledged (tx_history w') \<lparr>pt_handle = 0, pt_id = ''a'', pt_name = ''A'', pt_role = ''worker''\<rparr>"
proof -
  let ?w = "snd (pair_run second_cannot_commit late_failure)"
  have "log_present (pair_coordinator second_cannot_commit) ''t'' (pair_log ''rolling_back'') ?w"
    using late_failure_leaves(1,2) by (intro pair_log_present) simp_all
  moreover have "willing (pair_coordinator second_cannot_commit) Call_rollback"
    by (simp add: willing_def second_cannot_commit_def)
  moreover have "tl_status (pair_log ''rolling_back'') = ''rolling_back''" by (simp add: pair_log_def)
  ultimately show ?thesis
    using recovery_forgets_a_commit [OF pair_coordinator_fields(1) _ _ _ late_failure_leaves(3)] by blast
qed

end
