(* ===== verification/Spec2Isabelle.thy ===== *)
theory Spec2Isabelle
  imports Mcp_Session Transaction_Owner Sql_Import Running_Queries Query_Script Two_Phase_Commit
begin

text \<open>
  A verification library for DBX, a client for many databases with a desktop, a web and a command-line front
  end over one Rust core. It covers the parts of the core that decide whether, how often and in which
  order statements reach a database, and what a user is told about them: splitting scripts, the read-only
  gate, running statements with recovery, cancellation, transactions that outlive a request, and the
  sessions of the MCP server. Paths below are relative to \<^verbatim>\<open>src/\<close>.

  \<^bold>\<open>How a script flows through the modelled parts.\<close> A script is split into statements
  (\<^verbatim>\<open>Sql_Split\<close>, \<^verbatim>\<open>Sql_Control\<close>, \<^verbatim>\<open>Sql_Blocks\<close>; read from a file in chunks, \<^verbatim>\<open>Sql_Chunks\<close>, and batched,
  \<^verbatim>\<open>Sql_Import\<close>). On a read-only connection the gate classifies every statement (\<^verbatim>\<open>Write_Gate\<close> over \<^verbatim>\<open>Write_Sql\<close>,
  \<^verbatim>\<open>Cypher_Read_Only\<close> and \<^verbatim>\<open>Search_Request\<close>) unless a write window is open (\<^verbatim>\<open>Write_Unlock\<close>). A route is chosen and
  the statements are run (\<^verbatim>\<open>Query_Script\<close> over \<^verbatim>\<open>Query_Run\<close> and \<^verbatim>\<open>Mysql_Batch\<close>); errors decide about retry and
  pools (\<^verbatim>\<open>Query_Errors\<close> over \<^verbatim>\<open>Agent_Errors\<close> and \<^verbatim>\<open>Sql_Error_Position\<close>). A run is registered so that it can be
  canceled and asked for (\<^verbatim>\<open>Running_Queries\<close>).

  \<^bold>\<open>Theories.\<close>
  \<^item> \<^verbatim>\<open>Dbx_Prelude\<close>, \<^verbatim>\<open>Json_Value\<close>: Rust strings, characters, options, results, clocks and hash maps (the locale
    \<open>finite_store\<close>, interpreted on association lists), and JSON values.
  \<^item> \<^verbatim>\<open>Mcp_Session\<close>: the session store of \<^verbatim>\<open>crates/dbx-mcp/src/session.rs\<close>. The cap on sessions is an invariant of
    every sequence of operations; sweeping, resolving and closing do what they promise.
  \<^item> \<^verbatim>\<open>Transaction_Owner\<close>: the task that owns a pinned MySQL transaction
    (\<^verbatim>\<open>crates/dbx-mcp/src/transaction.rs\<close>). A commit is reported exactly when the server acknowledged it, and an owner
    that ends leaves no open transaction behind.
  \<^item> \<^verbatim>\<open>Agent_Errors\<close>: errors of the out-of-process agent (\<^verbatim>\<open>crates/dbx-driver-agent/src/agent_driver.rs\<close>), their trip
    through strings and the recovery decision.
  \<^item> \<^verbatim>\<open>Sql_Error_Position\<close>: cursors of server errors (\<^verbatim>\<open>crates/dbx-sql-core/src/sql_error_position.rs\<close>).
  \<^item> \<^verbatim>\<open>Sql_Strip\<close>, \<^verbatim>\<open>Write_Sql\<close>: blanking of literals and comments and the classification of one statement
    (\<^verbatim>\<open>crates/dbx-sql-core/src/query_execution_sql.rs\<close>). A statement that counts as a read has no write verb outside
    literals; two dialect rules that hide one are shown as well.
  \<^item> \<^verbatim>\<open>Sql_Split\<close>, \<^verbatim>\<open>Sql_Scanner\<close>, \<^verbatim>\<open>Sql_Control\<close>, \<^verbatim>\<open>Sql_Blocks\<close>, \<^verbatim>\<open>Sql_Chunks\<close>, \<^verbatim>\<open>Sql_Import\<close>: the splitter of
    \<^verbatim>\<open>crates/dbx-sql-core/src/sql.rs\<close> with its dialect profiles, the recognisers of routine blocks, psql commands,
    chunked reading and import batches. Statements are pieces of the script, the incremental tracker refines
    the recogniser that starts over, and chunking and batching lose nothing.
  \<^item> \<^verbatim>\<open>Cypher_Read_Only\<close>, \<^verbatim>\<open>Search_Request\<close>: the read-only proof for Cypher and the risk classes of search engine
    requests together with the parsers of the drivers, so that the gate can be compared with what is sent.
  \<^item> \<^verbatim>\<open>Write_Unlock\<close>, \<^verbatim>\<open>Write_Gate\<close>: the temporary write windows (\<^verbatim>\<open>crates/dbx-core/src/safety/write_unlock.rs\<close>) and the
    gate of a connection. A write passes a read-only connection only in a window its owner was granted; a
    script that passes reads in every statement; an interleaving that loses a window is shown.
  \<^item> \<^verbatim>\<open>Query_Errors\<close>, \<^verbatim>\<open>Query_Run\<close>, \<^verbatim>\<open>Mysql_Batch\<close>, \<^verbatim>\<open>Query_Script\<close>: running statements, scripts and MySQL batches
    (\<^verbatim>\<open>crates/dbx-core/src/query/mod.rs\<close>). Writes reach the database at most once and in order under every behaviour
    of the environment, recovery is bounded, every statement is accounted for, pipelined batches fit the
    packet, and no unknown transaction stays open on a pooled connection. One error that is never reported is
    shown.
  \<^item> \<^verbatim>\<open>Running_Queries\<close>: the registry of running queries (\<^verbatim>\<open>crates/dbx-core/src/query/query_cancel.rs\<close>). A cancel reaches
    the driver's interrupt exactly once in either order of arrival, and a client is told that the database
    is done exactly when that was proved.

  \<^bold>\<open>State, errors, environment.\<close> Structs are records, enums are datatypes, hash maps are association lists,
  errors are the left side of a sum, and panics where they can happen are values too. Time is a number of
  nanoseconds given to the operations. What the outside world answers (databases, pools, clocks, cancellation
  tokens, the sqlparser and serde_json libraries, capabilities that the build generates) is an argument; a
  property that relies on documented behaviour of it says so in a hypothesis, and its witness gives an
  environment that has it. Concurrency is modelled where the code has it as events or steps in any order.

  \<^bold>\<open>Bounds.\<close> Characters are those below U+0100, so strings outside that range, among them four Chinese
  phrases in one list of error markers, are not covered. Registration ids and cursors keep their machine
  width and wrap around. All recursive functions are total; no fuel is used in the script and query theories.

  \<^bold>\<open>Not modelled.\<close> The dispatch of a statement to a driver, the drivers' protocols and the opening and closing of
  pools are input and output over third-party clients. Running a script in a requested transaction, native
  SQL Server batches and complete agent batches enter \<^verbatim>\<open>Query_Script\<close> as an argument. Large value markers,
  progress callbacks, logging, statement ranges for the editor cursor, schema browsing, data transfer,
  generated DDL, storage, cloud sync, the AI agent, plugins and the front ends are left out.
\<close>

end
